(* ===== verification/BoxPrelude.thy ===== *)
theory BoxPrelude
  imports Main "HOL-Library.Word"
begin

text \<open>
  Names and facts every component shares: the machine integers of the 32-bit
  targets (\<open>size_t\<close>, \<open>uint32_t\<close> and pointers are \<open>32 word\<close>), the theorem collections
  the components fill, and general lemmas on lists and words.
\<close>

unbundle bit_operations_syntax

type_synonym u8 = "8 word"
type_synonym u16 = "16 word"
type_synonym u32 = "32 word"
type_synonym u64 = "64 word"

named_theorems box_defs \<open>unfolding rules of the small operations of a component\<close>
named_theorems box_simps \<open>derived rewrite rules of the components\<close>

subsection \<open>Word arithmetic read in the naturals\<close>

lemma unat_add_nat:
  "unat a + unat b < 2 ^ LENGTH('a) \<Longrightarrow> unat (a + b) = unat a + unat (b :: 'a::len word)"
  by (simp add: unat_add_lem)

lemma unat_mult_nat:
  "unat a * unat b < 2 ^ LENGTH('a) \<Longrightarrow> unat (a * b) = unat a * unat (b :: 'a::len word)"
  by (simp add: unat_mult_lem)

lemma unat_le_1_cases: "unat b \<le> 1 \<Longrightarrow> b = 0 \<or> b = 1"
  for b :: "'a::len word"
  by (auto simp: word_unat_eq_iff)

lemma unat_shift1_or:
  fixes n b :: u32
  assumes "unat b \<le> 1" and "2 * unat n + 1 < 2 ^ 32"
  shows "unat (push_bit 1 n OR b) = 2 * unat n + unat b"
proof -
  have b: "b = 0 \<or> b = 1"
    using assms(1) by (rule unat_le_1_cases)
  have "push_bit 1 n OR b = 2 * n + b"
    using b by (auto simp: push_bit_eq_mult mult.commute even_or_iff or_one_eq)
  moreover have "unat (2 * n) = 2 * unat n"
    using assms by (subst unat_mult_nat) auto
  ultimately show ?thesis
    using assms b by (auto simp: unat_add_nat)
qed

lemma unat_and_mask: "unat (n AND mask m) = unat n mod 2 ^ m" for n :: "'a::len word"
  by (metis take_bit_eq_mask unsigned_take_bit_eq take_bit_eq_mod)

lemma unat_and_15: "unat (n AND 15) = unat n mod 16" for n :: u32
  using unat_and_mask [of n 4] by (simp add: mask_eq_exp_minus_1)

lemma unat_and_255: "unat (n AND 255) = unat n mod 256" for n :: u32
  using unat_and_mask [of n 8] by (simp add: mask_eq_exp_minus_1)
lemma unat_u32_less: "unat w < 4294967296" for w :: u32
  using unsigned_less [of w, where ?'a = nat] by simp

lemma unat_u32_div8_less: "unat (w div 8) < 2 ^ 29" for w :: u32
  using unat_u32_less [of w] by (simp add: unat_div)

lemma sint_eq_unat:
  fixes w :: u32
  assumes "unat w < 2 ^ 31"
  shows "sint w = int (unat w)"
proof -
  have "int (unat w) < int (2 ^ 31)" using assms by (simp only: of_nat_less_iff)
  then have "uint w < 2 ^ 31" by simp
  then have "signed_take_bit 31 (uint w) = uint w"
    by (subst signed_take_bit_int_eq_self_iff) (auto intro: order_trans [OF _ uint_ge_0])
  then show ?thesis by (simp add: sint_uint)
qed

lemma unat_div_less: "0 < t \<Longrightarrow> 1 < unat b \<Longrightarrow> unat (t div b) < unat t" for t b :: u32
  by (simp add: unat_div word_less_nat_alt)

subsection \<open>Lists\<close>

lemma dropWhile_length_less: "dropWhile P p = c # q \<Longrightarrow> length q < length p"
  by (metis length_dropWhile_le length_Cons Suc_le_lessD)

lemma take_1_drop: "n < length xs \<Longrightarrow> take (Suc 0) (drop n xs) = [xs ! n]"
  by (simp add: take_Suc_conv_app_nth)

lemma take_2_drop: "Suc n < length xs \<Longrightarrow> take 2 (drop n xs) = [xs ! n, xs ! Suc n]"
  by (simp add: numeral_2_eq_2 take_Suc_conv_app_nth)

subsection \<open>Little-endian words in byte arrays\<close>

definition le32 :: "u8 \<Rightarrow> u8 \<Rightarrow> u8 \<Rightarrow> u8 \<Rightarrow> u32" where
  "le32 a b c d =
     push_bit 0 (ucast a) OR push_bit 8 (ucast b) OR push_bit 16 (ucast c) OR push_bit 24 (ucast d)"

definition byte_of :: "u32 \<Rightarrow> nat \<Rightarrow> u8" where
  "byte_of w i = ucast (drop_bit (8 * i) w)"

lemma bit_u8_ge: "8 \<le> n \<Longrightarrow> \<not> bit w n" for w :: u8
  using bit_imp_le_length [of w n] by auto

lemma bit_le32:
  "bit (le32 a b c d) n \<longleftrightarrow>
     (if n < 8 then bit a n else if n < 16 then bit b (n - 8)
      else if n < 24 then bit c (n - 16) else n < 32 \<and> bit d (n - 24))"
  by (simp add: le32_def bit_or_iff bit_push_bit_iff bit_ucast_iff bit_u8_ge not_less)
    (auto dest: bit_imp_le_length)

lemma bit_byte_of: "bit (byte_of w i) n \<longleftrightarrow> n < 8 \<and> bit w (8 * i + n)"
  by (auto simp: byte_of_def bit_ucast_iff bit_drop_bit_eq)

lemma le32_bytes: "le32 (byte_of w 0) (byte_of w 1) (byte_of w 2) (byte_of w 3) = w"
proof (rule bit_word_eqI)
  fix n
  assume "n < LENGTH(32)"
  then have "n - 24 < 8" "n < 16 \<longrightarrow> n - 8 < 8" "n < 24 \<longrightarrow> n - 16 < 8" by auto
  then show "bit (le32 (byte_of w 0) (byte_of w 1) (byte_of w 2) (byte_of w 3)) n = bit w n"
    using \<open>n < LENGTH(32)\<close> by (simp add: bit_le32 bit_byte_of not_less)
qed

lemma byte_of_le32:
  "byte_of (le32 a b c d) 0 = a" "byte_of (le32 a b c d) 1 = b"
  "byte_of (le32 a b c d) 2 = c" "byte_of (le32 a b c d) 3 = d"
  by (rule bit_word_eqI; simp add: bit_le32 bit_byte_of)+

end
