(* ===== verification/BoxErrors.thy ===== *)
theory BoxErrors
  imports BoxPrelude
begin

text \<open>
  The error codes of the glue: \<^verbatim>\<open>enum box_errors\<close>, generated into every
  \<^verbatim>\<open>bb.c\<close> and \<^verbatim>\<open>bb.h\<close> (\<^verbatim>\<open>examples/armv7m-mpu-hello/bb.c\<close>). The enumerators are
  the constructors of a datatype and \<open>errno\<close> gives their values; a failing call
  returns the negated value, so \<open>fail_with EINVAL\<close> is the code's \<^verbatim>\<open>-EINVAL\<close>.
\<close>

datatype (plugins only: size) box_errors =
    EOK | EGENERAL | ENOENT | ESRCH | EINTR | EIO | ENXIO | E2BIG | ENOEXEC | EBADF
  | ECHILD | EAGAIN | ENOMEM | EACCES | EFAULT | EBUSY | EEXIST | EXDEV | ENODEV
  | ENOTDIR | EISDIR | EINVAL | ENFILE | EMFILE | ENOTTY | ETXTBSY | EFBIG | ENOSPC
  | ESPIPE | EROFS | EMLINK | EPIPE | EDOM | ERANGE | EDEADLK | ENAMETOOLONG | ENOLCK
  | ENOSYS | ENOTEMPTY | ELOOP | ENOMSG | EIDRM | ENOSTR | ENODATA | ETIME | ENOSR
  | ENOLINK | EPROTO | EMULTIHOP | EBADMSG | EOVERFLOW | EILSEQ | ENOTSOCK
  | EDESTADDRREQ | EMSGSIZE | EPROTOTYPE | ENOPROTOOPT | EPROTONOSUPPORT | EOPNOTSUPP
  | EAFNOSUPPORT | EADDRINUSE | EADDRNOTAVAIL | ENETDOWN | ENETUNREACH | ENETRESET
  | ECONNABORTED | ECONNRESET | ENOBUFS | EISCONN | ENOTCONN | ETIMEDOUT | ECONNREFUSED
  | EHOSTUNREACH | EALREADY | EINPROGRESS | ESTALE | EDQUOT | ECANCELED | EOWNERDEAD
  | ENOTRECOVERABLE

primrec errno :: "box_errors \<Rightarrow> int" where
  "errno EOK = 0"
| "errno EGENERAL = 1"
| "errno ENOENT = 2"
| "errno ESRCH = 3"
| "errno EINTR = 4"
| "errno EIO = 5"
| "errno ENXIO = 6"
| "errno E2BIG = 7"
| "errno ENOEXEC = 8"
| "errno EBADF = 9"
| "errno ECHILD = 10"
| "errno EAGAIN = 11"
| "errno ENOMEM = 12"
| "errno EACCES = 13"
| "errno EFAULT = 14"
| "errno EBUSY = 16"
| "errno EEXIST = 17"
| "errno EXDEV = 18"
| "errno ENODEV = 19"
| "errno ENOTDIR = 20"
| "errno EISDIR = 21"
| "errno EINVAL = 22"
| "errno ENFILE = 23"
| "errno EMFILE = 24"
| "errno ENOTTY = 25"
| "errno ETXTBSY = 26"
| "errno EFBIG = 27"
| "errno ENOSPC = 28"
| "errno ESPIPE = 29"
| "errno EROFS = 30"
| "errno EMLINK = 31"
| "errno EPIPE = 32"
| "errno EDOM = 33"
| "errno ERANGE = 34"
| "errno EDEADLK = 35"
| "errno ENAMETOOLONG = 36"
| "errno ENOLCK = 37"
| "errno ENOSYS = 38"
| "errno ENOTEMPTY = 39"
| "errno ELOOP = 40"
| "errno ENOMSG = 42"
| "errno EIDRM = 43"
| "errno ENOSTR = 60"
| "errno ENODATA = 61"
| "errno ETIME = 62"
| "errno ENOSR = 63"
| "errno ENOLINK = 67"
| "errno EPROTO = 71"
| "errno EMULTIHOP = 72"
| "errno EBADMSG = 74"
| "errno EOVERFLOW = 75"
| "errno EILSEQ = 84"
| "errno ENOTSOCK = 88"
| "errno EDESTADDRREQ = 89"
| "errno EMSGSIZE = 90"
| "errno EPROTOTYPE = 91"
| "errno ENOPROTOOPT = 92"
| "errno EPROTONOSUPPORT = 93"
| "errno EOPNOTSUPP = 95"
| "errno EAFNOSUPPORT = 97"
| "errno EADDRINUSE = 98"
| "errno EADDRNOTAVAIL = 99"
| "errno ENETDOWN = 100"
| "errno ENETUNREACH = 101"
| "errno ENETRESET = 102"
| "errno ECONNABORTED = 103"
| "errno ECONNRESET = 104"
| "errno ENOBUFS = 105"
| "errno EISCONN = 106"
| "errno ENOTCONN = 107"
| "errno ETIMEDOUT = 110"
| "errno ECONNREFUSED = 111"
| "errno EHOSTUNREACH = 113"
| "errno EALREADY = 114"
| "errno EINPROGRESS = 115"
| "errno ESTALE = 116"
| "errno EDQUOT = 122"
| "errno ECANCELED = 125"
| "errno EOWNERDEAD = 130"
| "errno ENOTRECOVERABLE = 131"

definition fail_with :: "box_errors \<Rightarrow> int" where
  "fail_with e = - errno e"

definition all_errors :: "box_errors list" where
  "all_errors =
    [EOK, EGENERAL, ENOENT, ESRCH, EINTR, EIO, ENXIO, E2BIG, ENOEXEC, EBADF,
     ECHILD, EAGAIN, ENOMEM, EACCES, EFAULT, EBUSY, EEXIST, EXDEV, ENODEV,
     ENOTDIR, EISDIR, EINVAL, ENFILE, EMFILE, ENOTTY, ETXTBSY, EFBIG, ENOSPC,
     ESPIPE, EROFS, EMLINK, EPIPE, EDOM, ERANGE, EDEADLK, ENAMETOOLONG, ENOLCK,
     ENOSYS, ENOTEMPTY, ELOOP, ENOMSG, EIDRM, ENOSTR, ENODATA, ETIME, ENOSR,
     ENOLINK, EPROTO, EMULTIHOP, EBADMSG, EOVERFLOW, EILSEQ, ENOTSOCK,
     EDESTADDRREQ, EMSGSIZE, EPROTOTYPE, ENOPROTOOPT, EPROTONOSUPPORT, EOPNOTSUPP,
     EAFNOSUPPORT, EADDRINUSE, EADDRNOTAVAIL, ENETDOWN, ENETUNREACH, ENETRESET,
     ECONNABORTED, ECONNRESET, ENOBUFS, EISCONN, ENOTCONN, ETIMEDOUT,
     ECONNREFUSED, EHOSTUNREACH, EALREADY, EINPROGRESS, ESTALE, EDQUOT, ECANCELED,
     EOWNERDEAD, ENOTRECOVERABLE]"

lemma all_errors_complete: "e \<in> set all_errors"
  by (cases e) (simp_all add: all_errors_def)

lemma distinct_errno: "distinct (map errno all_errors)"
  by (simp add: all_errors_def)

lemma errno_nonneg: "0 \<le> errno e"
  by (cases e) simp_all

lemma errno_eq_0: "errno e = 0 \<longleftrightarrow> e = EOK"
  by (cases e) simp_all

lemma errno_less: "errno e < 132"
  by (cases e) simp_all

end
