(* ===== verification/GlzCore.thy ===== *)
theory GlzCore
  imports BoxErrors
begin

text \<open>
  The GLZ decompression loop. The C sources hold six copies of one decoder that differ in
  how they fetch compressed bytes and where they put the output (an array, a write
  callback, read and seek callbacks, a block device, a file). The loop is translated once,
  over the three accesses it makes; each copy is an instance in its own theory.

  \<^item> \<open>rd1 a s\<close> reads the byte at byte address \<open>a\<close> of the compressed stream, \<open>rd2 a s\<close>
    the two bytes at \<open>a\<close> and \<open>a + 1\<close> (the code table), \<open>emit b s\<close> outputs a byte. Each
    threads the state \<open>s\<close> of its side and either succeeds or stops the decoder with a
    \<open>glz_stop\<close>: the value the C function returns, or an access outside of an array.
  \<^item> The loops of the source that have no bound of their own (\<^verbatim>\<open>while (true)\<close>,
    \<^verbatim>\<open>while (size > 0)\<close>) are \<open>partial_function\<close>s: \<open>None\<close> is a loop that never returns.
\<close>

datatype glz_stop = GlzRet int | GlzOob

type_synonym 's glz_rd1 = "u32 \<Rightarrow> 's \<Rightarrow> (glz_stop + u8) \<times> 's"
type_synonym 's glz_rd2 = "u32 \<Rightarrow> 's \<Rightarrow> (glz_stop + u8 \<times> u8) \<times> 's"
type_synonym 's glz_emit = "u8 \<Rightarrow> 's \<Rightarrow> (glz_stop + unit) \<times> 's"

definition GLZ_M :: nat where
  "GLZ_M = 4"

subsection \<open>One bit, a run of bits\<close>

definition glz_bitof :: "u8 \<Rightarrow> u32 \<Rightarrow> u32" where
  "glz_bitof x off = 1 AND drop_bit (unat (7 - off mod 8)) (ucast x)"

fun glz_kbits ::
  "'s glz_rd1 \<Rightarrow> nat \<Rightarrow> u32 \<Rightarrow> u32 \<Rightarrow> 's \<Rightarrow> (glz_stop + u32 \<times> u32) \<times> 's" where
  "glz_kbits rd1 0 off n s = (Inr (off, n), s)"
| "glz_kbits rd1 (Suc i) off n s =
     (case rd1 (off div 8) s of
        (Inl e, s') \<Rightarrow> (Inl e, s')
      | (Inr x, s') \<Rightarrow> glz_kbits rd1 i (off + 1) (push_bit 1 n OR glz_bitof x off) s')"

subsection \<open>Rice code and table entry\<close>

partial_function (option) glz_unary ::
  "'s glz_rd1 \<Rightarrow> u32 \<Rightarrow> u32 \<Rightarrow> 's \<Rightarrow> ((glz_stop + u32 \<times> u32) \<times> 's) option" where
  "glz_unary rd1 off rice s =
     (case rd1 (off div 8) s of
        (Inl e, s') \<Rightarrow> Some (Inl e, s')
      | (Inr x, s') \<Rightarrow>
          if glz_bitof x off = 0 then Some (Inr (off + 1, rice), s')
          else glz_unary rd1 (off + 1) (rice + 1) s')"

definition glz_entry :: "u32 \<Rightarrow> u8 \<times> u8 \<Rightarrow> u32" where
  "glz_entry rice x =
     0x1ff AND drop_bit (unat (7 - (9 * rice) mod 8)) (push_bit 8 (ucast (fst x)) OR ucast (snd x))"

definition glz_symbol ::
  "'s glz_rd1 \<Rightarrow> 's glz_rd2 \<Rightarrow> u8 \<Rightarrow> u32 \<Rightarrow> 's \<Rightarrow> ((glz_stop + u32 \<times> u32) \<times> 's) option" where
  "glz_symbol rd1 rd2 k off s =
     Option.bind (glz_unary rd1 off 0 s) (\<lambda>(r, s1). case r of
       Inl e \<Rightarrow> Some (Inl e, s1)
     | Inr (off1, u) \<Rightarrow>
         (case glz_kbits rd1 (unat k) off1 u s1 of
            (Inl e, s2) \<Rightarrow> Some (Inl e, s2)
          | (Inr (off2, rice), s2) \<Rightarrow>
              (case rd2 ((9 * rice) div 8) s2 of
                 (Inl e, s3) \<Rightarrow> Some (Inl e, s3)
               | (Inr x, s3) \<Rightarrow> Some (Inr (off2, glz_entry rice x), s3))))"

subsection \<open>Offset of an indirect reference\<close>

partial_function (option) glz_refoff ::
  "'s glz_rd1 \<Rightarrow> u32 \<Rightarrow> u32 \<Rightarrow> 's \<Rightarrow> ((glz_stop + u32 \<times> u32) \<times> 's) option" where
  "glz_refoff rd1 off noff s =
     (case glz_kbits rd1 (GLZ_M + 1) off 0 s of
        (Inl e, s') \<Rightarrow> Some (Inl e, s')
      | (Inr (off', n), s') \<Rightarrow>
          let noff' = push_bit GLZ_M noff + 1 + (n AND (push_bit GLZ_M 1 - 1)) in
          if n < push_bit GLZ_M 1 then Some (Inr (off', noff' - 1), s')
          else glz_refoff rd1 off' noff' s')"

subsection \<open>The main loop\<close>

text \<open>The loop variables: the read offset, the bytes left to produce, and the one saved
  frame (the ``stack'' of the source).\<close>

record glz_frame =
  gf_off :: u32
  gf_size :: u32
  gf_poff :: u32
  gf_psize :: u32

definition glz_start :: "u32 \<Rightarrow> u32 \<Rightarrow> glz_frame" where
  "glz_start off sz = \<lparr>gf_off = off, gf_size = sz, gf_poff = 0, gf_psize = 0\<rparr>"

definition glz_pop :: "glz_frame \<Rightarrow> glz_frame" where
  "glz_pop g =
     (if gf_size g = 0
      then \<lparr>gf_off = gf_poff g, gf_size = gf_psize g, gf_poff = 0, gf_psize = 0\<rparr>
      else g)"

definition glz_enter :: "glz_frame \<Rightarrow> u32 \<Rightarrow> u32 \<Rightarrow> u32 \<Rightarrow> glz_frame" where
  "glz_enter g off noff nsize =
     (if nsize \<ge> gf_size g
      then g\<lparr>gf_off := off + noff\<rparr>
      else \<lparr>gf_off = off + noff, gf_size = nsize, gf_poff = off, gf_psize = gf_size g - nsize\<rparr>)"

definition glz_step ::
  "'s glz_rd1 \<Rightarrow> 's glz_rd2 \<Rightarrow> 's glz_emit \<Rightarrow> u8 \<Rightarrow> glz_frame \<Rightarrow> 's
     \<Rightarrow> ((glz_stop + glz_frame) \<times> 's) option" where
  "glz_step rd1 rd2 emit k g s =
     Option.bind (glz_symbol rd1 rd2 k (gf_off g) s) (\<lambda>(r, s1). case r of
       Inl e \<Rightarrow> Some (Inl e, s1)
     | Inr (off, rice) \<Rightarrow>
         if rice < 0x100 then
           (case emit (ucast rice) s1 of
              (Inl e, s2) \<Rightarrow> Some (Inl e, s2)
            | (Inr _, s2) \<Rightarrow>
                Some (Inr (glz_pop (g\<lparr>gf_off := off, gf_size := gf_size g - 1\<rparr>)), s2))
         else
           Option.bind (glz_refoff rd1 off 0 s1) (\<lambda>(r', s2). case r' of
             Inl e \<Rightarrow> Some (Inl e, s2)
           | Inr (off', noff) \<Rightarrow>
               Some (Inr (glz_pop (glz_enter g off' noff ((rice AND 0xff) + 2))), s2)))"

partial_function (option) glz_run ::
  "(glz_frame \<Rightarrow> 's \<Rightarrow> ((glz_stop + glz_frame) \<times> 's) option)
     \<Rightarrow> glz_frame \<Rightarrow> 's \<Rightarrow> (glz_stop \<times> 's) option" where
  "glz_run step g s =
     (if gf_size g = 0 then Some (GlzRet 0, s)
      else Option.bind (step g s) (\<lambda>(r, s'). case r of
             Inl e \<Rightarrow> Some (e, s')
           | Inr g' \<Rightarrow> glz_run step g' s'))"

definition glz_core ::
  "'s glz_rd1 \<Rightarrow> 's glz_rd2 \<Rightarrow> 's glz_emit \<Rightarrow> u8 \<Rightarrow> u32 \<Rightarrow> u32 \<Rightarrow> 's \<Rightarrow> (glz_stop \<times> 's) option"
where
  "glz_core rd1 rd2 emit k off sz s = glz_run (glz_step rd1 rd2 emit k) (glz_start off sz) s"

declare glz_unary.simps [code] glz_refoff.simps [code] glz_run.simps [code]

text \<open>An iteration that leaves everything as it was is repeated forever.\<close>

lemma glz_run_loops:
  assumes "step g s = Some (Inr g, s)" and "gf_size g \<noteq> 0"
  shows "glz_run step g s = None"
proof (rule ccontr)
  let ?P = "\<lambda>st h t z. \<not> (st = step \<and> h = g \<and> t = s)"
  assume "glz_run step g s \<noteq> None"
  then obtain z where run: "glz_run step g s = Some z" by auto
  have "?P step g s z"
  proof (rule glz_run.raw_induct [where P = ?P, OF _ run])
    fix f st h t z
    assume IH: "\<And>st h t z. f st h t = Some z \<Longrightarrow> ?P st h t z"
      and eq: "(if gf_size h = 0 then Some (GlzRet 0, t)
        else Option.bind (st h t) (\<lambda>(r, s'). case r of Inl e \<Rightarrow> Some (e, s')
          | Inr g' \<Rightarrow> f st g' s')) = Some z"
    show "?P st h t z"
    proof
      assume "st = step \<and> h = g \<and> t = s"
      then have "f step g s = Some z" using eq assms by simp
      then show False using IH by blast
    qed
  qed
  then show False by simp
qed

end
