(* ===== verification/GlzRefine.thy ===== *)
theory GlzRefine
  imports GlzSpec
begin

text \<open>
  The decoder over any byte source that serves a blob computes the blob's meaning. The
  contract of such a source is the locale \<open>glz_source\<close>; every copy of the decoder whose
  accesses obey it inherits \<open>core_refines\<close>.
\<close>

subsection \<open>Words against bit strings\<close>

lemma bit_bits_at: "bit (bits_at blob p n) i \<longleftrightarrow> i < n \<and> bit_at blob (p + n - 1 - i) = 1"
proof (induction n arbitrary: i)
  case (Suc n)
  show ?case
  proof (cases i)
    case 0
    then show ?thesis
      using bit_at_le_1 [of blob "p + n"] by (auto simp: bit_0 le_Suc_eq)
  next
    case (Suc j)
    have "(2 * bits_at blob p n + bit_at blob (p + n)) div 2 = bits_at blob p n"
      using bit_at_le_1 [of blob "p + n"] by linarith
    then show ?thesis
      using Suc.IH [of j] Suc by (simp add: bit_Suc)
  qed
qed simp

lemma unat_glz_bitof:
  "unat (glz_bitof x off) = of_bool (bit x (7 - unat off mod 8))"
proof -
  have "unat (7 - off mod 8) = 7 - unat off mod 8"
    by (subst unat_sub) (auto simp: word_le_nat_alt unat_mod)
  moreover have "7 - unat off mod 8 < 32" by simp
  ultimately show ?thesis
    by (simp add: glz_bitof_def one_and_eq mod_2_eq_odd bit_ucast_iff flip: bit_iff_odd_drop_bit)
qed

lemma bitof_bit_at:
  "unat (glz_bitof (blob ! unat (off div 8)) off) = bit_at blob (unat off)"
  by (simp add: unat_glz_bitof bit_at_def unat_div)

lemma bit_at_byte: "m < 8 \<Longrightarrow> bit_at blob (8 * q + m) = of_bool (bit (blob ! q) (7 - m))"
  by (simp add: bit_at_def)

lemma unat_glz_entry:
  assumes r: "9 * unat r < 2 ^ 32"
  shows "unat (glz_entry r (blob ! (9 * unat r div 8), blob ! (9 * unat r div 8 + 1)))
     = bits_at blob (9 * unat r) 9"
proof -
  define j where "j = 9 * unat r mod 8"
  have j: "j < 8" by (simp add: j_def)
  have 9: "unat (9 * r) = 9 * unat r"
    using r by (subst unat_mult_nat) auto
  have sh: "unat (7 - 9 * r mod 8) = 7 - j"
    by (subst unat_sub) (auto simp: word_le_nat_alt unat_mod 9 j_def)
  have m: "bit (0x1ff :: int) i \<longleftrightarrow> i < 9" for i
  proof -
    have m: "(0x1ff :: int) = mask 9" by (simp add: mask_eq_exp_minus_1)
    show ?thesis unfolding m by (auto simp: bit_mask_iff)
  qed
  have bits: "bit (glz_entry r (x, y)) i \<longleftrightarrow>
      i < 9 \<and> (if j < i then bit x (i - j - 1) else bit y (7 - (j - i)))" for x y i
  proof (cases "j < i")
    case True
    then have "7 - j + i = 8 + (i - j - 1)" using j by simp
    with True j show ?thesis
      by (auto simp: glz_entry_def bit_and_iff bit_or_iff bit_drop_bit_eq bit_push_bit_iff
          bit_ucast_iff sh m add.commute dest: bit_imp_le_length)
  next
    case False
    then have "7 - j + i = 7 - (j - i)" "7 - (j - i) < 8" using j by simp_all
    with False show ?thesis
      by (auto simp: glz_entry_def bit_and_iff bit_or_iff bit_drop_bit_eq bit_push_bit_iff
          bit_ucast_iff sh m add.commute)
  qed
  define q where "q = 9 * unat r div 8"
  have q: "9 * unat r = 8 * q + j" by (simp add: q_def j_def)
  have pos: "bit_at blob (9 * unat r + 9 - 1 - i) = 1 \<longleftrightarrow>
      (if j < i then bit (blob ! q) (i - j - 1) else bit (blob ! (q + 1)) (7 - (j - i)))"
    if "i < 9" for i
  proof (cases "j < i")
    case True
    then have "9 * unat r + 9 - 1 - i = 8 * q + (8 + j - i)" "8 + j - i < 8"
      "7 - (8 + j - i) = i - j - 1" using that q by simp_all
    with True show ?thesis by (simp only: bit_at_byte) simp
  next
    case False
    then have "9 * unat r + 9 - 1 - i = 8 * (q + 1) + (j - i)" "j - i < 8"
      using that q j by simp_all
    with False show ?thesis by (simp only: bit_at_byte) simp
  qed
  show ?thesis
  proof (rule bit_eqI)
    fix i
    show "bit (unat (glz_entry r (blob ! (9 * unat r div 8), blob ! (9 * unat r div 8 + 1)))) i
      = bit (bits_at blob (9 * unat r) 9) i"
      unfolding bit_unsigned_iff bits bit_bits_at q_def [symmetric]
      by (simp only: pos possible_bit_nat simp_thms cong: conj_cong)
  qed
qed

lemma ones_at_0D: "ones_at blob p = Some 0 \<Longrightarrow> p div 8 < length blob \<and> bit_at blob p = 0"
  by (auto simp: ones_at.simps [of blob p] split: if_splits)

lemma ones_at_SucD:
  "ones_at blob p = Some (Suc u) \<Longrightarrow>
     p div 8 < length blob \<and> bit_at blob p \<noteq> 0 \<and> ones_at blob (p + 1) = Some u"
  by (auto simp: ones_at.simps [of blob p] split: if_splits)

lemma refoff_at_ge: "refoff_at blob p a = Some (p', noff) \<Longrightarrow> a \<le> noff"
proof (induction blob p a rule: refoff_at.induct)
  case (1 blob p a)
  then show ?case
    by (fastforce simp: refoff_at.simps [of blob p a] Let_def split: if_splits)
qed

lemma symbol_at_less: "symbol_at blob k p = Some x \<Longrightarrow> p < 8 * length blob"
  by (cases "p div 8 < length blob") (auto simp: symbol_at_def ones_at.simps [of blob p])

lemma glz_sem_less: "glz_sem blob k d off n bs \<Longrightarrow> 0 < n \<Longrightarrow> off < 8 * length blob"
  by (cases rule: glz_sem.cases) (auto dest: symbol_at_less)

lemma glz_sem_mono: "glz_sem blob k d off n bs \<Longrightarrow> d \<le> d' \<Longrightarrow> glz_sem blob k d' off n bs"
proof (induction arbitrary: d' rule: glz_sem.induct)
  case (sem_nested off off1 e off2 noff n d bs1 bs2)
  then obtain d'' where "d' = Suc d''" "d \<le> d''" by (cases d') auto
  with sem_nested show ?case by (auto intro: glz_sem.sem_nested)
qed (auto intro: glz_sem.intros)

lemma refoff_at_pos: "refoff_at blob p a = Some (p', noff) \<Longrightarrow> 0 < p'"
proof (induction blob p a rule: refoff_at.induct)
  case (1 blob p a)
  then show ?case
    by (fastforce simp: refoff_at.simps [of blob p a] Let_def split: if_splits)
qed

subsection \<open>Byte sources\<close>

text \<open>The blobs considered are below 512 MiB, so that a bit offset into them fits 32 bits.\<close>

definition glz_small :: "u8 list \<Rightarrow> bool" where
  "glz_small blob \<longleftrightarrow> 8 * length blob < 2 ^ 32"

locale glz_source =
  fixes rd1 :: "'s glz_rd1" and rd2 :: "'s glz_rd2" and emit :: "'s glz_emit"
    and blob :: "u8 list" and cap :: nat
    and good :: "'s \<Rightarrow> bool" and out :: "'s \<Rightarrow> u8 list"
  assumes rd1_byte: "glz_small blob \<Longrightarrow> good s \<Longrightarrow> unat a < length blob \<Longrightarrow>
      \<exists>s'. rd1 a s = (Inr (blob ! unat a), s') \<and> good s' \<and> out s' = out s"
    and rd2_bytes: "glz_small blob \<Longrightarrow> good s \<Longrightarrow> unat a + 1 < length blob \<Longrightarrow>
      \<exists>s'. rd2 a s = (Inr (blob ! unat a, blob ! (unat a + 1)), s') \<and> good s' \<and> out s' = out s"
    and emit_byte: "good s \<Longrightarrow> length (out s) < cap \<Longrightarrow>
      \<exists>s'. emit b s = (Inr (), s') \<and> good s' \<and> out s' = out s @ [b]"
begin

text \<open>Every lemma of this block says that one routine succeeds, with the value the
  specification gives, and leaves a good state with the same output.\<close>

lemma kbits_ok:
  assumes "glz_small blob"
  shows "good s \<Longrightarrow> n = 0 \<or> (unat off + n - 1) div 8 < length blob \<Longrightarrow>
    unat acc * 2 ^ n + bits_at blob (unat off) n < 2 ^ 32 \<Longrightarrow>
    \<exists>off' acc' s'. glz_kbits rd1 n off acc s = (Inr (off', acc'), s') \<and>
      unat off' = unat off + n \<and> unat acc' = unat acc * 2 ^ n + bits_at blob (unat off) n \<and>
      good s' \<and> out s' = out s"
proof (induction n arbitrary: off acc s)
  case 0
  then show ?case by auto
next
  case (Suc n)
  let ?p = "unat off" and ?b = "glz_bitof (blob ! unat (off div 8)) off"
  have in_blob: "(?p + n) div 8 < length blob" using Suc.prems(2) by simp
  have "unat (off div 8) < length blob"
    using in_blob by (simp add: unat_div)
  then obtain s1 where s1: "rd1 (off div 8) s = (Inr (blob ! unat (off div 8)), s1)"
      "good s1" "out s1 = out s"
    using rd1_byte [OF assms Suc.prems(1)] by blast
  have "?p + n < 8 * length blob" using in_blob by linarith
  then have step: "unat (off + 1) = ?p + 1"
    using assms unfolding glz_small_def by (subst unat_add_nat) auto
  have b: "unat ?b = bit_at blob ?p" by (rule bitof_bit_at)
  have total: "2 ^ n * (2 * unat acc + bit_at blob ?p) + bits_at blob (Suc ?p) n < 2 ^ 32"
    using Suc.prems(3) unfolding bits_at_Suc_left by (simp add: algebra_simps)
  have "2 * unat acc + bit_at blob ?p \<le> 2 ^ n * (2 * unat acc + bit_at blob ?p)" by simp
  then have "2 * unat acc < 2 ^ 32" using total by linarith
  then have "2 * unat acc < 4294967296" by simp
  then have "2 * unat acc + 1 < 2 ^ 32" by simp
  then have acc: "unat (push_bit 1 acc OR ?b) = 2 * unat acc + bit_at blob ?p"
    using bit_at_le_1 [of blob ?p] by (subst unat_shift1_or) (auto simp: b)
  have "(unat (off + 1) + n - 1) div 8 < length blob" using in_blob step by simp
  moreover have "unat (push_bit 1 acc OR ?b) * 2 ^ n + bits_at blob (unat (off + 1)) n < 2 ^ 32"
    using total unfolding acc step by (simp add: mult.commute)
  ultimately obtain off' acc' s' where
    "glz_kbits rd1 n (off + 1) (push_bit 1 acc OR ?b) s1 = (Inr (off', acc'), s')"
    "unat off' = unat (off + 1) + n"
    "unat acc' = unat (push_bit 1 acc OR ?b) * 2 ^ n + bits_at blob (unat (off + 1)) n"
    "good s'" "out s' = out s1"
    using Suc.IH [OF s1(2)] by blast
  then show ?case
    using s1 unfolding bits_at_Suc_left acc step
    by (intro exI [of _ off'] exI [of _ acc'] exI [of _ s']) (simp add: algebra_simps)
qed

lemma unary_ok:
  assumes "glz_small blob"
  shows "ones_at blob p = Some u \<Longrightarrow> good s \<Longrightarrow> unat off = p \<Longrightarrow> unat acc \<le> p \<Longrightarrow>
    \<exists>off' acc' s'. glz_unary rd1 off acc s = Some (Inr (off', acc'), s') \<and>
      unat off' = p + u + 1 \<and> unat acc' = unat acc + u \<and> good s' \<and> out s' = out s"
proof (induction u arbitrary: p off acc s)
  case (0 p)
  then have p: "p div 8 < length blob" "bit_at blob p = 0"
    by (auto dest: ones_at_0D)
  obtain s1 where s1: "rd1 (off div 8) s = (Inr (blob ! unat (off div 8)), s1)"
      "good s1" "out s1 = out s"
    using rd1_byte [OF assms \<open>good s\<close>, of "off div 8"] p 0 by (auto simp: unat_div)
  have "glz_bitof (blob ! unat (off div 8)) off = 0"
    using bitof_bit_at [of blob off] p 0 by (simp add: unat_eq_0)
  moreover have "unat (off + 1) = p + 1"
    using assms p 0 unfolding glz_small_def by (subst unat_add_nat) auto
  ultimately show ?case
    using s1 by (simp add: glz_unary.simps [of rd1 off])
next
  case (Suc u p)
  then have p: "p div 8 < length blob" "bit_at blob p \<noteq> 0" "ones_at blob (p + 1) = Some u"
    by (auto dest: ones_at_SucD)
  obtain s1 where s1: "rd1 (off div 8) s = (Inr (blob ! unat (off div 8)), s1)"
      "good s1" "out s1 = out s"
    using rd1_byte [OF assms \<open>good s\<close>, of "off div 8"] p Suc by (auto simp: unat_div)
  have nz: "glz_bitof (blob ! unat (off div 8)) off \<noteq> 0"
    using bitof_bit_at [of blob off] p Suc.prems by auto
  have small: "p + 1 < 2 ^ 32" using assms p unfolding glz_small_def by linarith
  then have "unat (off + 1) = p + 1" "unat (acc + 1) = unat acc + 1"
    using Suc.prems by (subst unat_add_nat; simp)+
  then show ?case
    using Suc.IH [of "p + 1" s1 "off + 1" "acc + 1"] Suc.prems p s1 nz
    by (auto simp: glz_unary.simps [of rd1 off])
qed

lemma symbol_ok:
  assumes small: "glz_small blob" and "good s"
    and sym: "symbol_at blob (unat k) (unat off) = Some (p, e)"
  shows "\<exists>off' r s'. glz_symbol rd1 rd2 k off s = Some (Inr (off', r), s') \<and>
    unat off' = p \<and> unat r = e \<and> good s' \<and> out s' = out s"
proof -
  from sym obtain u where u: "ones_at blob (unat off) = Some u"
    by (auto simp: symbol_at_def split: option.splits)
  define q where "q = unat off + u + 1"
  define r where "r = u * 2 ^ unat k + bits_at blob q (unat k)"
  have inb: "(q + unat k - 1) div 8 < length blob" "9 * r div 8 + 1 < length blob"
    and p: "p = q + unat k" and e: "e = bits_at blob (9 * r) 9"
    using sym u by (auto simp: symbol_at_def q_def r_def Let_def split: if_splits)
  from unary_ok [OF small u \<open>good s\<close> refl, of 0] obtain off1 u' s1 where
    s1: "glz_unary rd1 off 0 s = Some (Inr (off1, u'), s1)" "unat off1 = q" "unat u' = u"
      "good s1" "out s1 = out s"
    by (auto simp: q_def)
  have r9: "9 * r < 2 ^ 32" using inb(2) small unfolding glz_small_def by linarith
  then have "unat u' * 2 ^ unat k + bits_at blob (unat off1) (unat k) < 2 ^ 32"
    by (simp add: s1 r_def)
  with kbits_ok [OF small \<open>good s1\<close>, of "unat k" off1 u'] inb(1) s1 obtain off2 r' s2 where
    s2: "glz_kbits rd1 (unat k) off1 u' s1 = (Inr (off2, r'), s2)" "unat off2 = p" "unat r' = r"
      "good s2" "out s2 = out s"
    by (auto simp: p r_def)
  have a: "unat (9 * r' div 8) = 9 * r div 8"
    using r9 by (subst unat_div, subst unat_mult_nat) (auto simp: s2)
  from rd2_bytes [OF small \<open>good s2\<close>, of "9 * r' div 8"] inb(2) obtain s3 where
    s3: "rd2 (9 * r' div 8) s2 = (Inr (blob ! (9 * r div 8), blob ! (9 * r div 8 + 1)), s3)"
      "good s3" "out s3 = out s"
    by (auto simp: a s2)
  have "unat (glz_entry r' (blob ! (9 * r div 8), blob ! (9 * r div 8 + 1))) = e"
    using unat_glz_entry [of r' blob] r9 by (simp add: s2 e)
  with s1 s2 s3 show ?thesis by (simp add: glz_symbol_def)
qed

lemma refoff_ok:
  assumes small: "glz_small blob"
  shows "refoff_at blob p a = Some (p', noff) \<Longrightarrow> good s \<Longrightarrow> unat off = p \<Longrightarrow>
    unat acc = a \<Longrightarrow> noff < 2 ^ 32 - 1 \<Longrightarrow>
    \<exists>off' noff' s'. glz_refoff rd1 off acc s = Some (Inr (off', noff'), s') \<and>
      unat off' = p' \<and> unat noff' = noff \<and> good s' \<and> out s' = out s"
proof (induction "8 * length blob - p" arbitrary: p a off acc s rule: less_induct)
  case less
  define n where "n = bits_at blob p 5"
  define a' where "a' = 16 * a + 1 + n mod 16"
  have p: "(p + 4) div 8 < length blob"
    and eq: "(if n < 16 then Some (p + 5, a' - 1) else refoff_at blob (p + 5) a') = Some (p', noff)"
    using less.prems(1)
    by (auto simp: refoff_at.simps [of blob p a] n_def a'_def Let_def split: if_splits)
  have n32: "n < 32" using bits_at_less [of blob p 5] by (simp add: n_def)
  from kbits_ok [OF small \<open>good s\<close>, of "GLZ_M + 1" off 0] p n32 less.prems(3) obtain off1 nw s1
    where s1: "glz_kbits rd1 (GLZ_M + 1) off 0 s = (Inr (off1, nw), s1)" "unat off1 = p + 5"
      "unat nw = n" "good s1" "out s1 = out s"
    by (auto simp: GLZ_M_def n_def add.commute)
  have a'_le: "a' \<le> noff + 1"
    using eq refoff_at_ge [of blob "p + 5" a' p' noff] by (auto split: if_splits)
  have acc': "unat (push_bit GLZ_M acc + 1 + (nw AND (push_bit GLZ_M 1 - 1))) = a'"
    using a'_le less.prems(4,5) unfolding a'_def
    by (simp add: GLZ_M_def push_bit_eq_mult unat_and_15 unat_add_nat unat_mult_nat s1)
  have lt: "nw < push_bit GLZ_M 1 \<longleftrightarrow> n < 16"
    by (simp add: word_less_nat_alt GLZ_M_def s1)
  show ?case
  proof (cases "n < 16")
    case True
    then have "unat (push_bit GLZ_M acc + 1 + (nw AND (push_bit GLZ_M 1 - 1)) - 1) = noff"
      using eq acc' by (subst unat_sub) (auto simp: word_le_nat_alt a'_def)
    then show ?thesis
      using True eq lt s1 by (simp add: glz_refoff.simps [of rd1 off] Let_def)
  next
    case False
    then show ?thesis
      using less.hyps [of "p + 5" a' s1 off1, OF _ _ \<open>good s1\<close> s1(2) acc'] less.prems(5) eq lt s1 p
      by (simp add: glz_refoff.simps [of rd1 off] Let_def)
  qed
qed

lemma step_literal:
  assumes "glz_small blob" and "good s" and "length (out s) < cap"
    and "symbol_at blob (unat k) (unat (gf_off g)) = Some (p, e)" and "e < 256"
  shows "\<exists>off' s'. glz_step rd1 rd2 emit k g s =
      Some (Inr (glz_pop (g\<lparr>gf_off := off', gf_size := gf_size g - 1\<rparr>)), s') \<and>
    unat off' = p \<and> good s' \<and> out s' = out s @ [word_of_nat e]"
proof -
  obtain off' r s1 where s1: "glz_symbol rd1 rd2 k (gf_off g) s = Some (Inr (off', r), s1)"
      "unat off' = p" "unat r = e" "good s1" "out s1 = out s"
    using symbol_ok [OF assms(1,2,4)] by blast
  obtain s2 where s2: "emit (ucast r) s1 = (Inr (), s2)" "good s2" "out s2 = out s @ [ucast r]"
    using emit_byte [OF \<open>good s1\<close>, of "ucast r"] assms(3) s1 by auto
  have "r < 0x100" using s1 \<open>e < 256\<close> by (simp add: word_less_nat_alt)
  moreover have "ucast r = (word_of_nat e :: u8)" by (simp flip: s1(3))
  ultimately show ?thesis using s1 s2 by (auto simp: glz_step_def)
qed

lemma step_ref:
  assumes "glz_small blob" and "good s"
    and sym: "symbol_at blob (unat k) (unat (gf_off g)) = Some (p, e)" and "256 \<le> e"
    and ref: "refoff_at blob p 0 = Some (p', noff)" and "noff < 2 ^ 32 - 1"
  shows "\<exists>off' noff' m s'. glz_step rd1 rd2 emit k g s =
      Some (Inr (glz_pop (glz_enter g off' noff' m)), s') \<and>
    unat off' = p' \<and> unat noff' = noff \<and> unat m = e mod 256 + 2 \<and> good s' \<and> out s' = out s"
proof -
  obtain off1 r s1 where s1: "glz_symbol rd1 rd2 k (gf_off g) s = Some (Inr (off1, r), s1)"
      "unat off1 = p" "unat r = e" "good s1" "out s1 = out s"
    using symbol_ok [OF assms(1,2) sym] by blast
  obtain off2 noff' s2 where s2: "glz_refoff rd1 off1 0 s1 = Some (Inr (off2, noff'), s2)"
      "unat off2 = p'" "unat noff' = noff" "good s2" "out s2 = out s"
    using refoff_ok [OF assms(1) ref \<open>good s1\<close> s1(2), of 0] assms(6) s1 by auto
  have "\<not> r < 0x100" using s1 \<open>256 \<le> e\<close> by (simp add: word_less_nat_alt)
  moreover have "unat ((r AND 0xff) + 2) = e mod 256 + 2"
    using mod_less_divisor [of 256 e] by (subst unat_add_nat) (auto simp: unat_and_255 s1)
  ultimately show ?thesis using s1 s2 by (auto simp: glz_step_def)
qed

lemma run_step:
  assumes "glz_step rd1 rd2 emit k g s = Some (Inr g', s')" and "0 < unat (gf_size g)"
  shows "glz_run (glz_step rd1 rd2 emit k) g s = glz_run (glz_step rd1 rd2 emit k) g' s'"
  using assms by (auto simp: glz_run.simps [of _ g])

text \<open>A frame with no pending reference of its own is decoded in place; the loop goes on
  with the saved frame.\<close>

lemma run_level0:
  assumes small: "glz_small blob"
  shows "glz_sem blob (unat k) d off n bs \<Longrightarrow> d = 0 \<Longrightarrow> 0 < n \<Longrightarrow> good s \<Longrightarrow>
    unat (gf_off g) = off \<Longrightarrow> unat (gf_size g) = n \<Longrightarrow> length (out s) + n \<le> cap \<Longrightarrow>
    \<exists>s'. good s' \<and> out s' = out s @ bs \<and>
      glz_run (glz_step rd1 rd2 emit k) g s = glz_run (glz_step rd1 rd2 emit k)
        \<lparr>gf_off = gf_poff g, gf_size = gf_psize g, gf_poff = 0, gf_psize = 0\<rparr> s'"
proof (induction arbitrary: g s rule: glz_sem.induct)
  case (sem_literal off off' e d n bs)
  then obtain w s1 where s1: "glz_step rd1 rd2 emit k g s =
      Some (Inr (glz_pop (g\<lparr>gf_off := w, gf_size := gf_size g - 1\<rparr>)), s1)"
      "unat w = off'" "good s1" "out s1 = out s @ [word_of_nat e]"
    using step_literal [OF small \<open>good s\<close>, of k g off' e] by auto
  have sz: "unat (gf_size g - 1) = n"
    using sem_literal.prems by (subst unat_sub) (auto simp: word_le_nat_alt)
  let ?g = "g\<lparr>gf_off := w, gf_size := gf_size g - 1\<rparr>"
  show ?case
  proof (cases "n = 0")
    case True
    then have "bs = []" using sem_literal.hyps(3) by (auto elim: glz_sem_0E)
    with True show ?thesis
      using run_step [OF s1(1)] s1 sz sem_literal.prems by (auto simp: glz_pop_def unat_eq_0)
  next
    case False
    then have "glz_pop ?g = ?g" using sz by (auto simp: glz_pop_def)
    with False show ?thesis
      using run_step [OF s1(1)] s1 sz sem_literal.prems sem_literal.IH [of s1 ?g] by auto
  qed
next
  case (sem_tail off off1 e off2 noff n d bs)
  have "off2 + noff < 2 ^ 32"
    using glz_sem_less [OF sem_tail.hyps(6,4)] small unfolding glz_small_def by linarith
  moreover have "0 < off2"
    using sem_tail.hyps(3) refoff_at_pos by blast
  ultimately obtain w nw m s1 where s1: "glz_step rd1 rd2 emit k g s =
      Some (Inr (glz_pop (glz_enter g w nw m)), s1)"
      "unat w = off2" "unat nw = noff" "unat m = e mod 256 + 2" "good s1" "out s1 = out s"
    using step_ref [OF small \<open>good s\<close>, of k g off1 e off2 noff] sem_tail by auto
  then have "glz_pop (glz_enter g w nw m) = g\<lparr>gf_off := w + nw\<rparr>"
    using sem_tail by (auto simp: glz_enter_def glz_pop_def word_le_nat_alt)
  moreover have "unat (w + nw) = off2 + noff"
    using \<open>off2 + noff < 2 ^ 32\<close> s1 by (subst unat_add_nat) auto
  ultimately show ?case
    using run_step [OF s1(1)] s1 sem_tail.prems sem_tail.IH [of s1 "g\<lparr>gf_off := w + nw\<rparr>"] by auto
qed auto

text \<open>With no saved frame, one level of pending references is decoded to the end.\<close>

lemma run_level1:
  assumes small: "glz_small blob"
  shows "glz_sem blob (unat k) d off n bs \<Longrightarrow> d = 1 \<Longrightarrow> good s \<Longrightarrow> gf_psize g = 0 \<Longrightarrow>
    0 < n \<Longrightarrow> unat (gf_off g) = off \<Longrightarrow> unat (gf_size g) = n \<Longrightarrow> length (out s) + n \<le> cap \<Longrightarrow>
    \<exists>s'. good s' \<and> out s' = out s @ bs \<and>
      glz_run (glz_step rd1 rd2 emit k) g s = Some (GlzRet 0, s')"
proof (induction arbitrary: g s rule: glz_sem.induct)
  case (sem_literal off off' e d n bs)
  then obtain w s1 where s1: "glz_step rd1 rd2 emit k g s =
      Some (Inr (glz_pop (g\<lparr>gf_off := w, gf_size := gf_size g - 1\<rparr>)), s1)"
      "unat w = off'" "good s1" "out s1 = out s @ [word_of_nat e]"
    using step_literal [OF small \<open>good s\<close>, of k g off' e] by auto
  have sz: "unat (gf_size g - 1) = n"
    using sem_literal.prems by (subst unat_sub) (auto simp: word_le_nat_alt)
  let ?g = "g\<lparr>gf_off := w, gf_size := gf_size g - 1\<rparr>"
  show ?case
  proof (cases "n = 0")
    case True
    then have "bs = []" using sem_literal.hyps(3) by (auto elim: glz_sem_0E)
    with True show ?thesis
      using run_step [OF s1(1)] s1 sz sem_literal.prems
      by (auto simp: glz_pop_def unat_eq_0 glz_run.simps)
  next
    case False
    then have "glz_pop ?g = ?g" using sz by (auto simp: glz_pop_def)
    with False show ?thesis
      using run_step [OF s1(1)] s1 sz sem_literal.prems sem_literal.IH [of s1 ?g] by auto
  qed
next
  case (sem_tail off off1 e off2 noff n d bs)
  have "off2 + noff < 2 ^ 32"
    using glz_sem_less [OF sem_tail.hyps(6,4)] small unfolding glz_small_def by linarith
  moreover have "0 < off2"
    using sem_tail.hyps(3) refoff_at_pos by blast
  ultimately obtain w nw m s1 where s1: "glz_step rd1 rd2 emit k g s =
      Some (Inr (glz_pop (glz_enter g w nw m)), s1)"
      "unat w = off2" "unat nw = noff" "unat m = e mod 256 + 2" "good s1" "out s1 = out s"
    using step_ref [OF small \<open>good s\<close>, of k g off1 e off2 noff] sem_tail by auto
  then have "glz_pop (glz_enter g w nw m) = g\<lparr>gf_off := w + nw\<rparr>"
    using sem_tail by (auto simp: glz_enter_def glz_pop_def word_le_nat_alt)
  moreover have "unat (w + nw) = off2 + noff"
    using \<open>off2 + noff < 2 ^ 32\<close> s1 by (subst unat_add_nat) auto
  ultimately show ?case
    using run_step [OF s1(1)] s1 sem_tail.prems sem_tail.IH [of s1 "g\<lparr>gf_off := w + nw\<rparr>"] by auto
next
  case (sem_nested off off1 e off2 noff n d bs1 bs2)
  have "off2 + noff < 2 ^ 32"
    using glz_sem_less [OF sem_nested.hyps(5)] small unfolding glz_small_def by simp
  moreover have "0 < off2"
    using sem_nested.hyps(3) refoff_at_pos by blast
  ultimately obtain w nw m s1 where s1: "glz_step rd1 rd2 emit k g s =
      Some (Inr (glz_pop (glz_enter g w nw m)), s1)"
      "unat w = off2" "unat nw = noff" "unat m = e mod 256 + 2" "good s1" "out s1 = out s"
    using step_ref [OF small \<open>good s\<close>, of k g off1 e off2 noff] sem_nested by auto
  let ?f = "\<lparr>gf_off = w + nw, gf_size = m, gf_poff = w, gf_psize = gf_size g - m\<rparr>"
  have "glz_pop (glz_enter g w nw m) = ?f"
    using sem_nested s1 by (auto simp: glz_enter_def glz_pop_def word_le_nat_alt)
  then have run: "glz_run (glz_step rd1 rd2 emit k) g s = glz_run (glz_step rd1 rd2 emit k) ?f s1"
    using run_step [OF s1(1)] sem_nested.prems by simp
  have f: "unat (w + nw) = off2 + noff" "unat (gf_size g - m) = n - (e mod 256 + 2)"
    using \<open>off2 + noff < 2 ^ 32\<close> s1 sem_nested
    by (subst unat_add_nat unat_sub; simp add: word_le_nat_alt)+
  have len: "length bs1 = e mod 256 + 2"
    using sem_nested.hyps(5) by (rule glz_sem_length)
  have "glz_sem blob (unat k) 0 (off2 + noff) (e mod 256 + 2) bs1"
    using sem_nested.hyps(5) sem_nested.prems(1) by simp
  from run_level0 [OF small this refl, of s1 ?f] obtain s2 where s2: "good s2"
      "out s2 = out s @ bs1" "glz_run (glz_step rd1 rd2 emit k) ?f s1 = glz_run (glz_step rd1 rd2 emit k)
        \<lparr>gf_off = w, gf_size = gf_size g - m, gf_poff = 0, gf_psize = 0\<rparr> s2"
    using s1 f sem_nested by auto
  from sem_nested.IH(2) [of s2 "\<lparr>gf_off = w, gf_size = gf_size g - m, gf_poff = 0, gf_psize = 0\<rparr>"]
  show ?case
    using s2 run s1 f len sem_nested.prems sem_nested.hyps(4) by auto
qed auto

theorem core_refines:
  assumes "glz_small blob" and "glz_sem blob (unat k) d (unat off) (unat sz) bs" and "d \<le> 1"
    and "good s" and "length (out s) + unat sz \<le> cap"
  shows "\<exists>s'. glz_core rd1 rd2 emit k off sz s = Some (GlzRet 0, s') \<and> out s' = out s @ bs \<and> good s'"
proof (cases "unat sz = 0")
  case True
  then have "bs = []" using assms(2) by (auto elim: glz_sem_0E)
  with True assms(4) show ?thesis
    by (auto simp: glz_core_def glz_start_def glz_run.simps unat_eq_0)
next
  case False
  have "glz_sem blob (unat k) 1 (unat off) (unat sz) bs"
    using assms(2,3) by (rule glz_sem_mono)
  from run_level1 [OF assms(1) this refl assms(4), of "glz_start off sz"] False assms(5)
  show ?thesis by (auto simp: glz_core_def glz_start_def)
qed

end

end
