(* ===== verification/GlzBounds.thy ===== *)
theory GlzBounds
  imports GlzCore
begin

text \<open>
  Memory safety of the decoder loop on arbitrary input, valid or not: when the accesses
  themselves stay in bounds, no run of the loop leaves them, and it never outputs more than
  the requested number of bytes, whatever the references of the blob say.
\<close>

locale glz_bounded =
  fixes rd1 :: "'s glz_rd1" and rd2 :: "'s glz_rd2" and emit :: "'s glz_emit"
    and inv :: "'s \<Rightarrow> bool" and used :: "'s \<Rightarrow> nat" and total :: nat
  assumes rd1_safe: "inv s \<Longrightarrow> rd1 (p div 8) s = (r, s') \<Longrightarrow> r \<noteq> Inl GlzOob \<and> inv s' \<and> used s' = used s"
    and rd2_safe: "inv s \<Longrightarrow> rd2 (p div 8) s = (x, s') \<Longrightarrow> x \<noteq> Inl GlzOob \<and> inv s' \<and> used s' = used s"
    and emit_safe: "inv s \<Longrightarrow> used s < total \<Longrightarrow> emit b s = (y, s') \<Longrightarrow>
      y \<noteq> Inl GlzOob \<and> inv s' \<and> used s' \<le> Suc (used s)"
begin

lemma kbits_safe:
  "inv s \<Longrightarrow> glz_kbits rd1 n off acc s = (r, s') \<Longrightarrow> r \<noteq> Inl GlzOob \<and> inv s' \<and> used s' = used s"
proof (induction n arbitrary: off acc s)
  case (Suc n)
  obtain x s1 where x: "rd1 (off div 8) s = (x, s1)" by fastforce
  then show ?case
    using rd1_safe [OF Suc.prems(1) x] Suc.prems(2) Suc.IH [of s1] by (auto split: sum.splits)
qed auto

lemma unary_safe:
  assumes "glz_unary rd1 off acc s = Some (r, s')" and "inv s"
  shows "r \<noteq> Inl GlzOob \<and> inv s' \<and> used s' = used s"
proof -
  let ?P = "\<lambda>rd off acc s z. rd = rd1 \<longrightarrow> inv s \<longrightarrow>
    fst z \<noteq> Inl GlzOob \<and> inv (snd z) \<and> used (snd z) = used s"
  have "?P rd1 off acc s (r, s')"
  proof (rule glz_unary.raw_induct [where P = ?P, OF _ assms(1)])
    fix f rd off acc s z
    assume IH: "\<And>rd off acc s z. f rd off acc s = Some z \<Longrightarrow> ?P rd off acc s z"
      and eq: "(case rd (off div 8) s of (Inl e, s') \<Rightarrow> Some (Inl e, s')
        | (Inr x, s') \<Rightarrow> if glz_bitof x off = 0 then Some (Inr (off + 1, acc), s')
            else f rd (off + 1) (acc + 1) s') = Some z"
    show "?P rd off acc s z"
    proof (intro impI)
      assume "rd = rd1" and "inv s"
      then show "fst z \<noteq> Inl GlzOob \<and> inv (snd z) \<and> used (snd z) = used s"
        using eq IH rd1_safe [of s off]
        by (auto split: prod.splits sum.splits if_splits dest!: IH)
    qed
  qed
  then show ?thesis using assms(2) by simp
qed

lemma symbol_safe:
  assumes "glz_symbol rd1 rd2 k off s = Some (r, s')" and "inv s"
  shows "r \<noteq> Inl GlzOob \<and> inv s' \<and> used s' = used s"
proof -
  obtain r1 s1 where u: "glz_unary rd1 off 0 s = Some (r1, s1)"
    using assms(1) by (auto simp: glz_symbol_def bind_eq_Some_conv)
  note s1 = unary_safe [OF u assms(2)]
  show ?thesis
  proof (cases r1)
    case (Inl e)
    then show ?thesis using assms(1) u s1 by (simp add: glz_symbol_def)
  next
    case (Inr p)
    obtain off1 acc where p: "p = (off1, acc)" by fastforce
    obtain r2 s2 where k: "glz_kbits rd1 (unat k) off1 acc s1 = (r2, s2)" by fastforce
    note s2 = kbits_safe [OF conjunct1 [OF conjunct2 [OF s1]] k]
    obtain x s3 where t: "\<And>q rice. r2 = Inr (q, rice) \<Longrightarrow> rd2 ((9 * rice) div 8) s2 = (x, s3)"
      by (cases r2) fastforce+
    show ?thesis
      using assms(1) u k s1 s2 t Inr p rd2_safe [of s2 _ x s3]
      by (auto simp: glz_symbol_def split: sum.splits)
  qed
qed

lemma refoff_safe:
  assumes "glz_refoff rd1 off acc s = Some (r, s')" and "inv s"
  shows "r \<noteq> Inl GlzOob \<and> inv s' \<and> used s' = used s"
proof -
  let ?P = "\<lambda>rd off acc s z. rd = rd1 \<longrightarrow> inv s \<longrightarrow>
    fst z \<noteq> Inl GlzOob \<and> inv (snd z) \<and> used (snd z) = used s"
  have "?P rd1 off acc s (r, s')"
  proof (rule glz_refoff.raw_induct [where P = ?P, OF _ assms(1)])
    fix f rd off acc s z
    assume IH: "\<And>rd off acc s z. f rd off acc s = Some z \<Longrightarrow> ?P rd off acc s z"
      and eq: "(case glz_kbits rd (GLZ_M + 1) off 0 s of (Inl e, s') \<Rightarrow> Some (Inl e, s')
        | (Inr (off', n), s') \<Rightarrow>
            let noff' = push_bit GLZ_M acc + 1 + (n AND (push_bit GLZ_M 1 - 1)) in
            if n < push_bit GLZ_M 1 then Some (Inr (off', noff' - 1), s')
            else f rd off' noff' s') = Some z"
    obtain x s1 where k: "glz_kbits rd (GLZ_M + 1) off 0 s = (x, s1)" by fastforce
    show "?P rd off acc s z"
    proof (intro impI)
      assume "rd = rd1" and "inv s"
      then show "fst z \<noteq> Inl GlzOob \<and> inv (snd z) \<and> used (snd z) = used s"
        using eq [unfolded k] kbits_safe [OF _ k [unfolded \<open>rd = rd1\<close>]]
        by (auto simp: Let_def split: sum.splits if_splits dest!: IH)
    qed
  qed
  then show ?thesis using assms(2) by simp
qed

lemma step_safe:
  assumes "glz_step rd1 rd2 emit k g s = Some (r, s')" and "inv s" and "0 < unat (gf_size g)"
    and "used s + unat (gf_size g) + unat (gf_psize g) \<le> limit" and "limit \<le> total"
  shows "r \<noteq> Inl GlzOob \<and> inv s' \<and> used s' \<le> limit \<and>
    (\<forall>g'. r = Inr g' \<longrightarrow> used s' + unat (gf_size g') + unat (gf_psize g') \<le> limit)"
proof -
  obtain r1 s1 where u: "glz_symbol rd1 rd2 k (gf_off g) s = Some (r1, s1)"
    using assms(1) by (auto simp: glz_step_def bind_eq_Some_conv)
  note s1 = symbol_safe [OF u assms(2)]
  consider (stop) e where "r1 = Inl e"
    | (lit) p rice where "r1 = Inr (p, rice)" "rice < 0x100"
    | (ref) p rice where "r1 = Inr (p, rice)" "\<not> rice < 0x100"
    by (cases r1) auto
  then show ?thesis
  proof cases
    case stop
    then show ?thesis using assms u s1 by (auto simp: glz_step_def)
  next
    case lit
    obtain y s2 where e: "emit (ucast rice) s1 = (y, s2)" by fastforce
    have "used s1 < total" using assms s1 by simp
    note s2 = emit_safe [OF conjunct1 [OF conjunct2 [OF s1]] this e]
    have "unat (gf_size g - 1) = unat (gf_size g) - 1"
      using assms(3) by (subst unat_sub) (auto simp: word_le_nat_alt)
    then show ?thesis
      using assms u s1 e s2 lit by (auto simp: glz_step_def glz_pop_def split: sum.splits if_splits)
  next
    case ref
    obtain r2 s2 where o: "glz_refoff rd1 p 0 s1 = Some (r2, s2)"
      using assms(1) u ref by (auto simp: glz_step_def bind_eq_Some_conv)
    note s2 = refoff_safe [OF o conjunct1 [OF conjunct2 [OF s1]]]
    have enter: "unat (gf_size (glz_enter g a b m)) + unat (gf_psize (glz_enter g a b m))
        \<le> unat (gf_size g) + unat (gf_psize g)" for a b m
      by (auto simp: glz_enter_def unat_sub word_le_nat_alt)
    have pop: "unat (gf_size (glz_pop h)) + unat (gf_psize (glz_pop h))
        \<le> unat (gf_size h) + unat (gf_psize h)" for h
      by (auto simp: glz_pop_def)
    show ?thesis
    proof (cases r2)
      case (Inl e)
      then show ?thesis using assms u s1 o s2 ref by (auto simp: glz_step_def)
    next
      case (Inr z)
      obtain q noff where "z = (q, noff)" by fastforce
      then have "r = Inr (glz_pop (glz_enter g q noff ((rice AND 0xff) + 2)))" "s' = s2"
        using assms(1) u o ref Inr by (auto simp: glz_step_def)
      moreover have "unat (gf_size (glz_pop (glz_enter g q noff ((rice AND 0xff) + 2))))
          + unat (gf_psize (glz_pop (glz_enter g q noff ((rice AND 0xff) + 2))))
          \<le> unat (gf_size g) + unat (gf_psize g)"
        using pop enter le_trans by blast
      ultimately show ?thesis using assms s1 s2 by auto
    qed
  qed
qed

theorem core_safe:
  assumes "glz_core rd1 rd2 emit k off sz s = Some (e, s')" and "inv s"
    and "used s + unat sz \<le> total"
  shows "e \<noteq> GlzOob \<and> inv s' \<and> used s' \<le> used s + unat sz"
proof -
  define limit where "limit = used s + unat sz"
  let ?step = "glz_step rd1 rd2 emit k"
  let ?P = "\<lambda>step g s z. step = ?step \<longrightarrow> inv s \<longrightarrow>
    used s + unat (gf_size g) + unat (gf_psize g) \<le> limit \<longrightarrow>
    fst z \<noteq> GlzOob \<and> inv (snd z) \<and> used (snd z) \<le> limit"
  have "glz_run ?step (glz_start off sz) s = Some (e, s')"
    using assms(1) by (simp add: glz_core_def)
  then have "?P ?step (glz_start off sz) s (e, s')"
  proof (rule glz_run.raw_induct [where P = ?P, rotated])
    fix f step g s z
    assume IH: "\<And>step g s z. f step g s = Some z \<Longrightarrow> ?P step g s z"
      and eq: "(if gf_size g = 0 then Some (GlzRet 0, s)
        else Option.bind (step g s) (\<lambda>(r, s'). case r of Inl e \<Rightarrow> Some (e, s')
          | Inr g' \<Rightarrow> f step g' s')) = Some z"
    show "?P step g s z"
    proof (intro impI)
      assume pre: "step = ?step" "inv s" "used s + unat (gf_size g) + unat (gf_psize g) \<le> limit"
      show "fst z \<noteq> GlzOob \<and> inv (snd z) \<and> used (snd z) \<le> limit"
      proof (cases "gf_size g = 0")
        case True
        then show ?thesis using eq pre by auto
      next
        case False
        then obtain r s1 where st: "?step g s = Some (r, s1)"
          using eq pre by (auto simp: bind_eq_Some_conv)
        have "0 < unat (gf_size g)" using False by (simp add: unat_gt_0)
        note s1 = step_safe [OF st pre(2) this pre(3)]
        show ?thesis
          using False eq pre st s1 assms(3) by (auto simp: limit_def split: sum.splits dest!: IH)
      qed
    qed
  qed
  then show ?thesis
    using assms by (simp add: limit_def glz_start_def)
qed

end

end
