(* ===== verification/GlzDecoder.thy ===== *)
theory GlzDecoder
  imports GlzRefine GlzBounds
begin

text \<open>
  \<^verbatim>\<open>extra/glz/examples/decoder.c\<close>: the decoder from an array into an array, with the
  metadata helpers. \<open>uint_fast16_t\<close> is 32 bits wide, as on the Arm targets. The output
  buffer is its capacity \<open>cap\<close> and the bytes written so far; a write past the capacity or
  a read past the end of \<open>blob\<close> is \<open>GlzOob\<close>.
\<close>

definition GLZ_ERR_INVAL :: int where
  "GLZ_ERR_INVAL = -22"

subsection \<open>Array accesses\<close>

definition blob_rd1 :: "u8 list \<Rightarrow> u32 \<Rightarrow> u8 list glz_rd1" where
  "blob_rd1 blob blob_size a out =
     (if a \<ge> blob_size then (Inl (GlzRet GLZ_ERR_INVAL), out)
      else if unat a < length blob then (Inr (blob ! unat a), out)
      else (Inl GlzOob, out))"

definition blob_rd2 :: "u8 list \<Rightarrow> u32 \<Rightarrow> u8 list glz_rd2" where
  "blob_rd2 blob blob_size a out =
     (if a + 1 \<ge> blob_size then (Inl (GlzRet GLZ_ERR_INVAL), out)
      else if unat a < length blob \<and> unat (a + 1) < length blob
      then (Inr (blob ! unat a, blob ! unat (a + 1)), out)
      else (Inl GlzOob, out))"

definition buf_emit :: "nat \<Rightarrow> u8 list glz_emit" where
  "buf_emit cap b out = (if length out < cap then (Inr (), out @ [b]) else (Inl GlzOob, out))"

subsection \<open>The functions of the file\<close>

definition glz_decode ::
  "u8 \<Rightarrow> u8 list \<Rightarrow> u32 \<Rightarrow> u32 \<Rightarrow> nat \<Rightarrow> u32 \<Rightarrow> (glz_stop \<times> u8 list) option" where
  "glz_decode k blob blob_size off cap sz =
     glz_core (blob_rd1 blob blob_size) (blob_rd2 blob blob_size) (buf_emit cap) k off sz []"

definition glz_getsize :: "u8 list \<Rightarrow> u32 \<Rightarrow> glz_stop" where
  "glz_getsize blob blob_size =
     (if blob_size < 8 then GlzRet GLZ_ERR_INVAL
      else if length blob < 8 then GlzOob
      else GlzRet (sint (le32 (blob ! 4) (blob ! 5) (blob ! 6) (blob ! 7))))"

definition glz_getoff :: "u8 list \<Rightarrow> u32 \<Rightarrow> glz_stop" where
  "glz_getoff blob blob_size =
     (if blob_size < 8 then GlzRet GLZ_ERR_INVAL
      else if length blob < 8 then GlzOob
      else GlzRet (sint (push_bit 0 (ucast (blob ! 0)) OR push_bit 8 (ucast (blob ! 1)) OR
        push_bit 16 (ucast (blob ! 2)) :: u32)))"

definition glz_getk :: "u8 list \<Rightarrow> u32 \<Rightarrow> glz_stop" where
  "glz_getk blob blob_size =
     (if blob_size < 8 then GlzRet GLZ_ERR_INVAL
      else if length blob < 8 then GlzOob
      else GlzRet (uint (0xf AND (blob ! 3))))"

definition glz_decode_all ::
  "u8 list \<Rightarrow> u32 \<Rightarrow> nat \<Rightarrow> u32 \<Rightarrow> (glz_stop \<times> u8 list) option" where
  "glz_decode_all blob blob_size cap sz =
     (if blob_size < 8 then Some (GlzRet GLZ_ERR_INVAL, [])
      else case (glz_getoff blob blob_size, glz_getk blob blob_size, glz_getsize blob blob_size) of
        (GlzRet off, GlzRet k, GlzRet n) \<Rightarrow>
          let nsize = word_of_int n; sz' = (if nsize < sz then nsize else sz) in
          glz_decode (word_of_int k) (drop 8 blob) (blob_size - 8) (word_of_int off) cap sz'
      | _ \<Rightarrow> Some (GlzOob, []))"

definition glz_decode_slice ::
  "u8 list \<Rightarrow> u32 \<Rightarrow> u32 \<Rightarrow> nat \<Rightarrow> u32 \<Rightarrow> (glz_stop \<times> u8 list) option" where
  "glz_decode_slice blob blob_size off cap sz =
     (if blob_size < 8 then Some (GlzRet GLZ_ERR_INVAL, [])
      else case glz_getk blob blob_size of
        GlzRet k \<Rightarrow> glz_decode (word_of_int k) (drop 8 blob) (blob_size - 8) off cap sz
      | GlzOob \<Rightarrow> Some (GlzOob, []))"

subsection \<open>The array accesses are a byte source and stay in bounds\<close>

interpretation dec: glz_source "blob_rd1 blob blob_size" "blob_rd2 blob blob_size" "buf_emit cap"
    blob cap "\<lambda>_. unat blob_size = length blob" "\<lambda>out. out"
  by unfold_locales
    (auto simp: blob_rd1_def blob_rd2_def buf_emit_def glz_small_def word_le_nat_alt unat_add_nat)

interpretation dec_b: glz_bounded "blob_rd1 blob blob_size" "blob_rd2 blob blob_size"
    "buf_emit cap" "\<lambda>_. unat blob_size = length blob" length cap
proof
  fix s s' r x p
  assume n: "unat blob_size = length blob"
  show "blob_rd1 blob blob_size (p div 8) s = (r, s') \<Longrightarrow>
      r \<noteq> Inl GlzOob \<and> unat blob_size = length blob \<and> length s' = length s"
    using n by (auto simp: blob_rd1_def word_le_nat_alt split: if_splits)
  have "unat (p div 8 + 1) = unat (p div 8) + 1"
    using unat_u32_div8_less [of p] by (subst unat_add_nat) auto
  then show "blob_rd2 blob blob_size (p div 8) s = (x, s') \<Longrightarrow>
      x \<noteq> Inl GlzOob \<and> unat blob_size = length blob \<and> length s' = length s"
    using n by (auto simp: blob_rd2_def word_le_nat_alt split: if_splits)
qed (auto simp: buf_emit_def split: if_splits)

subsection \<open>The metadata of a blob\<close>

text \<open>The layout drawn in the source: the bit offset of the stream (24 bits), \<open>k\<close> and the
  format number 1 in a byte, the size of the output (32 bits), then the compressed body.\<close>

definition glz_header :: "u32 \<Rightarrow> u8 \<Rightarrow> u32 \<Rightarrow> u8 list" where
  "glz_header off k n =
     [byte_of off 0, byte_of off 1, byte_of off 2, 0x10 OR k,
      byte_of n 0, byte_of n 1, byte_of n 2, byte_of n 3]"

lemma length_glz_header [simp]: "length (glz_header off k n) = 8"
  by (simp add: glz_header_def)

lemma header_size:
  "\<not> blob_size < 8 \<Longrightarrow> glz_getsize (glz_header off k n @ body) blob_size = GlzRet (sint n)"
  by (simp add: glz_getsize_def glz_header_def le32_bytes del: One_nat_def)

lemma header_off:
  assumes "\<not> blob_size < 8" and "off < 2 ^ 24"
  shows "glz_getoff (glz_header off k n @ body) blob_size = GlzRet (sint off)"
proof -
  have "byte_of off 3 = 0"
    using assms(2) by (simp add: byte_of_def drop_bit_eq_div div_word_less)
  then have "push_bit 0 (ucast (byte_of off 0)) OR push_bit 8 (ucast (byte_of off 1)) OR
      push_bit 16 (ucast (byte_of off 2)) = off"
    using le32_bytes [of off] by (simp add: le32_def)
  then show ?thesis
    using assms(1) by (simp add: glz_getoff_def glz_header_def del: One_nat_def)
qed

lemma header_k:
  assumes "\<not> blob_size < 8" and "k < 16"
  shows "glz_getk (glz_header off k n @ body) blob_size = GlzRet (uint k)"
proof -
  have k: "take_bit 4 k = k"
    using assms(2) by (simp add: take_bit_eq_mod mod_word_less)
  have "0xf AND (0x10 OR k) = take_bit 4 (0x10 OR k)"
    by (simp only: take_bit_eq_mask) (simp add: mask_eq_exp_minus_1 and.commute)
  also have "\<dots> = k"
    by (simp only: take_bit_or k) simp
  finally have "0xf AND (0x10 OR k) = k" .
  then show ?thesis
    using assms(1) by (simp add: glz_getk_def glz_header_def)
qed

subsection \<open>Properties\<close>

lemma decode_refines:
  assumes "unat blob_size = length blob" and "glz_small blob"
    and "glz_sem blob (unat k) d (unat off) (unat sz) bs" and "d \<le> 1" and "unat sz \<le> cap"
  shows "glz_decode k blob blob_size off cap sz = Some (GlzRet 0, bs)"
  using dec.core_refines [OF assms(2,3,4,1), of "[]" cap] assms(5)
  by (auto simp: glz_decode_def)

text \<open>C6: the whole-blob decoder implements the format. For a blob made of the metadata and a
  body whose meaning is \<open>bs\<close> (references nested at most one level, the most the single saved
  frame can hold), \<open>glz_decode_all\<close> returns 0 and has written exactly \<open>bs\<close>.\<close>

theorem glz_decode_all_correct:
  assumes "off < 2 ^ 24" and "k < 16"
    and "8 * (8 + length body) < 2 ^ 32"
    and "glz_sem body (unat k) d (unat off) (unat n) bs" and "d \<le> 1"
    and "n \<le> sz" and "unat n \<le> cap"
  shows "glz_decode_all (glz_header off k n @ body) (word_of_nat (8 + length body)) cap sz
    = Some (GlzRet 0, bs)"
proof -
  define m :: u32 where "m = word_of_nat (8 + length body)"
  have m: "unat m = 8 + length body"
    using assms(3) unfolding m_def by (simp only: unat_of_nat) simp
  then have ge: "\<not> m < 8" by (simp add: word_less_nat_alt)
  have m8: "unat (m - 8) = length body"
    using m by (subst unat_sub) (auto simp: word_le_nat_alt)
  have "(if n < sz then n else sz) = n" using assms(6) by auto
  moreover have "glz_decode k body (m - 8) off cap n = Some (GlzRet 0, bs)"
    using decode_refines [OF m8] assms by (simp add: glz_small_def)
  ultimately show ?thesis
    unfolding m_def [symmetric] using ge assms(1,2)
    by (simp add: glz_decode_all_def header_size header_off header_k Let_def)
qed

definition demo_body :: "u8 list" where
  "demo_body = [0x20, 0xC0, 0x21, 0x00]"

lemma demo_meaning: "glz_sem demo_body 0 1 18 4 [65, 65, 65, 65]"
proof -
  have lit: "glz_sem demo_body 0 d p 2 [65, 65]"
    if "symbol_at demo_body 0 p = Some (p1, 65)" "symbol_at demo_body 0 p1 = Some (p2, 65)" for d p p1 p2
    using glz_sem.sem_literal [OF that(1) _ glz_sem.sem_literal [OF that(2) _ glz_sem.sem_done]]
    by (simp add: numeral_2_eq_2)
  have a: "glz_sem demo_body 0 0 (25 + 2) 2 [65, 65]"
    by (rule lit [of _ 28 29]) code_simp+
  have b: "glz_sem demo_body 0 1 25 2 [65, 65]"
    by (rule lit [of _ 26 27]) code_simp+
  have "symbol_at demo_body 0 18 = Some (20, 256)" "refoff_at demo_body 20 0 = Some (25, 2)"
    by code_simp+
  from glz_sem.sem_nested [OF this(1) _ this(2), of 4 0 "[65, 65]" "[65, 65]"] a b
  show ?thesis by (simp add: numeral_2_eq_2)
qed

theorem glz_decode_all_correct_witness:
  "glz_decode_all (glz_header 18 0 4 @ demo_body) 12 16 100 = Some (GlzRet 0, [65, 65, 65, 65])"
  using glz_decode_all_correct [of 18 0 demo_body 1 4 "[65, 65, 65, 65]" 100 16] demo_meaning
  by (simp add: demo_body_def word_less_nat_alt word_le_nat_alt)

text \<open>C7: memory safety on any input. For an arbitrary blob, valid or not, the decoder
  never reads outside of the blob nor writes outside of the output buffer, and whatever it
  returns it has written at most the requested number of bytes.\<close>

theorem glz_decode_memory_safe:
  assumes "unat blob_size = length blob" and "unat sz \<le> cap"
    and "glz_decode k blob blob_size off cap sz = Some (ret, written)"
  shows "ret \<noteq> GlzOob \<and> length written \<le> unat sz"
  using dec_b.core_safe [OF assms(3) [unfolded glz_decode_def] assms(1)] assms(2) by simp

theorem glz_decode_memory_safe_witness:
  "(GlzRet (-22) \<noteq> GlzOob) \<and> length [0x41 :: u8] \<le> unat (3 :: u32)"
proof -
  have "glz_decode 0 [0x20, 0x80, 0x7F] 3 16 3 3 = Some (GlzRet (-22), [0x41])"
    by code_simp
  from glz_decode_memory_safe [OF _ _ this] show ?thesis by simp
qed




text \<open>Success does not mean complete output. The single saved frame is overwritten when a
  reference occurs inside a pending one; the decoder then returns 0 having written fewer
  bytes than requested, where the meaning of the blob has all of them.\<close>

definition deep_body :: "u8 list" where
  "deep_body = [0x20, 0xC0, 0x20, 0x38, 0x28, 0x20]"

theorem glz_decode_depth2_truncates:
  "glz_sem deep_body 0 2 27 4 [65, 65, 65, 65] \<and>
   glz_decode 0 deep_body 6 27 4 4 = Some (GlzRet 0, [65, 65, 65])"
proof
  have lit1: "glz_sem deep_body 0 d p 1 [65]"
    if "symbol_at deep_body 0 p = Some (p1, 65)" for d p p1
    using glz_sem.sem_literal [OF that _ glz_sem.sem_done] by simp
  have lit2: "glz_sem deep_body 0 d p 2 [65, 65]"
    if "symbol_at deep_body 0 p = Some (p1, 65)" "symbol_at deep_body 0 p1 = Some (p2, 65)" for d p p1 p2
    using glz_sem.sem_literal [OF that(1) _ lit1 [OF that(2)]] by (simp add: numeral_2_eq_2)
  have inner: "glz_sem deep_body 0 1 (35 + 1) 3 [65, 65, 65]"
  proof -
    have "symbol_at deep_body 0 36 = Some (38, 256)" "refoff_at deep_body 38 0 = Some (43, 1)"
      by code_simp+
    moreover have "glz_sem deep_body 0 0 (43 + 1) 2 [65, 65]"
      by (rule lit2 [of _ 45 46]) code_simp+
    moreover have "glz_sem deep_body 0 1 43 1 [65]"
      by (rule lit1 [of _ 44]) code_simp
    ultimately show ?thesis
      using glz_sem.sem_nested [of deep_body 0 36 38 256 43 1 3 0 "[65, 65]" "[65]"]
      by (simp add: numeral_2_eq_2)
  qed
  have "symbol_at deep_body 0 27 = Some (30, 257)" "refoff_at deep_body 30 0 = Some (35, 1)"
    by code_simp+
  moreover have "glz_sem deep_body 0 2 35 1 [65]"
    by (rule lit1 [of _ 36]) code_simp
  ultimately show "glz_sem deep_body 0 2 27 4 [65, 65, 65, 65]"
    using inner glz_sem.sem_nested [of deep_body 0 27 30 257 35 1 4 1 "[65, 65, 65]" "[65]"]
    by (simp add: numeral_2_eq_2 numeral_3_eq_3)
  show "glz_decode 0 deep_body 6 27 4 4 = Some (GlzRet 0, [65, 65, 65])"
    by code_simp
qed

end
