(* ===== verification/GlzSim.thy ===== *)
theory GlzSim
  imports GlzCore
begin

text \<open>
  Two instances of the decoder loop compared. \<open>R s t\<close> relates the states of the two sides;
  as long as the accesses of the first succeed, those of the second give the same values
  and keep \<open>R\<close>. Stops for which \<open>dc\<close> holds end the comparison.
\<close>

definition glz_agree ::
  "(glz_stop \<Rightarrow> bool) \<Rightarrow> ('s \<Rightarrow> 't \<Rightarrow> bool) \<Rightarrow> (glz_stop + 'a) \<times> 's \<Rightarrow> (glz_stop + 'a) \<times> 't \<Rightarrow> bool"
where
  "glz_agree dc R x y \<longleftrightarrow>
     (case fst x of
        Inl e \<Rightarrow> dc e \<or> (fst y = Inl e \<and> R (snd x) (snd y))
      | Inr a \<Rightarrow> fst y = Inr a \<and> R (snd x) (snd y))"

lemma glz_agree_Inl: "glz_agree dc R (Inl e, s) y \<longleftrightarrow> dc e \<or> (fst y = Inl e \<and> R s (snd y))"
  by (simp add: glz_agree_def)

lemma glz_agree_Inr: "glz_agree dc R (Inr a, s) y \<longleftrightarrow> (\<exists>t. y = (Inr a, t) \<and> R s t)"
  by (cases y) (auto simp: glz_agree_def)

locale glz_sim =
  fixes rd1 :: "'s glz_rd1" and rd2 :: "'s glz_rd2" and emit :: "'s glz_emit"
    and rd1' :: "'t glz_rd1" and rd2' :: "'t glz_rd2" and emit' :: "'t glz_emit"
    and R :: "'s \<Rightarrow> 't \<Rightarrow> bool" and dc :: "glz_stop \<Rightarrow> bool"
  assumes sim1: "R s t \<Longrightarrow> glz_agree dc R (rd1 (p div 8) s) (rd1' (p div 8) t)"
    and sim2: "R s t \<Longrightarrow> glz_agree dc R (rd2 (p div 8) s) (rd2' (p div 8) t)"
    and sim_emit: "R s t \<Longrightarrow> glz_agree dc R (emit b s) (emit' b t)"
begin

lemma kbits_sim: "R s t \<Longrightarrow> glz_agree dc R (glz_kbits rd1 n off acc s) (glz_kbits rd1' n off acc t)"
proof (induction n arbitrary: off acc s t)
  case (Suc n)
  obtain x s1 where x: "rd1 (off div 8) s = (x, s1)" by fastforce
  obtain y t1 where y: "rd1' (off div 8) t = (y, t1)" by fastforce
  show ?case
    using sim1 [OF Suc.prems, of off] Suc.IH x y
    by (cases x) (auto simp: glz_agree_Inl glz_agree_Inr)
qed (auto simp: glz_agree_def)

lemma unary_sim:
  assumes "glz_unary rd1 off acc s = Some x" and "R s t"
  shows "(\<exists>e. fst x = Inl e \<and> dc e) \<or> (\<exists>y. glz_unary rd1' off acc t = Some y \<and> glz_agree dc R x y)"
proof -
  let ?C = "\<lambda>off acc t x. (\<exists>e. fst x = Inl e \<and> dc e) \<or>
    (\<exists>y. glz_unary rd1' off acc t = Some y \<and> glz_agree dc R x y)"
  let ?P = "\<lambda>rd off acc s x. rd = rd1 \<longrightarrow> (\<forall>t. R s t \<longrightarrow> ?C off acc t x)"
  have "?P rd1 off acc s x"
  proof (rule glz_unary.raw_induct [where P = ?P, OF _ assms(1)])
    fix f rd off acc s z
    assume IH: "\<And>rd off acc s z. f rd off acc s = Some z \<Longrightarrow> ?P rd off acc s z"
      and eq: "(case rd (off div 8) s of (Inl e, s') \<Rightarrow> Some (Inl e, s')
        | (Inr x, s') \<Rightarrow> if glz_bitof x off = 0 then Some (Inr (off + 1, acc), s')
            else f rd (off + 1) (acc + 1) s') = Some z"
    show "?P rd off acc s z"
    proof (intro impI allI)
      fix t
      assume rd: "rd = rd1" and "R s t"
      obtain x s1 where x: "rd1 (off div 8) s = (x, s1)" by fastforce
      obtain y t1 where y: "rd1' (off div 8) t = (y, t1)" by fastforce
      note a = sim1 [OF \<open>R s t\<close>, of off, unfolded x y]
      show "?C off acc t z"
      proof (cases x)
        case (Inl e)
        then show ?thesis
          using eq x y a rd by (auto simp: glz_agree_Inl glz_unary.simps [of rd1' off])
      next
        case (Inr b)
        then have yb: "y = Inr b" and R1: "R s1 t1" using a by (auto simp: glz_agree_Inr)
        show ?thesis
        proof (cases "glz_bitof b off = 0")
          case True
          then show ?thesis
            using eq x y rd Inr yb R1 by (auto simp: glz_agree_Inr glz_unary.simps [of rd1' off])
        next
          case False
          then have "f rd1 (off + 1) (acc + 1) s1 = Some z" using eq x rd Inr by simp
          then have "?C (off + 1) (acc + 1) t1 z" using IH R1 by blast
          then show ?thesis
            using False y yb by (simp add: glz_unary.simps [of rd1' off])
        qed
      qed
    qed
  qed
  then show ?thesis using assms(2) by simp
qed

lemma symbol_sim:
  assumes "glz_symbol rd1 rd2 k off s = Some x" and "R s t"
  shows "(\<exists>e. fst x = Inl e \<and> dc e) \<or> (\<exists>y. glz_symbol rd1' rd2' k off t = Some y \<and> glz_agree dc R x y)"
proof -
  obtain r1 s1 where u: "glz_unary rd1 off 0 s = Some (r1, s1)"
    using assms(1) by (auto simp: glz_symbol_def bind_eq_Some_conv)
  note U = unary_sim [OF u assms(2)]
  show ?thesis
  proof (cases r1)
    case (Inl e)
    then show ?thesis
      using assms(1) u U by (auto simp: glz_symbol_def glz_agree_Inl)
  next
    case (Inr q)
    obtain off1 acc where q: "q = (off1, acc)" by fastforce
    from U Inr q obtain t1 where t1: "glz_unary rd1' off 0 t = Some (Inr (off1, acc), t1)" "R s1 t1"
      by (auto simp: glz_agree_Inr)
    obtain r2 s2 where k: "glz_kbits rd1 (unat k) off1 acc s1 = (r2, s2)" by fastforce
    obtain r2' t2 where k': "glz_kbits rd1' (unat k) off1 acc t1 = (r2', t2)" by fastforce
    note K = kbits_sim [OF t1(2), of "unat k" off1 acc, unfolded k k']
    show ?thesis
    proof (cases r2)
      case (Inl e)
      then show ?thesis
        using assms(1) u Inr q t1 k k' K by (auto simp: glz_symbol_def glz_agree_Inl)
    next
      case (Inr w)
      obtain off2 rice where w: "w = (off2, rice)" by fastforce
      have r2': "r2' = Inr (off2, rice)" and R2: "R s2 t2"
        using K Inr w by (auto simp: glz_agree_Inr)
      obtain v s3 where v: "rd2 ((9 * rice) div 8) s2 = (v, s3)" by fastforce
      obtain v' t3 where v': "rd2' ((9 * rice) div 8) t2 = (v', t3)" by fastforce
      show ?thesis
        using assms(1) u \<open>r1 = Inr q\<close> q t1 k k' Inr w r2' v v' sim2 [OF R2, of "9 * rice"]
        by (cases v) (auto simp: glz_symbol_def glz_agree_Inl glz_agree_Inr)
    qed
  qed
qed

lemma refoff_sim:
  assumes "glz_refoff rd1 off acc s = Some x" and "R s t"
  shows "(\<exists>e. fst x = Inl e \<and> dc e) \<or> (\<exists>y. glz_refoff rd1' off acc t = Some y \<and> glz_agree dc R x y)"
proof -
  let ?C = "\<lambda>off acc t x. (\<exists>e. fst x = Inl e \<and> dc e) \<or>
    (\<exists>y. glz_refoff rd1' off acc t = Some y \<and> glz_agree dc R x y)"
  let ?P = "\<lambda>rd off acc s x. rd = rd1 \<longrightarrow> (\<forall>t. R s t \<longrightarrow> ?C off acc t x)"
  have "?P rd1 off acc s x"
  proof (rule glz_refoff.raw_induct [where P = ?P, OF _ assms(1)])
    fix f rd off acc s z
    assume IH: "\<And>rd off acc s z. f rd off acc s = Some z \<Longrightarrow> ?P rd off acc s z"
      and eq: "(case glz_kbits rd (GLZ_M + 1) off 0 s of (Inl e, s') \<Rightarrow> Some (Inl e, s')
        | (Inr (off', n), s') \<Rightarrow>
            let noff' = push_bit GLZ_M acc + 1 + (n AND (push_bit GLZ_M 1 - 1)) in
            if n < push_bit GLZ_M 1 then Some (Inr (off', noff' - 1), s')
            else f rd off' noff' s') = Some z"
    show "?P rd off acc s z"
    proof (intro impI allI)
      fix t
      assume rd: "rd = rd1" and "R s t"
      obtain x s1 where x: "glz_kbits rd (GLZ_M + 1) off 0 s = (x, s1)" by fastforce
      obtain y t1 where y: "glz_kbits rd1' (GLZ_M + 1) off 0 t = (y, t1)" by fastforce
      note a = kbits_sim [OF \<open>R s t\<close>, of "GLZ_M + 1" off 0, folded rd, unfolded x y]
      note eq' = eq [unfolded x]
      show "?C off acc t z"
      proof (cases x)
        case (Inl e)
        then show ?thesis
          using eq' y a by (auto simp: glz_agree_Inl glz_refoff.simps [of rd1' off] simp del: add_Suc_right)
      next
        case (Inr w)
        obtain off' n where w: "w = (off', n)" by fastforce
        have y': "y = Inr (off', n)" and R1: "R s1 t1" using a Inr w by (auto simp: glz_agree_Inr)
        have unf: "glz_refoff rd1' off acc t =
            (let noff' = push_bit GLZ_M acc + 1 + (n AND (push_bit GLZ_M 1 - 1)) in
             if n < push_bit GLZ_M 1 then Some (Inr (off', noff' - 1), t1)
             else glz_refoff rd1' off' noff' t1)"
          by (subst glz_refoff.simps) (simp only: y y' prod.case sum.case)
        show ?thesis
        proof (cases "n < push_bit GLZ_M 1")
          case True
          then show ?thesis using eq' Inr w R1 unf by (auto simp: glz_agree_Inr Let_def)
        next
          case False
          then have "f rd1 off' (push_bit GLZ_M acc + 1 + (n AND (push_bit GLZ_M 1 - 1))) s1 = Some z"
            using eq' Inr w rd by (simp add: Let_def)
          from IH [OF this] R1 show ?thesis
            using False unf by (simp add: Let_def)
        qed
      qed
    qed
  qed
  then show ?thesis using assms(2) by simp
qed

lemma step_sim:
  assumes "glz_step rd1 rd2 emit k g s = Some x" and "R s t"
  shows "(\<exists>e. fst x = Inl e \<and> dc e) \<or>
    (\<exists>y. glz_step rd1' rd2' emit' k g t = Some y \<and> glz_agree dc R x y)"
proof -
  obtain r1 s1 where u: "glz_symbol rd1 rd2 k (gf_off g) s = Some (r1, s1)"
    using assms(1) by (auto simp: glz_step_def bind_eq_Some_conv)
  note U = symbol_sim [OF u assms(2)]
  consider (stop) e where "r1 = Inl e"
    | (lit) p rice where "r1 = Inr (p, rice)" "rice < 0x100"
    | (ref) p rice where "r1 = Inr (p, rice)" "\<not> rice < 0x100"
    by (cases r1) auto
  then show ?thesis
  proof cases
    case stop
    then show ?thesis using assms(1) u U by (auto simp: glz_step_def glz_agree_Inl)
  next
    case lit
    then obtain t1 where t1: "glz_symbol rd1' rd2' k (gf_off g) t = Some (Inr (p, rice), t1)" "R s1 t1"
      using U by (auto simp: glz_agree_Inr)
    obtain v s2 where v: "emit (ucast rice) s1 = (v, s2)" by fastforce
    obtain v' t2 where v': "emit' (ucast rice) t1 = (v', t2)" by fastforce
    show ?thesis
      using assms(1) u lit t1 v v' sim_emit [OF t1(2), of "ucast rice"]
      by (cases v) (auto simp: glz_step_def glz_agree_Inl glz_agree_Inr)
  next
    case ref
    then obtain t1 where t1: "glz_symbol rd1' rd2' k (gf_off g) t = Some (Inr (p, rice), t1)" "R s1 t1"
      using U by (auto simp: glz_agree_Inr)
    obtain r2 s2 where o: "glz_refoff rd1 p 0 s1 = Some (r2, s2)"
      using assms(1) u ref by (auto simp: glz_step_def bind_eq_Some_conv)
    note O = refoff_sim [OF o t1(2)]
    show ?thesis
      using assms(1) u ref t1 o O
      by (cases r2) (auto simp: glz_step_def glz_agree_Inl glz_agree_Inr)
  qed
qed

theorem core_sim:
  assumes "glz_core rd1 rd2 emit k off sz s = Some (e, s')" and "R s t"
  shows "dc e \<or> (\<exists>t'. glz_core rd1' rd2' emit' k off sz t = Some (e, t') \<and> R s' t')"
proof -
  let ?step = "glz_step rd1 rd2 emit k" and ?step' = "glz_step rd1' rd2' emit' k"
  let ?C = "\<lambda>g t z. dc (fst z) \<or> (\<exists>t'. glz_run ?step' g t = Some (fst z, t') \<and> R (snd z) t')"
  let ?P = "\<lambda>step g s z. step = ?step \<longrightarrow> (\<forall>t. R s t \<longrightarrow> ?C g t z)"
  have "glz_run ?step (glz_start off sz) s = Some (e, s')"
    using assms(1) by (simp add: glz_core_def)
  then have "?P ?step (glz_start off sz) s (e, s')"
  proof (rule glz_run.raw_induct [where P = ?P, rotated])
    fix f step g s z
    assume IH: "\<And>step g s z. f step g s = Some z \<Longrightarrow> ?P step g s z"
      and eq: "(if gf_size g = 0 then Some (GlzRet 0, s)
        else Option.bind (step g s) (\<lambda>(r, s'). case r of Inl e \<Rightarrow> Some (e, s')
          | Inr g' \<Rightarrow> f step g' s')) = Some z"
    show "?P step g s z"
    proof (intro impI allI)
      fix t
      assume step: "step = ?step" and "R s t"
      show "?C g t z"
      proof (cases "gf_size g = 0")
        case True
        then show ?thesis using eq \<open>R s t\<close> by (auto simp: glz_run.simps)
      next
        case False
        then obtain r s1 where st: "?step g s = Some (r, s1)"
          using eq step by (auto simp: bind_eq_Some_conv)
        note S = step_sim [OF st \<open>R s t\<close>]
        show ?thesis
        proof (cases r)
          case (Inl c)
          then show ?thesis
            using False eq step st S by (auto simp: glz_agree_Inl glz_run.simps [of ?step' g])
        next
          case (Inr g')
          then obtain t1 where "?step' g t = Some (Inr g', t1)" "R s1 t1"
            using S by (auto simp: glz_agree_Inr)
          moreover have "f ?step g' s1 = Some z" using False eq step st Inr by simp
          ultimately show ?thesis
            using IH False by (simp add: glz_run.simps [of ?step' g])
        qed
      qed
    qed
  qed
  then show ?thesis using assms(2) by (simp add: glz_core_def)
qed

end

end
