(* ===== verification/GlzUnsafe.thy ===== *)
theory GlzUnsafe
  imports GlzDecoder GlzSim
begin

text \<open>
  \<^verbatim>\<open>extra/glz/examples/decoder_unsafe.c\<close>: the decoder without bounds checks. It takes the
  size of the blob and ignores it; a read past the end is \<open>GlzOob\<close>. The result is that
  leaving out the checks changes nothing on the blobs that the checked decoder accepts.
\<close>

definition raw_rd1 :: "u8 list \<Rightarrow> u8 list glz_rd1" where
  "raw_rd1 blob a out =
     (if unat a < length blob then (Inr (blob ! unat a), out) else (Inl GlzOob, out))"

definition raw_rd2 :: "u8 list \<Rightarrow> u8 list glz_rd2" where
  "raw_rd2 blob a out =
     (if unat a < length blob \<and> unat (a + 1) < length blob
      then (Inr (blob ! unat a, blob ! unat (a + 1)), out)
      else (Inl GlzOob, out))"

definition glz_decode_unsafe ::
  "u8 \<Rightarrow> u8 list \<Rightarrow> u32 \<Rightarrow> u32 \<Rightarrow> nat \<Rightarrow> u32 \<Rightarrow> (glz_stop \<times> u8 list) option" where
  "glz_decode_unsafe k blob blob_size off cap sz =
     glz_core (raw_rd1 blob) (raw_rd2 blob) (buf_emit cap) k off sz []"

definition glz_getsize_unsafe :: "u8 list \<Rightarrow> u32 \<Rightarrow> glz_stop" where
  "glz_getsize_unsafe blob blob_size =
     (if blob_size < 8 then GlzRet GLZ_ERR_INVAL
      else if length blob < 8 then GlzOob
      else GlzRet (sint (le32 (blob ! 4) (blob ! 5) (blob ! 6) (blob ! 7))))"

definition glz_getoff_unsafe :: "u8 list \<Rightarrow> u32 \<Rightarrow> glz_stop" where
  "glz_getoff_unsafe blob blob_size =
     (if blob_size < 8 then GlzRet GLZ_ERR_INVAL
      else if length blob < 8 then GlzOob
      else GlzRet (sint (push_bit 0 (ucast (blob ! 0)) OR push_bit 8 (ucast (blob ! 1)) OR
        push_bit 16 (ucast (blob ! 2)) :: u32)))"

definition glz_getk_unsafe :: "u8 list \<Rightarrow> u32 \<Rightarrow> glz_stop" where
  "glz_getk_unsafe blob blob_size =
     (if blob_size < 8 then GlzRet GLZ_ERR_INVAL
      else if length blob < 8 then GlzOob
      else GlzRet (uint (0xf AND (blob ! 3))))"

definition glz_decode_all_unsafe ::
  "u8 list \<Rightarrow> u32 \<Rightarrow> nat \<Rightarrow> u32 \<Rightarrow> (glz_stop \<times> u8 list) option" where
  "glz_decode_all_unsafe blob blob_size cap sz =
     (if blob_size < 8 then Some (GlzRet GLZ_ERR_INVAL, [])
      else case (glz_getoff_unsafe blob blob_size, glz_getk_unsafe blob blob_size,
          glz_getsize_unsafe blob blob_size) of
        (GlzRet off, GlzRet k, GlzRet n) \<Rightarrow>
          let nsize = word_of_int n; sz' = (if nsize < sz then nsize else sz) in
          glz_decode_unsafe (word_of_int k) (drop 8 blob) (blob_size - 8) (word_of_int off) cap sz'
      | _ \<Rightarrow> Some (GlzOob, []))"

definition glz_decode_slice_unsafe ::
  "u8 list \<Rightarrow> u32 \<Rightarrow> u32 \<Rightarrow> nat \<Rightarrow> u32 \<Rightarrow> (glz_stop \<times> u8 list) option" where
  "glz_decode_slice_unsafe blob blob_size off cap sz =
     (if blob_size < 8 then Some (GlzRet GLZ_ERR_INVAL, [])
      else case glz_getk_unsafe blob blob_size of
        GlzRet k \<Rightarrow> glz_decode_unsafe (word_of_int k) (drop 8 blob) (blob_size - 8) off cap sz
      | GlzOob \<Rightarrow> Some (GlzOob, []))"

lemma unsafe_getters [simp]:
  "glz_getsize_unsafe = glz_getsize" "glz_getoff_unsafe = glz_getoff" "glz_getk_unsafe = glz_getk"
  by (simp_all add: fun_eq_iff glz_getsize_unsafe_def glz_getsize_def glz_getoff_unsafe_def
      glz_getoff_def glz_getk_unsafe_def glz_getk_def)

subsection \<open>The two decoders simulate each other\<close>

interpretation checked_raw: glz_sim "blob_rd1 blob blob_size" "blob_rd2 blob blob_size" "buf_emit cap"
    "raw_rd1 blob" "raw_rd2 blob" "buf_emit cap" "(=)" "\<lambda>e. e \<noteq> GlzRet 0"
  by unfold_locales
    (auto simp: glz_agree_def blob_rd1_def blob_rd2_def raw_rd1_def raw_rd2_def buf_emit_def
      GLZ_ERR_INVAL_def)

interpretation raw_checked: glz_sim "raw_rd1 blob" "raw_rd2 blob" "buf_emit cap"
    "blob_rd1 blob blob_size" "blob_rd2 blob blob_size" "buf_emit cap"
    "\<lambda>s t. s = t \<and> unat blob_size = length blob" "\<lambda>e. e = GlzOob"
  by unfold_locales
    (auto simp: glz_agree_def blob_rd1_def blob_rd2_def raw_rd1_def raw_rd2_def buf_emit_def
      word_le_nat_alt)

lemma unsafe_decode_iff:
  assumes "unat blob_size = length blob"
  shows "glz_decode_unsafe k blob n off cap sz = Some (GlzRet 0, out) \<longleftrightarrow>
    glz_decode k blob blob_size off cap sz = Some (GlzRet 0, out)"
  using checked_raw.core_sim [of blob blob_size cap k off sz "[]" "GlzRet 0" out "[]"]
    raw_checked.core_sim [of blob cap k off sz "[]" "GlzRet 0" out "[]" blob_size] assms
  by (auto simp: glz_decode_unsafe_def glz_decode_def)

subsection \<open>Properties\<close>

text \<open>C26: the unchecked decoder accepts exactly the blobs the checked one accepts, with the
  same output: \<open>glz_decode_all\<close> of the two files agree on every blob that decodes.\<close>

theorem glz_decode_all_unsafe_iff:
  assumes "unat blob_size = length blob"
  shows "glz_decode_all_unsafe blob blob_size cap sz = Some (GlzRet 0, out) \<longleftrightarrow>
    glz_decode_all blob blob_size cap sz = Some (GlzRet 0, out)"
proof (cases "blob_size < 8")
  case True
  then show ?thesis by (simp add: glz_decode_all_unsafe_def glz_decode_all_def)
next
  case False
  then have "unat (blob_size - 8) = length (drop 8 blob)"
    using assms by (subst unat_sub) (auto simp: word_le_nat_alt word_less_nat_alt)
  note iff = unsafe_decode_iff [OF this]
  show ?thesis
    using False
    by (auto simp: glz_decode_all_unsafe_def glz_decode_all_def Let_def iff split: glz_stop.splits)
qed

theorem glz_decode_all_unsafe_iff_witness:
  "glz_decode_all_unsafe (glz_header 18 0 4 @ demo_body) 12 16 100 = Some (GlzRet 0, [65, 65, 65, 65])"
proof -
  have "glz_decode_all (glz_header 18 0 4 @ demo_body) 12 16 100 = Some (GlzRet 0, [65, 65, 65, 65])"
    by code_simp
  then show ?thesis
    using glz_decode_all_unsafe_iff [of 12 "glz_header 18 0 4 @ demo_body"] by (simp add: demo_body_def)
qed

end
