(* ===== verification/GlzStream.thy ===== *)
theory GlzStream
  imports GlzDecoder GlzSim
begin

text \<open>
  \<^verbatim>\<open>extra/glz/examples/decoder_stream.c\<close>: the output goes byte by byte through a callback
  \<open>write\<close>, a parameter here: it takes the bytes and the state of its side (the context and
  what it points to) and gives its result and the new state. A negative result ends the
  decoding. \<open>uint_fast16_t\<close> is little-endian, so the byte written is the low byte of \<open>rice\<close>.
\<close>

type_synonym 'c glz_write = "u8 list \<Rightarrow> 'c \<Rightarrow> int \<times> 'c"

definition stream_rd1 :: "u8 list \<Rightarrow> u32 \<Rightarrow> 'c glz_rd1" where
  "stream_rd1 blob blob_size a c =
     (if a \<ge> blob_size then (Inl (GlzRet GLZ_ERR_INVAL), c)
      else if unat a < length blob then (Inr (blob ! unat a), c)
      else (Inl GlzOob, c))"

definition stream_rd2 :: "u8 list \<Rightarrow> u32 \<Rightarrow> 'c glz_rd2" where
  "stream_rd2 blob blob_size a c =
     (if a + 1 \<ge> blob_size then (Inl (GlzRet GLZ_ERR_INVAL), c)
      else if unat a < length blob \<and> unat (a + 1) < length blob
      then (Inr (blob ! unat a, blob ! unat (a + 1)), c)
      else (Inl GlzOob, c))"

definition stream_emit :: "'c glz_write \<Rightarrow> 'c glz_emit" where
  "stream_emit wr b c =
     (case wr [b] c of (res, c') \<Rightarrow> if res < 0 then (Inl (GlzRet res), c') else (Inr (), c'))"

definition glz_decode_stream ::
  "u8 \<Rightarrow> u8 list \<Rightarrow> u32 \<Rightarrow> u32 \<Rightarrow> 'c glz_write \<Rightarrow> 'c \<Rightarrow> u32 \<Rightarrow> (glz_stop \<times> 'c) option" where
  "glz_decode_stream k blob blob_size off wr ctx sz =
     glz_core (stream_rd1 blob blob_size) (stream_rd2 blob blob_size) (stream_emit wr) k off sz ctx"

definition glz_getsize_stream :: "u8 list \<Rightarrow> u32 \<Rightarrow> glz_stop" where
  "glz_getsize_stream blob blob_size =
     (if blob_size < 8 then GlzRet GLZ_ERR_INVAL
      else if length blob < 8 then GlzOob
      else GlzRet (sint (le32 (blob ! 4) (blob ! 5) (blob ! 6) (blob ! 7))))"

definition glz_getoff_stream :: "u8 list \<Rightarrow> u32 \<Rightarrow> glz_stop" where
  "glz_getoff_stream blob blob_size =
     (if blob_size < 8 then GlzRet GLZ_ERR_INVAL
      else if length blob < 8 then GlzOob
      else GlzRet (sint (push_bit 0 (ucast (blob ! 0)) OR push_bit 8 (ucast (blob ! 1)) OR
        push_bit 16 (ucast (blob ! 2)) :: u32)))"

definition glz_getk_stream :: "u8 list \<Rightarrow> u32 \<Rightarrow> glz_stop" where
  "glz_getk_stream blob blob_size =
     (if blob_size < 8 then GlzRet GLZ_ERR_INVAL
      else if length blob < 8 then GlzOob
      else GlzRet (uint (0xf AND (blob ! 3))))"

definition glz_decode_all_stream ::
  "u8 list \<Rightarrow> u32 \<Rightarrow> 'c glz_write \<Rightarrow> 'c \<Rightarrow> u32 \<Rightarrow> (glz_stop \<times> 'c) option" where
  "glz_decode_all_stream blob blob_size wr ctx sz =
     (if blob_size < 8 then Some (GlzRet GLZ_ERR_INVAL, ctx)
      else case (glz_getoff_stream blob blob_size, glz_getk_stream blob blob_size,
          glz_getsize_stream blob blob_size) of
        (GlzRet off, GlzRet k, GlzRet n) \<Rightarrow>
          let nsize = word_of_int n; sz' = (if nsize < sz then nsize else sz) in
          glz_decode_stream (word_of_int k) (drop 8 blob) (blob_size - 8) (word_of_int off) wr ctx sz'
      | _ \<Rightarrow> Some (GlzOob, ctx))"

definition glz_decode_slice_stream ::
  "u8 list \<Rightarrow> u32 \<Rightarrow> u32 \<Rightarrow> 'c glz_write \<Rightarrow> 'c \<Rightarrow> u32 \<Rightarrow> (glz_stop \<times> 'c) option" where
  "glz_decode_slice_stream blob blob_size off wr ctx sz =
     (if blob_size < 8 then Some (GlzRet GLZ_ERR_INVAL, ctx)
      else case glz_getk_stream blob blob_size of
        GlzRet k \<Rightarrow> glz_decode_stream (word_of_int k) (drop 8 blob) (blob_size - 8) off wr ctx sz
      | GlzOob \<Rightarrow> Some (GlzOob, ctx))"

lemma stream_getters [simp]:
  "glz_getsize_stream = glz_getsize" "glz_getoff_stream = glz_getoff" "glz_getk_stream = glz_getk"
  by (simp_all add: fun_eq_iff glz_getsize_stream_def glz_getsize_def glz_getoff_stream_def
      glz_getoff_def glz_getk_stream_def glz_getk_def)

subsection \<open>The stream decoder simulates the buffer decoder\<close>

definition wr_all :: "'c glz_write \<Rightarrow> u8 list \<Rightarrow> 'c \<Rightarrow> 'c" where
  "wr_all wr bs c = fold (\<lambda>b. snd \<circ> wr [b]) bs c"

definition wr_succeeds :: "'c glz_write \<Rightarrow> bool" where
  "wr_succeeds wr \<longleftrightarrow> (\<forall>b c. 0 \<le> fst (wr [b] c))"

interpretation buf_stream: glz_sim "blob_rd1 blob blob_size" "blob_rd2 blob blob_size" "buf_emit cap"
    "stream_rd1 blob blob_size" "stream_rd2 blob blob_size" "stream_emit wr"
    "\<lambda>out c. wr_succeeds wr \<and> c = wr_all wr out c0" "\<lambda>e. e = GlzOob"
proof
  fix out c b
  assume "wr_succeeds wr \<and> c = wr_all wr out c0"
  then show "glz_agree (\<lambda>e. e = GlzOob) (\<lambda>out c. wr_succeeds wr \<and> c = wr_all wr out c0)
      (buf_emit cap b out) (stream_emit wr b c)"
    by (auto simp: glz_agree_def buf_emit_def stream_emit_def wr_all_def wr_succeeds_def
        split: prod.splits) (metis fst_conv not_less)
qed (auto simp: glz_agree_def blob_rd1_def blob_rd2_def stream_rd1_def stream_rd2_def)

lemma stream_decode_eq:
  assumes "wr_succeeds wr" and "glz_decode k blob blob_size off cap sz = Some (e, out)"
    and "e \<noteq> GlzOob"
  shows "glz_decode_stream k blob blob_size off wr c sz = Some (e, wr_all wr out c)"
  using buf_stream.core_sim [of blob blob_size cap k off sz "[]" e out wr c c] assms
  by (auto simp: glz_decode_def glz_decode_stream_def wr_all_def)

subsection \<open>Properties\<close>

text \<open>C27: the streaming decoder delivers what the buffer decoder stores. When no write fails,
  then on any blob on which \<open>glz_decode_all\<close> of decoder.c returns within its arrays, that of
  decoder_stream.c returns the same value, after one call of the callback for each byte the
  other one stored, in the same order.\<close>

theorem glz_decode_all_stream_eq:
  assumes "wr_succeeds wr" and "glz_decode_all blob blob_size cap sz = Some (e, out)"
    and "e \<noteq> GlzOob"
  shows "glz_decode_all_stream blob blob_size wr c sz = Some (e, wr_all wr out c)"
proof (cases "blob_size < 8")
  case True
  then show ?thesis
    using assms by (auto simp: glz_decode_all_stream_def glz_decode_all_def wr_all_def)
next
  case False
  then show ?thesis
    using assms stream_decode_eq [OF assms(1) _ assms(3)]
    by (auto simp: glz_decode_all_stream_def glz_decode_all_def Let_def split: glz_stop.splits)
qed

theorem glz_decode_all_stream_eq_witness:
  "glz_decode_all_stream (glz_header 18 0 4 @ demo_body) 12 (\<lambda>bs c. (1, c @ bs)) [9] 100
     = Some (GlzRet 0, [9, 65, 65, 65, 65])"
proof -
  have "glz_decode_all (glz_header 18 0 4 @ demo_body) 12 16 100 = Some (GlzRet 0, [65, 65, 65, 65])"
    by code_simp
  from glz_decode_all_stream_eq [OF _ this, of "\<lambda>bs c. (1, c @ bs)" "[9]"] show ?thesis
    by (simp add: wr_succeeds_def wr_all_def)
qed

end
