(* ===== verification/GlzSeek.thy ===== *)
theory GlzSeek
  imports GlzDecoder
begin

text \<open>
  \<^verbatim>\<open>extra/glz/examples/decoder_seek.c\<close>: compressed bytes come through a \<open>read\<close> and a
  \<open>seek\<close> callback, output goes through \<open>write\<close>. The callbacks are parameters over a
  state \<open>'w\<close>; \<open>'c\<close> is the type of a context pointer. A read gives its result and the bytes it
  stores at the start of the buffer. Local buffers start with arbitrary contents \<open>junk\<close>.
  A comparison \<open>res < sizeof(buf)\<close> is unsigned, so that a negative \<open>res\<close> is not smaller.
\<close>

type_synonym ('c, 'w) glz_read = "'c \<Rightarrow> u32 \<Rightarrow> 'w \<Rightarrow> (int \<times> u8 list) \<times> 'w"
type_synonym ('c, 'w) glz_seek = "'c \<Rightarrow> u32 \<Rightarrow> 'w \<Rightarrow> int \<times> 'w"
type_synonym ('c, 'w) glz_write_cb = "'c \<Rightarrow> u8 list \<Rightarrow> 'w \<Rightarrow> int \<times> 'w"

definition fill :: "u8 list \<Rightarrow> nat \<Rightarrow> u8 list \<Rightarrow> u8 list" where
  "fill buf n bs = take n bs @ drop (length (take n bs)) buf"

lemma length_fill: "n \<le> length buf \<Longrightarrow> length (fill buf n bs) = length buf"
  by (simp add: fill_def)

lemma fill_all [simp]: "length bs = n \<Longrightarrow> fill buf n bs = bs @ drop n buf"
  by (simp add: fill_def)

subsection \<open>The decoder\<close>

definition seek_rd1 ::
  "('c, 'w) glz_read \<Rightarrow> 'c \<Rightarrow> ('d, 'w) glz_seek \<Rightarrow> 'd \<Rightarrow> ('w \<times> u8 list) glz_rd1" where
  "seek_rd1 rd rctx sk sctx a st =
     (let (w, buf) = st; (res, w1) = sk sctx a w in
      if res < 0 then (Inl (GlzRet res), (w1, buf))
      else let ((res', bs), w2) = rd rctx 1 w1; buf' = fill buf 1 bs in
        if res' < 1 then
          (if res' < 0 then (Inl (GlzRet res'), (w2, buf')) else (Inl (GlzRet GLZ_ERR_INVAL), (w2, buf')))
        else (Inr (buf' ! 0), (w2, buf')))"

definition seek_rd2 ::
  "('c, 'w) glz_read \<Rightarrow> 'c \<Rightarrow> ('d, 'w) glz_seek \<Rightarrow> 'd \<Rightarrow> ('w \<times> u8 list) glz_rd2" where
  "seek_rd2 rd rctx sk sctx a st =
     (let (w, buf) = st; (res, w1) = sk sctx a w in
      if res < 0 then (Inl (GlzRet res), (w1, buf))
      else let ((res', bs), w2) = rd rctx 2 w1; buf' = fill buf 2 bs in
        if res' < 2 then
          (if res' < 0 then (Inl (GlzRet res'), (w2, buf')) else (Inl (GlzRet GLZ_ERR_INVAL), (w2, buf')))
        else (Inr (buf' ! 0, buf' ! 1), (w2, buf')))"

definition seek_emit :: "('c, 'w) glz_write_cb \<Rightarrow> 'c \<Rightarrow> ('w \<times> u8 list) glz_emit" where
  "seek_emit wr wctx b st =
     (let (w, buf) = st; (res, w1) = wr wctx [b] w in
      if res < 0 then (Inl (GlzRet res), (w1, buf)) else (Inr (), (w1, buf)))"

definition glz_decode_seek ::
  "u8 list \<Rightarrow> u8 \<Rightarrow> ('c, 'w) glz_read \<Rightarrow> 'c \<Rightarrow> ('d, 'w) glz_seek \<Rightarrow> 'd \<Rightarrow> u32
     \<Rightarrow> ('c, 'w) glz_write_cb \<Rightarrow> 'c \<Rightarrow> u32 \<Rightarrow> 'w \<Rightarrow> (glz_stop \<times> 'w) option" where
  "glz_decode_seek junk k rd rctx sk sctx off wr wctx sz w =
     map_option (\<lambda>(e, st). (e, fst st))
       (glz_core (seek_rd1 rd rctx sk sctx) (seek_rd2 rd rctx sk sctx) (seek_emit wr wctx)
          k off sz (w, junk))"

subsection \<open>Metadata\<close>

definition glz_getsize_seek ::
  "u8 list \<Rightarrow> ('c, 'w) glz_read \<Rightarrow> 'c \<Rightarrow> ('c, 'w) glz_seek \<Rightarrow> 'c \<Rightarrow> 'w \<Rightarrow> glz_stop \<times> 'w" where
  "glz_getsize_seek junk rd rctx sk sctx w =
     (let (res, w1) = sk sctx 4 w in
      if res < 0 then (GlzRet res, w1)
      else let ((res', bs), w2) = rd rctx 4 w1; buf = fill junk 4 bs in
        if (word_of_int res' :: u32) < 4 then
          (if res' < 0 then (GlzRet res', w2) else (GlzRet GLZ_ERR_INVAL, w2))
        else (GlzRet (sint (le32 (buf ! 0) (buf ! 1) (buf ! 2) (buf ! 3))), w2))"

text \<open>The source reads three bytes into \<^verbatim>\<open>uint8_t buf[3]\<close> and then takes \<^verbatim>\<open>buf[4]\<close>,
  \<^verbatim>\<open>buf[5]\<close> and \<^verbatim>\<open>buf[6]\<close>.\<close>

definition glz_getoff_seek ::
  "u8 list \<Rightarrow> ('c, 'w) glz_read \<Rightarrow> 'c \<Rightarrow> ('c, 'w) glz_seek \<Rightarrow> 'c \<Rightarrow> 'w \<Rightarrow> glz_stop \<times> 'w" where
  "glz_getoff_seek junk rd rctx sk sctx w =
     (let (res, w1) = sk sctx 0 w in
      if res < 0 then (GlzRet res, w1)
      else let ((res', bs), w2) = rd rctx 3 w1; buf = fill junk 3 bs in
        if (word_of_int res' :: u32) < 3 then
          (if res' < 0 then (GlzRet res', w2) else (GlzRet GLZ_ERR_INVAL, w2))
        else if 6 < length buf
          then (GlzRet (sint (push_bit 0 (ucast (buf ! 4)) OR push_bit 8 (ucast (buf ! 5)) OR
            push_bit 16 (ucast (buf ! 6)) :: u32)), w2)
        else (GlzOob, w2))"

definition glz_getk_seek ::
  "u8 list \<Rightarrow> ('c, 'w) glz_read \<Rightarrow> 'c \<Rightarrow> ('c, 'w) glz_seek \<Rightarrow> 'c \<Rightarrow> 'w \<Rightarrow> int \<times> 'w" where
  "glz_getk_seek junk rd rctx sk sctx w =
     (let (res, w1) = sk sctx 3 w in
      if res < 0 then (res, w1)
      else let ((res', bs), w2) = rd rctx 1 w1; buf = fill junk 1 bs in
        if (word_of_int res' :: u32) < 1 then
          (if res' < 0 then (res', w2) else (GLZ_ERR_INVAL, w2))
        else (uint (0xf AND (buf ! 0)), w2))"

subsection \<open>Whole blobs and slices\<close>

record ('c, 'w) glz_decode_all_seek_ctx =
  sc_seek :: "('c, 'w) glz_seek"
  sc_ctx :: 'c
  sc_off :: u32

definition glz_decode_all_seek_cb ::
  "('c, 'w) glz_decode_all_seek_ctx \<Rightarrow> u32 \<Rightarrow> 'w \<Rightarrow> int \<times> 'w" where
  "glz_decode_all_seek_cb p off w = sc_seek p (sc_ctx p) (off - sc_off p) w"

definition glz_decode_all_seek ::
  "u8 list \<Rightarrow> u8 list \<Rightarrow> ('c, 'w) glz_read \<Rightarrow> 'c \<Rightarrow> ('c, 'w) glz_seek \<Rightarrow> 'c
     \<Rightarrow> ('c, 'w) glz_write_cb \<Rightarrow> 'c \<Rightarrow> u32 \<Rightarrow> 'w \<Rightarrow> (glz_stop \<times> 'w) option" where
  "glz_decode_all_seek junk junk2 rd rctx sk sctx wr wctx sz w =
     (let (res, w1) = sk sctx 0 w in
      if res < 0 then Some (GlzRet res, w1)
      else let ((res', bs), w2) = rd rctx 8 w1; buf = fill junk 8 bs in
        if (word_of_int res' :: u32) < 8 then
          (if res' < 0 then Some (GlzRet res', w2) else Some (GlzRet GLZ_ERR_INVAL, w2))
        else
          let off = push_bit 0 (ucast (buf ! 0)) OR push_bit 8 (ucast (buf ! 1)) OR
                push_bit 16 (ucast (buf ! 2));
              k = 0xf AND (buf ! 3);
              nsize = le32 (buf ! 4) (buf ! 5) (buf ! 6) (buf ! 7);
              sz' = (if nsize < sz then nsize else sz)
          in glz_decode_seek junk2 k rd rctx
               glz_decode_all_seek_cb \<lparr>sc_seek = sk, sc_ctx = rctx, sc_off = -8\<rparr>
               off wr wctx sz' w2)"

definition glz_decode_slice_seek ::
  "u8 list \<Rightarrow> u8 list \<Rightarrow> ('c, 'w) glz_read \<Rightarrow> 'c \<Rightarrow> ('c, 'w) glz_seek \<Rightarrow> 'c \<Rightarrow> u32
     \<Rightarrow> ('c, 'w) glz_write_cb \<Rightarrow> 'c \<Rightarrow> u32 \<Rightarrow> 'w \<Rightarrow> (glz_stop \<times> 'w) option" where
  "glz_decode_slice_seek junk junk2 rd rctx sk sctx off wr wctx sz w =
     (let (k, w1) = glz_getk_seek junk rd rctx sk sctx w in
      if k < 0 then Some (GlzRet k, w1)
      else glz_decode_seek junk2 (word_of_int k) rd rctx
             glz_decode_all_seek_cb \<lparr>sc_seek = sk, sc_ctx = rctx, sc_off = -8\<rparr>
             off wr wctx sz w1)"

subsection \<open>The callbacks of the command line tool\<close>

text \<open>\<^verbatim>\<open>main\<close> passes \<^verbatim>\<open>FILE\<close> pointers. A stream holds its bytes, its position and its error
  indicator (an \<open>errno\<close>, 0 when none); a stream in error transfers nothing.\<close>

datatype glz_stream = Input | Stdout

record glz_file =
  f_bytes :: "u8 list"
  f_pos :: nat
  f_err :: int

type_synonym glz_files = "glz_stream \<Rightarrow> glz_file"

definition main_read :: "(glz_stream, glz_files) glz_read" where
  "main_read ctx n w =
     (let f = w ctx; bs = take (unat n) (drop (f_pos f) (f_bytes f)) in
      if f_err f \<noteq> 0 then ((- f_err f, []), w)
      else ((int (length bs), bs), w(ctx := f\<lparr>f_pos := f_pos f + length bs\<rparr>)))"

definition main_seek :: "(glz_stream, glz_files) glz_seek" where
  "main_seek ctx off w =
     (sint off, w(ctx := (w ctx)\<lparr>f_pos := unat off\<rparr>))"

definition main_write :: "(glz_stream, glz_files) glz_write_cb" where
  "main_write ctx bs w =
     (let f = w ctx in
      if f_err f \<noteq> 0 then (- f_err f, w)
      else (int (length bs), w(ctx := f\<lparr>
        f_bytes := take (f_pos f) (f_bytes f) @ bs @ drop (f_pos f + length bs) (f_bytes f),
        f_pos := f_pos f + length bs\<rparr>)))"

definition files_good :: "u8 list \<Rightarrow> glz_files \<times> u8 list \<Rightarrow> bool" where
  "files_good img st \<longleftrightarrow>
     f_bytes (fst st Input) = img \<and> f_err (fst st Input) = 0 \<and> f_err (fst st Stdout) = 0 \<and>
     f_pos (fst st Stdout) = length (f_bytes (fst st Stdout)) \<and> length (snd st) = 2"

lemma small_off:
  fixes a :: u32
  assumes "glz_small body" and "unat a < length body"
  shows "unat (a + 8) = unat a + 8" and "0 \<le> sint (a + 8)"
proof -
  have lt: "unat a + 8 < 2 ^ 31" using assms by (simp add: glz_small_def)
  then show u: "unat (a + 8) = unat a + 8" by (subst unat_add_nat) auto
  have "sint (a + 8) = int (unat (a + 8))"
    using lt u by (intro sint_eq_unat) simp
  then show "0 \<le> sint (a + 8)" by simp
qed

interpretation files: glz_source
    "seek_rd1 main_read Input glz_decode_all_seek_cb \<lparr>sc_seek = main_seek, sc_ctx = Input, sc_off = -8\<rparr>"
    "seek_rd2 main_read Input glz_decode_all_seek_cb \<lparr>sc_seek = main_seek, sc_ctx = Input, sc_off = -8\<rparr>"
    "seek_emit main_write Stdout"
    body cap "files_good (glz_header off0 k0 n0 @ body)" "\<lambda>st. f_bytes (fst st Stdout)"
proof
  fix s :: "glz_files \<times> u8 list" and a :: u32
  let ?img = "glz_header off0 k0 n0 @ body"
  assume small: "glz_small body" and good: "files_good ?img s"
  obtain w buf where s: "s = (w, buf)" by fastforce
  have nth: "?img ! (i + 8) = body ! i" for i
    by (simp add: nth_append)
  {
    assume a: "unat a < length body"
    then have "take (unat (1 :: u32)) (drop (unat (a + 8)) ?img) = [body ! unat a]"
      using nth [of "unat a"] small_off [OF small a] by (simp add: take_1_drop)
    then show "\<exists>s'. seek_rd1 main_read Input glz_decode_all_seek_cb
        \<lparr>sc_seek = main_seek, sc_ctx = Input, sc_off = -8\<rparr> a s = (Inr (body ! unat a), s') \<and>
        files_good ?img s' \<and> f_bytes (fst s' Stdout) = f_bytes (fst s Stdout)"
      using good small_off [OF small a] s
      by (auto simp: seek_rd1_def main_read_def main_seek_def glz_decode_all_seek_cb_def
          files_good_def Let_def fill_def)
  }
  {
    assume a: "unat a + 1 < length body"
    then have a': "unat a < length body" by simp
    have "take (unat (2 :: u32)) (drop (unat (a + 8)) ?img) = [body ! unat a, body ! (unat a + 1)]"
      using nth [of "unat a"] nth [of "unat a + 1"] small_off [OF small a'] a by (simp add: take_2_drop)
    then show "\<exists>s'. seek_rd2 main_read Input glz_decode_all_seek_cb
        \<lparr>sc_seek = main_seek, sc_ctx = Input, sc_off = -8\<rparr> a s
          = (Inr (body ! unat a, body ! (unat a + 1)), s') \<and>
        files_good ?img s' \<and> f_bytes (fst s' Stdout) = f_bytes (fst s Stdout)"
      using good small_off [OF small a'] s
      by (auto simp: seek_rd2_def main_read_def main_seek_def glz_decode_all_seek_cb_def
          files_good_def Let_def fill_def)
  }
qed (auto simp: seek_emit_def main_write_def files_good_def Let_def)

lemma seek_decode_refines:
  assumes "glz_small body" and "glz_sem body (unat k) d (unat off) (unat sz) bs" and "d \<le> 1"
    and "files_good (glz_header off0 k0 n0 @ body) (w, junk)" and "f_bytes (w Stdout) = []"
  shows "\<exists>w'. glz_decode_seek junk k main_read Input glz_decode_all_seek_cb
      \<lparr>sc_seek = main_seek, sc_ctx = Input, sc_off = -8\<rparr> off main_write Stdout sz w
        = Some (GlzRet 0, w') \<and> f_bytes (w' Stdout) = bs"
  using files.core_refines [OF assms(1-4), of "unat sz"] assms(5)
  by (auto simp: glz_decode_seek_def)

lemma header_bytes:
  fixes off :: u32 and k :: u8
  assumes "off < 2 ^ 24" and "k < 16"
  shows "push_bit 0 (ucast (byte_of off 0)) OR push_bit 8 (ucast (byte_of off 1)) OR
      push_bit 16 (ucast (byte_of off 2)) = off" and "0xf AND (0x10 OR k) = k"
proof -
  have "byte_of off 3 = 0"
    using assms(1) by (simp add: byte_of_def drop_bit_eq_div div_word_less)
  then show "push_bit 0 (ucast (byte_of off 0)) OR push_bit 8 (ucast (byte_of off 1)) OR
      push_bit 16 (ucast (byte_of off 2)) = off"
    using le32_bytes [of off] by (simp add: le32_def)
  have "\<not> (8 :: u32) < 8" by simp
  from header_k [OF this assms(2), of 0 0 "[]"] have "uint (0xf AND (0x10 OR k)) = uint k"
    by (simp add: glz_getk_def glz_header_def)
  then show "0xf AND (0x10 OR k) = k" by (simp only: word_uint_eq_iff)
qed

subsection \<open>Properties\<close>

text \<open>C25: the decoder with read, seek and write callbacks implements the format over files. With
  the callbacks of the command line tool, an input file that holds the metadata and a body
  of meaning \<open>bs\<close>, and an empty output file, \<open>glz_decode_all\<close> returns 0 and the output file
  holds exactly \<open>bs\<close>, whatever the local buffers contained.\<close>

theorem glz_decode_all_seek_correct:
  assumes "off < 2 ^ 24" and "k < 16" and "8 * length body < 2 ^ 32"
    and "glz_sem body (unat k) d (unat off) (unat n) bs" and "d \<le> 1" and "n \<le> sz"
    and "f_bytes (w Input) = glz_header off k n @ body" and "f_err (w Input) = 0"
    and "w Stdout = \<lparr>f_bytes = [], f_pos = 0, f_err = 0\<rparr>"
    and "length junk = 8" and "length junk2 = 2"
  shows "\<exists>w'. glz_decode_all_seek junk junk2 main_read Input main_seek Input main_write Stdout sz w
      = Some (GlzRet 0, w') \<and> f_bytes (w' Stdout) = bs"
proof -
  let ?w = "w(Input := (w Input)\<lparr>f_pos := 8\<rparr>)"
  have hdr: "take 8 (f_bytes (w Input)) = glz_header off k n"
    using assms(7) by simp
  have sz: "n < sz \<or> n = sz" using assms(6) by auto
  have "glz_decode_all_seek junk junk2 main_read Input main_seek Input main_write Stdout sz w =
      glz_decode_seek junk2 k main_read Input glz_decode_all_seek_cb
        \<lparr>sc_seek = main_seek, sc_ctx = Input, sc_off = -8\<rparr> off main_write Stdout n ?w"
    using sz assms(8) header_bytes [OF assms(1,2)] le32_bytes [of n]
    by (elim disjE; simp add: glz_decode_all_seek_def main_seek_def main_read_def hdr Let_def)
      (simp_all add: glz_header_def)
  moreover have "files_good (glz_header off k n @ body) (?w, junk2)"
    using assms by (simp add: files_good_def)
  ultimately show ?thesis
    using seek_decode_refines [OF _ assms(4,5), of off k n ?w junk2] assms by (simp add: glz_small_def)
qed

lemma length_demo_body: "length demo_body = 4"
  by (simp add: demo_body_def)

definition demo_files :: glz_files where
  "demo_files h = (case h of
     Input \<Rightarrow> \<lparr>f_bytes = glz_header 18 0 4 @ demo_body, f_pos = 3, f_err = 0\<rparr>
   | Stdout \<Rightarrow> \<lparr>f_bytes = [], f_pos = 0, f_err = 0\<rparr>)"

theorem glz_decode_all_seek_correct_witness:
  "\<exists>w'. glz_decode_all_seek (replicate 8 0) [0, 0] main_read Input main_seek Input main_write Stdout
      100 demo_files = Some (GlzRet 0, w') \<and> f_bytes (w' Stdout) = [65, 65, 65, 65]"
  by (rule glz_decode_all_seek_correct [where off = 18 and k = 0 and body = demo_body and d = 1 and n = 4])
    (simp_all add: demo_files_def demo_meaning [simplified] length_demo_body)

text \<open>\<open>glz_getoff\<close> of decoder_seek.c reads outside of its buffer. Whenever the seek and the
  read of the three bytes succeed, the function goes on to bytes 4, 5 and 6 of an array of
  three.\<close>

theorem glz_getoff_seek_out_of_bounds:
  assumes "length junk = 3" and "sk sctx 0 w = (res, w1)" and "0 \<le> res"
    and "rd rctx 3 w1 = ((3, bs), w2)"
  shows "glz_getoff_seek junk rd rctx sk sctx w = (GlzOob, w2)"
  using assms by (simp add: glz_getoff_seek_def length_fill)

theorem glz_getoff_seek_out_of_bounds_witness:
  "fst (glz_getoff_seek [0, 0, 0] main_read Input main_seek Input demo_files) = GlzOob"
proof -
  have "main_seek Input 0 demo_files = (0, demo_files(Input := (demo_files Input)\<lparr>f_pos := 0\<rparr>))"
    by (simp add: main_seek_def)
  moreover have "main_read Input 3 (demo_files(Input := (demo_files Input)\<lparr>f_pos := 0\<rparr>)) =
      ((3, [18, 0, 0]), demo_files(Input := (demo_files Input)\<lparr>f_pos := Suc (Suc (Suc 0))\<rparr>))"
    by (simp add: main_read_def demo_files_def glz_header_def byte_of_def Let_def demo_body_def)
  ultimately show ?thesis
    using glz_getoff_seek_out_of_bounds
      [of "[0, 0, 0]" main_seek Input demo_files 0 _ main_read Input "[18, 0, 0]"] by simp
qed

text \<open>\<open>glz_getsize\<close> of decoder_seek.c does not report a failed read. A negative result of
  the callback passes the unsigned comparison with the size of the buffer, and the function
  returns the uninitialised buffer as the size of the output.\<close>

theorem glz_getsize_seek_hides_errors:
  assumes "sk sctx 4 w = (res, w1)" and "0 \<le> res"
    and "rd rctx 4 w1 = ((err, []), w2)" and "err < 0" and "-4096 < err" and "length junk = 4"
  shows "glz_getsize_seek junk rd rctx sk sctx w =
    (GlzRet (sint (le32 (junk ! 0) (junk ! 1) (junk ! 2) (junk ! 3))), w2)"
proof -
  have "\<not> (word_of_int err :: u32) < 4"
  proof -
    have "err mod 2 ^ 32 = (err + 2 ^ 32) mod 2 ^ 32"
      by simp
    also have "\<dots> = err + 2 ^ 32"
      using assms(4,5) by (intro mod_pos_pos_trivial) auto
    finally have "uint (word_of_int err :: u32) = err + 2 ^ 32"
      by (simp add: uint_word_of_int)
    then show ?thesis using assms(5) by (simp add: word_less_def)
  qed
  then show ?thesis
    using assms by (simp add: glz_getsize_seek_def fill_def)
qed

definition broken_files :: glz_files where
  "broken_files h = \<lparr>f_bytes = [], f_pos = 0, f_err = 5\<rparr>"

theorem glz_getsize_seek_hides_errors_witness:
  "fst (glz_getsize_seek [1, 0, 0, 0] main_read Input main_seek Input broken_files) = GlzRet 1"
proof -
  have "main_seek Input 4 broken_files = (4, broken_files(Input := (broken_files Input)\<lparr>f_pos := 4\<rparr>))"
    by (simp add: main_seek_def)
  moreover have "main_read Input 4 (broken_files(Input := (broken_files Input)\<lparr>f_pos := 4\<rparr>)) =
      ((-5, []), broken_files(Input := (broken_files Input)\<lparr>f_pos := 4\<rparr>))"
    by (simp add: main_read_def broken_files_def)
  ultimately show ?thesis
    using glz_getsize_seek_hides_errors
      [of main_seek Input broken_files 4 _ main_read Input "-5" _ "[1, 0, 0, 0]"]
    by (simp add: le32_def)
qed

end
