(* ===== verification/BoxMpu.thy ===== *)
theory BoxMpu
  imports BoxErrors
begin

text \<open>
  The MPU drivers of the generated glue: \<^verbatim>\<open>__box_mpu_init\<close> and \<^verbatim>\<open>__box_mpu_switch\<close> for
  Armv7-M (examples/armv7m-mpu-hello/bb.c) and Armv8-M (examples/armv8m-mpu-hello/bb.c).

  \<^item> A memory-mapped register is an address. What the code does to the registers is the
    list of its stores in program order; a load is a parameter \<open>hw\<close>, a function of the
    stores so far and the address.
  \<^item> What the stores mean is the Arm architecture: \<open>v7_view\<close> and \<open>v8_view\<close> replay a list of
    stores into the region table, \<open>v7_allows\<close> and \<open>v8_allows\<close> decide an access. They are the
    specification against which the drivers are proved; no code maps to them.
\<close>

type_synonym mmio = "(u32 \<times> u32) list"
type_synonym mmio_load = "mmio \<Rightarrow> u32 \<Rightarrow> u32"

text \<open>How a routine of the glue fails to return: it halts in \<^verbatim>\<open>__box_abort\<close> with an error
  number, it calls the user's abort handler of a box, or it leaves the bounds of an array.\<close>

datatype box_stop = Halted int | UserAbort nat int | OutOfBounds

record box_mpuregions =
  mr_control :: u32
  mr_count :: u32
  mr_regions :: "(u32 \<times> u32) list"

definition SHCSR :: u32 where "SHCSR = 0xe000ed24"
definition MPU_TYPE :: u32 where "MPU_TYPE = 0xe000ed90"
definition MPU_CTRL :: u32 where "MPU_CTRL = 0xe000ed94"
definition MPU_RNR :: u32 where "MPU_RNR = 0xe000ed98"
definition MPU_RBAR :: u32 where "MPU_RBAR = 0xe000ed9c"
definition MPU_RASR :: u32 where "MPU_RASR = 0xe000eda0"
definition MPU_RLAR :: u32 where "MPU_RLAR = 0xe000eda0"
definition MPU_MAIR0 :: u32 where "MPU_MAIR0 = 0xe000edc0"

lemmas mpu_addrs =
  SHCSR_def MPU_TYPE_def MPU_CTRL_def MPU_RNR_def MPU_RBAR_def MPU_RASR_def MPU_RLAR_def MPU_MAIR0_def

subsection \<open>Armv7-M\<close>

definition box_mpu_init :: "mmio_load \<Rightarrow> u32 \<Rightarrow> mmio \<Rightarrow> (box_stop + int) \<times> mmio" where
  "box_mpu_init hw callregion log =
     (if hw log MPU_CTRL AND 0x1 = 0 then
        if \<not> hw log MPU_TYPE \<ge> 4 then (Inl (Halted (-1)), log)
        else (Inr 0, log @
          [(SHCSR, hw log SHCSR OR 0x00070000),
           (MPU_RBAR, callregion OR 0x10),
           (MPU_RASR, 0x10000001 OR push_bit 1 (6 - 1)),
           (MPU_CTRL, 5)])
      else (Inr 0, log))"

definition box_mpu_region :: "box_mpuregions \<Rightarrow> nat \<Rightarrow> mmio" where
  "box_mpu_region regions i =
     (if word_of_nat i < mr_count regions
      then [(MPU_RBAR, fst (mr_regions regions ! i) OR 0x10 OR word_of_nat (i + 1)),
            (MPU_RASR, snd (mr_regions regions ! i))]
      else [(MPU_RBAR, 0x10 OR word_of_nat (i + 1)), (MPU_RASR, 0)])"

definition box_mpu_switch :: "box_mpuregions \<Rightarrow> mmio \<times> u32 \<Rightarrow> mmio \<times> u32" where
  "box_mpu_switch regions st =
     (fst st @ [(MPU_CTRL, 0)] @ concat (map (box_mpu_region regions) [0, 1, 2, 3]) @ [(MPU_CTRL, 5)],
      (NOT 1 AND snd st) OR mr_control regions)"

subsection \<open>Armv8-M\<close>

definition box_mpu_init_v8 :: "mmio_load \<Rightarrow> u32 \<Rightarrow> mmio \<Rightarrow> (box_stop + int) \<times> mmio" where
  "box_mpu_init_v8 hw callregion log =
     (if hw log MPU_CTRL AND 0x1 = 0 then
        if \<not> hw log MPU_TYPE \<ge> 4 then (Inl (Halted (-1)), log)
        else (Inr 0, log @
          [(SHCSR, hw log SHCSR OR 0x00070000),
           (MPU_RNR, 0),
           (MPU_MAIR0, 0x00000044),
           (MPU_RBAR, callregion OR 0x1),
           (MPU_RLAR, (NOT 0x1f AND (callregion + 1048576 - 1)) OR 0x1),
           (MPU_CTRL, 5)])
      else (Inr 0, log))"

definition box_mpu_region_v8 :: "box_mpuregions \<Rightarrow> nat \<Rightarrow> mmio" where
  "box_mpu_region_v8 regions i =
     (if word_of_nat i < mr_count regions
      then [(MPU_RNR, word_of_nat (i + 1)),
            (MPU_RBAR, fst (mr_regions regions ! i)), (MPU_RLAR, snd (mr_regions regions ! i))]
      else [(MPU_RNR, word_of_nat (i + 1)), (MPU_RBAR, 0), (MPU_RLAR, 0)])"

definition box_mpu_switch_v8 :: "box_mpuregions \<Rightarrow> mmio \<times> u32 \<Rightarrow> mmio \<times> u32" where
  "box_mpu_switch_v8 regions st =
     (fst st @ [(MPU_CTRL, 0)] @ concat (map (box_mpu_region_v8 regions) [0, 1, 2, 3]) @ [(MPU_CTRL, 5)],
      (NOT 1 AND snd st) OR mr_control regions)"

subsection \<open>The region tables of the examples\<close>

definition box1_mpuregions :: box_mpuregions where
  "box1_mpuregions = \<lparr>mr_control = 1, mr_count = 2,
     mr_regions = [(0x000fe000, 0x02000019), (0x2003e000, 0x13000019)]\<rparr>"

definition box2_mpuregions :: box_mpuregions where
  "box2_mpuregions = \<lparr>mr_control = 1, mr_count = 2,
     mr_regions = [(0x000fc000, 0x02000019), (0x2003c000, 0x13000019)]\<rparr>"

definition sys_mpuregions :: box_mpuregions where
  "sys_mpuregions = \<lparr>mr_control = 0, mr_count = 0, mr_regions = []\<rparr>"

definition box1_mpuregions_v8 :: box_mpuregions where
  "box1_mpuregions_v8 = \<lparr>mr_control = 1, mr_count = 2,
     mr_regions = [(0x000fe006, 0x000fffe1), (0x2003e003, 0x2003ffe1)]\<rparr>"

definition box2_mpuregions_v8 :: box_mpuregions where
  "box2_mpuregions_v8 = \<lparr>mr_control = 1, mr_count = 2,
     mr_regions = [(0x000fc006, 0x000fdfe1), (0x2003c003, 0x2003dfe1)]\<rparr>"

definition box3_mpuregions_v8 :: box_mpuregions where
  "box3_mpuregions_v8 = \<lparr>mr_control = 1, mr_count = 2,
     mr_regions = [(0x000fa006, 0x000fbfe1), (0x2003a003, 0x2003bfe1)]\<rparr>"

subsection \<open>The architecture: region tables\<close>

record mpu_table =
  mt_on :: u32
  mt_rnr :: nat
  mt_base :: "nat \<Rightarrow> u32"
  mt_attr :: "nat \<Rightarrow> u32"

definition mpu_reset :: mpu_table where
  "mpu_reset = \<lparr>mt_on = 0, mt_rnr = 0, mt_base = (\<lambda>_. 0), mt_attr = (\<lambda>_. 0)\<rparr>"

text \<open>Armv7-M: a store to RBAR with bit 4 set selects the region of its low four bits.\<close>

definition v7_store :: "u32 \<times> u32 \<Rightarrow> mpu_table \<Rightarrow> mpu_table" where
  "v7_store s t =
     (let (a, v) = s in
      if a = MPU_CTRL then t\<lparr>mt_on := v\<rparr>
      else if a = MPU_RNR then t\<lparr>mt_rnr := unat v\<rparr>
      else if a = MPU_RBAR then
        let n = (if bit v 4 then unat (v AND 15) else mt_rnr t)
        in t\<lparr>mt_rnr := n, mt_base := (mt_base t)(n := v AND NOT 0x1f)\<rparr>
      else if a = MPU_RASR then t\<lparr>mt_attr := (mt_attr t)(mt_rnr t := v)\<rparr>
      else t)"

definition v7_view :: "mmio \<Rightarrow> mpu_table" where
  "v7_view log = fold v7_store log mpu_reset"

text \<open>Armv8-M: RNR selects; RBAR keeps its permission bits.\<close>

definition v8_store :: "u32 \<times> u32 \<Rightarrow> mpu_table \<Rightarrow> mpu_table" where
  "v8_store s t =
     (let (a, v) = s in
      if a = MPU_CTRL then t\<lparr>mt_on := v\<rparr>
      else if a = MPU_RNR then t\<lparr>mt_rnr := unat v\<rparr>
      else if a = MPU_RBAR then t\<lparr>mt_base := (mt_base t)(mt_rnr t := v)\<rparr>
      else if a = MPU_RLAR then t\<lparr>mt_attr := (mt_attr t)(mt_rnr t := v)\<rparr>
      else t)"

definition v8_view :: "mmio \<Rightarrow> mpu_table" where
  "v8_view log = fold v8_store log mpu_reset"

text \<open>The table holds exactly the regions of a box in entries 1 to 4, and the MPU is on with
  the default map for privileged code.\<close>

definition shows_regions :: "(u32 \<Rightarrow> u32) \<Rightarrow> mpu_table \<Rightarrow> box_mpuregions \<Rightarrow> bool" where
  "shows_regions f t r \<longleftrightarrow> mt_on t = 5 \<and>
     (\<forall>i\<in>{0, 1, 2, 3}. (mt_base t (i + 1), mt_attr t (i + 1)) =
        (if word_of_nat i < mr_count r then (f (fst (mr_regions r ! i)), snd (mr_regions r ! i))
         else (0, 0)))"

definition wf_regions :: "box_mpuregions \<Rightarrow> bool" where
  "wf_regions r \<longleftrightarrow> unat (mr_count r) \<le> min 4 (length (mr_regions r)) \<and>
     (\<forall>x\<in>set (mr_regions r). fst x AND 0x1f = 0)"

subsection \<open>What a switch does to the tables\<close>

lemma rbar_fields:
  fixes b :: u32
  assumes "b AND 0x1f = 0" and "i \<in> {0x10, 0x11, 0x12, 0x13, 0x14}"
  shows "bit (b OR i) 4" and "(b OR i) AND 15 = i - 0x10" and "(b OR i) AND NOT 0x1f = b"
proof -
  have "b = (b AND NOT 0x1f) OR (b AND 0x1f)"
    by (simp only: bit.conj_disj_distrib [symmetric]) simp
  then have b: "b AND NOT 0x1f = b" using assms(1) by simp
  have "b AND 15 = (b AND NOT 0x1f) AND 15" by (simp only: b)
  also have "\<dots> = 0" by (simp add: and.assoc)
  finally have b15: "b AND 15 = 0" .
  show "bit (b OR i) 4" using assms(2) by (auto simp: bit_or_iff)
  show "(b OR i) AND 15 = i - 0x10"
    using assms(2) by (auto simp: bit.conj_disj_distrib2 b15)
  show "(b OR i) AND NOT 0x1f = b"
    using assms(2) by (auto simp: bit.conj_disj_distrib2 b [simplified])
qed

lemma v7_view_append: "v7_view (log @ log') = fold v7_store log' (v7_view log)"
  by (simp add: v7_view_def)

lemma v8_view_append: "v8_view (log @ log') = fold v8_store log' (v8_view log)"
  by (simp add: v8_view_def)

lemma v7_region:
  assumes "wf_regions r" and "i \<in> {0, 1, 2, 3}"
  shows "fold v7_store (box_mpu_region r i) t = t\<lparr>mt_rnr := i + 1,
    mt_base := (mt_base t)(i + 1 := if word_of_nat i < mr_count r then fst (mr_regions r ! i) else 0),
    mt_attr := (mt_attr t)(i + 1 := if word_of_nat i < mr_count r then snd (mr_regions r ! i) else 0)\<rparr>"
proof (cases "word_of_nat i < mr_count r")
  case True
  then have "i < length (mr_regions r)"
    using assms by (auto simp: wf_regions_def word_less_nat_alt)
  then have "fst (mr_regions r ! i) AND 0x1f = 0"
    using assms(1) by (auto simp: wf_regions_def)
  note f = rbar_fields [OF this]
  show ?thesis
    using assms(2) True f [where i = "0x11"] f [where i = "0x12"] f [where i = "0x13"] f [where i = "0x14"]
    by (auto simp: box_mpu_region_def v7_store_def mpu_addrs Let_def or.assoc simp del: One_nat_def)
next
  case False
  moreover have "bit (2 :: int) 1" "bit (2 :: u32) 1" by simp_all
  ultimately show ?thesis
    using assms(2) by (auto simp: box_mpu_region_def v7_store_def mpu_addrs Let_def simp del: One_nat_def)
qed

lemma v8_region:
  assumes "i \<in> {0, 1, 2, 3}"
  shows "fold v8_store (box_mpu_region_v8 r i) t = t\<lparr>mt_rnr := i + 1,
    mt_base := (mt_base t)(i + 1 := if word_of_nat i < mr_count r then fst (mr_regions r ! i) else 0),
    mt_attr := (mt_attr t)(i + 1 := if word_of_nat i < mr_count r then snd (mr_regions r ! i) else 0)\<rparr>"
  using assms by (auto simp: box_mpu_region_v8_def v8_store_def mpu_addrs Let_def simp del: One_nat_def)

lemma v7_switch_view:
  assumes "wf_regions r"
  shows "shows_regions (\<lambda>b. b) (v7_view (fst (box_mpu_switch r st))) r"
    and "n \<notin> {1, 2, 3, 4} \<Longrightarrow> mt_base (v7_view (fst (box_mpu_switch r st))) n = mt_base (v7_view (fst st)) n"
    and "n \<notin> {1, 2, 3, 4} \<Longrightarrow> mt_attr (v7_view (fst (box_mpu_switch r st))) n = mt_attr (v7_view (fst st)) n"
  by (auto simp: box_mpu_switch_def v7_view_append v7_region [OF assms] shows_regions_def)
    (simp_all add: v7_store_def mpu_addrs)

lemma v8_switch_view:
  shows "shows_regions (\<lambda>b. b) (v8_view (fst (box_mpu_switch_v8 r st))) r"
    and "n \<notin> {1, 2, 3, 4} \<Longrightarrow> mt_base (v8_view (fst (box_mpu_switch_v8 r st))) n = mt_base (v8_view (fst st)) n"
    and "n \<notin> {1, 2, 3, 4} \<Longrightarrow> mt_attr (v8_view (fst (box_mpu_switch_v8 r st))) n = mt_attr (v8_view (fst st)) n"
  by (auto simp: box_mpu_switch_v8_def v8_view_append v8_region shows_regions_def)
    (simp_all add: v8_store_def mpu_addrs)

subsection \<open>The architecture: access checks\<close>

datatype mpu_access = MpuRead | MpuWrite | MpuExec

text \<open>Armv7-M: a region covers \<open>2 ^ (SIZE + 1)\<close> bytes, less its disabled eighths; the
  highest-numbered region that covers an address decides, and unprivileged code has no
  access where there is none.\<close>

definition v7_covers :: "mpu_table \<Rightarrow> u32 \<Rightarrow> nat \<Rightarrow> bool" where
  "v7_covers t a n \<longleftrightarrow>
     (let s = unat (drop_bit 1 (mt_attr t n) AND 31) + 1 in
      bit (mt_attr t n) 0 \<and> drop_bit s a = drop_bit s (mt_base t n) \<and>
      \<not> (8 \<le> s \<and> bit (mt_attr t n) (8 + unat (drop_bit (s - 3) a AND 7))))"

definition v7_permits :: "u32 \<Rightarrow> mpu_access \<Rightarrow> bool" where
  "v7_permits attr acc \<longleftrightarrow>
     (let ap = drop_bit 24 attr AND 7 in
      case acc of
        MpuRead \<Rightarrow> ap = 2 \<or> ap = 3 \<or> ap = 6 \<or> ap = 7
      | MpuWrite \<Rightarrow> ap = 3
      | MpuExec \<Rightarrow> (ap = 2 \<or> ap = 3 \<or> ap = 6 \<or> ap = 7) \<and> \<not> bit attr 28)"

definition v7_allows :: "mpu_table \<Rightarrow> mpu_access \<Rightarrow> u32 \<Rightarrow> bool" where
  "v7_allows t acc a \<longleftrightarrow>
     (case find (v7_covers t a) [7, 6, 5, 4, 3, 2, 1, 0] of
        None \<Rightarrow> False
      | Some n \<Rightarrow> v7_permits (mt_attr t n) acc)"

text \<open>Armv8-M: a region runs from its base to its limit in steps of 32 bytes; where two
  regions cover an address the access faults.\<close>

definition v8_covers :: "mpu_table \<Rightarrow> u32 \<Rightarrow> nat \<Rightarrow> bool" where
  "v8_covers t a n \<longleftrightarrow> bit (mt_attr t n) 0 \<and>
     drop_bit 5 (mt_base t n) \<le> drop_bit 5 a \<and> drop_bit 5 a \<le> drop_bit 5 (mt_attr t n)"

definition v8_permits :: "u32 \<Rightarrow> mpu_access \<Rightarrow> bool" where
  "v8_permits base acc \<longleftrightarrow>
     (case acc of
        MpuRead \<Rightarrow> bit base 1
      | MpuWrite \<Rightarrow> bit base 1 \<and> \<not> bit base 2
      | MpuExec \<Rightarrow> bit base 1 \<and> \<not> bit base 0)"

definition v8_allows :: "mpu_table \<Rightarrow> mpu_access \<Rightarrow> u32 \<Rightarrow> bool" where
  "v8_allows t acc a \<longleftrightarrow>
     (case filter (v8_covers t a) [0, 1, 2, 3, 4, 5, 6, 7] of
        [n] \<Rightarrow> v8_permits (mt_base t n) acc
      | _ \<Rightarrow> False)"

subsection \<open>Every store sequence of the drivers\<close>

inductive v7_driven :: "mmio_load \<Rightarrow> u32 \<Rightarrow> mmio \<times> u32 \<Rightarrow> bool" for hw callregion where
  v7_first: "hw [] MPU_CTRL AND 0x1 = 0 \<Longrightarrow> box_mpu_init hw callregion [] = (Inr 0, log) \<Longrightarrow>
    v7_driven hw callregion (log, c)"
| v7_init: "v7_driven hw callregion (log, c) \<Longrightarrow> box_mpu_init hw callregion log = (Inr 0, log') \<Longrightarrow>
    v7_driven hw callregion (log', c)"
| v7_switch: "v7_driven hw callregion st \<Longrightarrow> wf_regions r \<Longrightarrow>
    v7_driven hw callregion (box_mpu_switch r st)"

inductive v8_driven :: "mmio_load \<Rightarrow> u32 \<Rightarrow> mmio \<times> u32 \<Rightarrow> bool" for hw callregion where
  v8_first: "hw [] MPU_CTRL AND 0x1 = 0 \<Longrightarrow> box_mpu_init_v8 hw callregion [] = (Inr 0, log) \<Longrightarrow>
    v8_driven hw callregion (log, c)"
| v8_init: "v8_driven hw callregion (log, c) \<Longrightarrow> box_mpu_init_v8 hw callregion log = (Inr 0, log') \<Longrightarrow>
    v8_driven hw callregion (log', c)"
| v8_switch: "v8_driven hw callregion st \<Longrightarrow>
    v8_driven hw callregion (box_mpu_switch_v8 r st)"

lemma v7_init_view:
  assumes "callregion AND 0x1f = 0" and "box_mpu_init hw callregion log = (r, log')"
  shows "v7_view log' = v7_view log \<or>
    (mt_attr (v7_view log') = (mt_attr (v7_view log))(0 := 0x1000000B))"
proof -
  have "push_bit 1 (5 :: u32) = 10" by simp
  then show ?thesis
    using assms rbar_fields [OF assms(1), of "0x10"]
    by (auto simp: box_mpu_init_def v7_view_append v7_store_def mpu_addrs Let_def fun_upd_def
        split: if_splits)
qed

lemma v7_driven_rest:
  assumes "v7_driven hw callregion st" and "callregion AND 0x1f = 0"
  shows "mt_attr (v7_view (fst st)) 0 = 0x1000000B \<and> (\<forall>n>4. mt_attr (v7_view (fst st)) n = 0)"
  using assms
proof (induction rule: v7_driven.induct)
  case (v7_first log c)
  have "push_bit 1 (5 :: u32) = 10" by simp
  with v7_first show ?case
    using rbar_fields [OF v7_first.prems, of "0x10"]
    by (auto simp: box_mpu_init_def v7_view_def v7_store_def mpu_reset_def mpu_addrs Let_def
        split: if_splits)
next
  case (v7_init log c log')
  then show ?case using v7_init_view [of callregion hw log "Inr 0" log'] by auto
next
  case (v7_switch st r)
  then show ?case using v7_switch_view(3) [OF v7_switch.hyps(2)] by simp
qed

lemma v8_driven_rest:
  assumes "v8_driven hw callregion st" and "callregion AND 0x1f = 0"
  shows "mt_base (v8_view (fst st)) 0 = callregion OR 1 \<and> (\<forall>n>4. mt_attr (v8_view (fst st)) n = 0)"
  using assms
proof (induction rule: v8_driven.induct)
  case (v8_first log c)
  then show ?case
    by (auto simp: box_mpu_init_v8_def v8_view_def v8_store_def mpu_reset_def mpu_addrs Let_def
        split: if_splits)
next
  case (v8_init log c log')
  then show ?case
    by (auto simp: box_mpu_init_v8_def v8_view_append v8_store_def mpu_addrs Let_def split: if_splits)
next
  case (v8_switch st r)
  then show ?case using v8_switch_view(2,3) by simp
qed

subsection \<open>Isolation\<close>

lemma div_eq_iff_block: "x div 2 ^ n = m \<longleftrightarrow> m * 2 ^ n \<le> x \<and> x < m * 2 ^ n + 2 ^ n" for x m :: nat
proof
  assume "x div 2 ^ n = m"
  then have "x = m * 2 ^ n + x mod 2 ^ n" by (metis div_mult_mod_eq)
  moreover have "x mod 2 ^ n < 2 ^ n" by simp
  ultimately show "m * 2 ^ n \<le> x \<and> x < m * 2 ^ n + 2 ^ n" by linarith
qed (auto intro: div_nat_eqI simp: mult.commute)

lemma drop_bit_eq_iff:
  "drop_bit n a = w \<longleftrightarrow> unat w * 2 ^ n \<le> unat a \<and> unat a < unat w * 2 ^ n + 2 ^ n" for a w :: u32
proof -
  have "drop_bit n a = w \<longleftrightarrow> unat a div 2 ^ n = unat w"
    by (auto simp: word_unat_eq_iff unat_drop_bit_eq drop_bit_eq_div [of n "unat a"])
  also have "\<dots> \<longleftrightarrow> unat w * 2 ^ n \<le> unat a \<and> unat a < unat w * 2 ^ n + 2 ^ n"
    by (simp add: div_eq_iff_block)
  finally show ?thesis .
qed

lemma no_subregions:
  fixes x attr :: u32
  assumes "attr AND 0xff00 = 0"
  shows "\<not> bit attr (8 + unat (x AND 7))"
proof
  assume b: "bit attr (8 + unat (x AND 7))"
  have "unat (x AND 7) < 8"
    using unat_and_mask [of x 3] by (simp add: mask_eq_exp_minus_1)
  then have "bit (0xff00 :: u32) (8 + unat (x AND 7))"
    by (auto simp: less_Suc_eq numeral_eq_Suc)
  with b have "bit (attr AND 0xff00) (8 + unat (x AND 7))" by (simp add: bit_and_iff)
  with assms show False by simp
qed

text \<open>Entries 1 and 2 decide what a box of the examples may touch: entry 0 and the address
  ranges without an entry give unprivileged code nothing.\<close>

lemma v7_two_regions:
  assumes "shows_regions (\<lambda>b. b) t
      \<lparr>mr_control = c, mr_count = 2, mr_regions = [(b1, 0x02000019), (b2, 0x13000019)]\<rparr>"
    and "mt_attr t 0 = 0x1000000B" and "\<forall>n>4. mt_attr t n = 0"
  shows "v7_allows t acc a \<longleftrightarrow>
    drop_bit 13 a = drop_bit 13 b2 \<and> acc \<noteq> MpuExec \<or>
    drop_bit 13 a \<noteq> drop_bit 13 b2 \<and> drop_bit 13 a = drop_bit 13 b1 \<and> acc \<noteq> MpuWrite"
proof -
  have t: "mt_attr t 1 = 0x02000019" "mt_base t 1 = b1" "mt_attr t 2 = 0x13000019" "mt_base t 2 = b2"
      "mt_attr t 3 = 0" "mt_attr t 4 = 0" "mt_attr t 5 = 0" "mt_attr t 6 = 0" "mt_attr t 7 = 0"
    using assms by (simp_all add: shows_regions_def nth_Cons' del: One_nat_def)
  have "v7_covers t a 2 \<longleftrightarrow> drop_bit 13 a = drop_bit 13 b2"
    using no_subregions [of "0x13000019"] by (simp add: v7_covers_def Let_def t)
  moreover have "v7_covers t a 1 \<longleftrightarrow> drop_bit 13 a = drop_bit 13 b1"
    using no_subregions [of "0x02000019"] by (simp only: v7_covers_def Let_def t) simp
  moreover have "\<not> v7_covers t a n" if "n \<in> {3, 4, 5, 6, 7}" for n
    using that by (auto simp: v7_covers_def Let_def t)
  ultimately show ?thesis
    using t(1,3) assms(2) by (cases acc) (auto simp: v7_allows_def v7_permits_def Let_def)
qed

lemma v8_allows_cases:
  assumes "v8_allows t acc a"
  obtains n where "n < 8" and "v8_covers t a n" and "v8_permits (mt_base t n) acc"
proof -
  obtain n where n: "filter (v8_covers t a) [0, 1, 2, 3, 4, 5, 6, 7] = [n]" "v8_permits (mt_base t n) acc"
    using assms by (auto simp: v8_allows_def split: list.splits)
  have "n \<in> set (filter (v8_covers t a) [0, 1, 2, 3, 4, 5, 6, 7])"
    by (simp only: n(1) list.set insertI1)
  then have "n \<in> set [0, 1, 2, 3, 4, 5, 6, 7] \<and> v8_covers t a n"
    by (simp only: set_filter mem_Collect_eq)
  then have "n < 8" "v8_covers t a n" by auto
  then show ?thesis using n(2) that by blast
qed

lemma v8_two_regions:
  assumes "shows_regions (\<lambda>b. b) t
      \<lparr>mr_control = c, mr_count = 2, mr_regions = [(b1 OR 6, a1), (b2 OR 3, a2)]\<rparr>"
    and "mt_base t 0 = callregion OR 1" and "callregion AND 0x1f = 0" and "\<forall>n>4. mt_attr t n = 0"
    and "v8_allows t acc a"
  shows "(drop_bit 5 b2 \<le> drop_bit 5 a \<and> drop_bit 5 a \<le> drop_bit 5 a2 \<and> acc \<noteq> MpuExec) \<or>
    (drop_bit 5 b1 \<le> drop_bit 5 a \<and> drop_bit 5 a \<le> drop_bit 5 a1 \<and> acc \<noteq> MpuWrite)"
proof -
  obtain n where n: "n < 8" "v8_covers t a n" "v8_permits (mt_base t n) acc"
    using assms(5) by (rule v8_allows_cases)
  have t: "mt_attr t 1 = a1" "mt_base t 1 = b1 OR 6" "mt_attr t 2 = a2" "mt_base t 2 = b2 OR 3"
      "mt_attr t 3 = 0" "mt_attr t 4 = 0" "mt_attr t 5 = 0" "mt_attr t 6 = 0" "mt_attr t 7 = 0"
    using assms by (simp_all add: shows_regions_def nth_Cons' del: One_nat_def)
  have "bit (callregion AND 0x1f) 1 \<longleftrightarrow> bit callregion 1"
    by (simp add: bit_and_iff bit_numeral_rec(2) numeral_2_eq_2)
  then have "\<not> bit (callregion OR 1) 1"
    using assms(3) by (simp add: bit_or_iff)
  then have "n \<noteq> 0"
    using n(3) assms(2) by (intro notI) (auto simp: v8_permits_def split: mpu_access.splits)
  moreover have "n \<notin> {3, 4, 5, 6, 7}"
    using n(2) t by (auto simp: v8_covers_def)
  ultimately have "n = 1 \<or> n = 2"
    using n(1) by (auto simp: less_Suc_eq numeral_eq_Suc)
  moreover have "drop_bit 5 (b1 OR 6) = drop_bit 5 b1" "drop_bit 5 (b2 OR 3) = drop_bit 5 b2"
    by (simp_all add: drop_bit_or)
  moreover have "bit (b1 OR 6) 2" "bit (b2 OR 3) 0"
    by (simp_all add: bit_or_iff)
  ultimately show ?thesis
    using n(2,3) t by (auto simp: v8_covers_def v8_permits_def split: mpu_access.splits)
qed

lemma wf_examples [simp]:
  "wf_regions box1_mpuregions" "wf_regions box2_mpuregions" "wf_regions sys_mpuregions"
  by (simp_all add: wf_regions_def box1_mpuregions_def box2_mpuregions_def sys_mpuregions_def)

subsection \<open>Properties\<close>

text \<open>C3: on Armv7-M the MPU confines a box. After any sequence of the drivers' stores that ends
  in the switch to a box of armv7m-mpu-hello, unprivileged code may write exactly the box's
  RAM, execute exactly its flash and read exactly both, and CONTROL makes the box
  unprivileged.\<close>

theorem box_mpu_isolates:
  assumes "v7_driven hw callregion st" and "callregion AND 0x1f = 0"
    and "(r, flash, ram) \<in> {(box1_mpuregions, 0xfe000, 0x2003e000), (box2_mpuregions, 0xfc000, 0x2003c000)}"
    and "box_mpu_switch r st = (log, control)"
  shows "bit control 0 \<and>
    (v7_allows (v7_view log) MpuWrite a \<longleftrightarrow> ram \<le> unat a \<and> unat a < ram + 8192) \<and>
    (v7_allows (v7_view log) MpuExec a \<longleftrightarrow> flash \<le> unat a \<and> unat a < flash + 8192) \<and>
    (v7_allows (v7_view log) MpuRead a \<longleftrightarrow>
      ram \<le> unat a \<and> unat a < ram + 8192 \<or> flash \<le> unat a \<and> unat a < flash + 8192)"
proof -
  have r: "wf_regions r" using assms(3) by auto
  have log: "log = fst (box_mpu_switch r st)" using assms(4) by simp
  have rest: "mt_attr (v7_view log) 0 = 0x1000000B" "\<forall>n>4. mt_attr (v7_view log) n = 0"
    using v7_driven_rest [OF v7_switch [OF assms(1) r] assms(2)] log by simp_all
  have "bit control 0"
    using assms(3,4) by (auto simp: box_mpu_switch_def box1_mpuregions_def box2_mpuregions_def bit_or_iff)
  moreover have "shows_regions (\<lambda>b. b) (v7_view log) r"
    unfolding log by (rule v7_switch_view(1) [OF r])
  ultimately show ?thesis
    using assms(3) rest v7_two_regions [of "v7_view log"]
    by (auto simp: box1_mpuregions_def box2_mpuregions_def drop_bit_eq_iff)
qed

definition hw_reset :: mmio_load where
  "hw_reset log a = (if a = MPU_TYPE then 0x800 else if log = [] then 0 else 5)"

lemma v7_driven_example:
  "v7_driven hw_reset 0x10000000 (snd (box_mpu_init hw_reset 0x10000000 []), 0)"
  by (rule v7_first) (simp_all add: hw_reset_def box_mpu_init_def mpu_addrs)

theorem box_mpu_isolates_witness:
  "\<not> v7_allows (v7_view (fst (box_mpu_switch box1_mpuregions
      (snd (box_mpu_init hw_reset 0x10000000 []), 0)))) MpuWrite 0x2003c000"
  using box_mpu_isolates [OF v7_driven_example _ _ prod.collapse [symmetric],
      where r = box1_mpuregions and flash = "0xfe000" and ram = "0x2003e000" and a = "0x2003c000"]
  by simp

text \<open>C13: on Armv8-M the MPU confines a box: after the switch to a box of armv8m-mpu-hello,
  unprivileged code writes at most the box's RAM, executes at most its flash and reads at
  most both. (Only "at most": if the linker put the call region over one of them, the
  architecture would fault accesses there.)\<close>

theorem box_mpu_v8_isolates:
  assumes "v8_driven hw callregion st" and "callregion AND 0x1f = 0"
    and "(r, flash, ram) \<in> {(box1_mpuregions_v8, 0xfe000, 0x2003e000),
      (box2_mpuregions_v8, 0xfc000, 0x2003c000), (box3_mpuregions_v8, 0xfa000, 0x2003a000)}"
    and "box_mpu_switch_v8 r st = (log, control)"
    and "v8_allows (v8_view log) acc a"
  shows "bit control 0 \<and>
    (ram \<le> unat a \<and> unat a < ram + 8192 \<and> acc \<noteq> MpuExec \<or>
     flash \<le> unat a \<and> unat a < flash + 8192 \<and> acc \<noteq> MpuWrite)"
proof -
  have log: "log = fst (box_mpu_switch_v8 r st)" using assms(4) by simp
  have rest: "mt_base (v8_view log) 0 = callregion OR 1" "\<forall>n>4. mt_attr (v8_view log) n = 0"
    using v8_driven_rest [OF v8_switch [OF assms(1)] assms(2)] log by simp_all
  have bit: "bit control 0"
    using assms(3,4) by (auto simp: box_mpu_switch_v8_def box1_mpuregions_v8_def
        box2_mpuregions_v8_def box3_mpuregions_v8_def bit_or_iff)
  have table: "shows_regions (\<lambda>b. b) (v8_view log) r"
    unfolding log by (rule v8_switch_view(1))
  note two = v8_two_regions [OF _ rest(1) assms(2) rest(2) assms(5)]
  from assms(3) show ?thesis
    using bit table
      two [of 1 "0xfe000" "0x000fffe1" "0x2003e000" "0x2003ffe1"]
      two [of 1 "0xfc000" "0x000fdfe1" "0x2003c000" "0x2003dfe1"]
      two [of 1 "0xfa000" "0x000fbfe1" "0x2003a000" "0x2003bfe1"]
    by (auto simp: box1_mpuregions_v8_def box2_mpuregions_v8_def box3_mpuregions_v8_def
        word_le_nat_alt unat_div drop_bit_eq_div)
qed

lemma v8_driven_example:
  "v8_driven hw_reset 0x10000000 (snd (box_mpu_init_v8 hw_reset 0x10000000 []), 0)"
  by (rule v8_first) (simp_all add: hw_reset_def box_mpu_init_v8_def mpu_addrs)

theorem box_mpu_v8_isolates_witness:
  "\<not> v8_allows (v8_view (fst (box_mpu_switch_v8 box1_mpuregions_v8
      (snd (box_mpu_init_v8 hw_reset 0x10000000 []), 0)))) MpuWrite 0x2003c000"
proof
  assume "v8_allows (v8_view (fst (box_mpu_switch_v8 box1_mpuregions_v8
      (snd (box_mpu_init_v8 hw_reset 0x10000000 []), 0)))) MpuWrite 0x2003c000"
  from box_mpu_v8_isolates [OF v8_driven_example _ _ prod.collapse [symmetric] this,
      of "0xfe000" "0x2003e000"]
  show False by simp
qed

end
