(* ===== verification/BoxCall.thy ===== *)
theory BoxCall
  imports BoxMpu
begin

text \<open>
  The call gateway of the generated glue (examples/armv7m-mpu-hello/bb.c): calls between the
  system and a box go through a faulting address in the call region; the fault handler
  saves the caller, switches the MPU and enters the target on its own stack, and the return
  and abort paths undo it.

  \<^item> \<open>machine\<close> holds what the handlers touch: \<^verbatim>\<open>__box_active\<close>, the box states, the memory (a
    word per word-aligned address), the MPU stores and CONTROL, the two stack pointers and
    the callee-saved registers.
  \<^item> \<open>box_glue\<close> holds what the generator and the linker fix: the tables of the file, the
    jump tables of the boxes (addresses in their images), the addresses of the call region.
  \<^item> A handler ends in \<^verbatim>\<open>bx r0\<close>, the return from the exception: its result is \<open>r0\<close> and the
    machine; popping the exception frame is the hardware's. The stack that the C code of a
    handler uses below \<open>msp\<close> is not modelled.
\<close>

type_synonym mem = "u32 \<Rightarrow> u32"

record box_state =
  bs_initialized :: bool
  bs_caller :: u32
  bs_lr :: u32
  bs_sp :: u32

record machine =
  m_active :: u32
  m_states :: "box_state list"
  m_mem :: mem
  m_mpu :: "mmio \<times> u32"
  m_msp :: u32
  m_psp :: u32
  m_r4_r11 :: "u32 list"
  m_s16_s31 :: "u32 list"

record box_glue =
  g_count :: u32
  g_mpuregions :: "box_mpuregions list"
  g_switch :: "box_mpuregions \<Rightarrow> mmio \<times> u32 \<Rightarrow> mmio \<times> u32"
  g_jumptables :: "u32 list"
  g_sys_jumptables :: "u32 list list"
  g_aborts :: "bool list"
  g_callregion :: u32
  g_return :: u32

subsection \<open>Memory and registers\<close>

fun store_words :: "u32 \<Rightarrow> u32 list \<Rightarrow> mem \<Rightarrow> mem" where
  "store_words a [] mem = mem"
| "store_words a (w # ws) mem = store_words (a + 4) ws (mem(a := w))"

fun load_words :: "nat \<Rightarrow> u32 \<Rightarrow> mem \<Rightarrow> u32 list" where
  "load_words 0 a mem = []"
| "load_words (Suc n) a mem = mem a # load_words n (a + 4) mem"

definition copy_word :: "u32 \<Rightarrow> u32 \<Rightarrow> u32 \<Rightarrow> mem \<Rightarrow> mem" where
  "copy_word dst src i mem = mem(dst + 4 * i := mem (src + 4 * i))"

definition ret64 :: "u32 \<Rightarrow> u32 \<Rightarrow> u64" where
  "ret64 lr sp = ucast lr OR push_bit 32 (ucast sp)"

definition lo32 :: "u64 \<Rightarrow> u32" where
  "lo32 r = ucast r"

definition hi32 :: "u64 \<Rightarrow> u32" where
  "hi32 r = ucast (drop_bit 32 r)"

lemma bit_u32_ge: "32 \<le> n \<Longrightarrow> \<not> bit w n" for w :: u32
  using bit_imp_le_length [of w n] by auto

lemma lo32_ret64 [simp]: "lo32 (ret64 lr sp) = lr"
  by (rule bit_word_eqI) (auto simp: lo32_def ret64_def bit_ucast_iff bit_or_iff bit_push_bit_iff)

lemma hi32_ret64 [simp]: "hi32 (ret64 lr sp) = sp"
  by (rule bit_word_eqI)
    (auto simp: hi32_def ret64_def bit_ucast_iff bit_or_iff bit_push_bit_iff bit_drop_bit_eq bit_u32_ge)

subsection \<open>Faults\<close>

definition pop_frame :: "u32 \<Rightarrow> mem \<Rightarrow> box_state \<Rightarrow> box_state" where
  "pop_frame sp mem state =
     state\<lparr>bs_lr := mem (sp + 4 * 1), bs_sp := mem (sp + 4 * 2), bs_caller := mem (sp + 4 * 3)\<rparr>"

definition fault_frame :: "u32 \<Rightarrow> int \<Rightarrow> mem \<Rightarrow> mem" where
  "fault_frame targetfp err mem =
     (let mem1 = mem(targetfp + 4 * 0 := word_of_int err, targetfp + 4 * 1 := 0,
            targetfp + 4 * 2 := 0, targetfp + 4 * 3 := 0)
      in mem1(targetfp + 4 * 6 := mem1 (targetfp + 4 * 5)))"

definition box_faultsetup :: "box_glue \<Rightarrow> int \<Rightarrow> machine \<Rightarrow> box_stop + u64 \<times> machine" where
  "box_faultsetup g err m0 =
     (let old = unat (m_active m0);
          m = m0\<lparr>m_states := (m_states m0)[old := (m_states m0 ! old)\<lparr>bs_initialized := False\<rparr>]\<rparr>;
          act = bs_caller (m_states m ! old);
          targetstate = m_states m ! unat act;
          targetsp = bs_sp targetstate;
          targetfp = m_mem m targetsp
      in if g_aborts g ! old then Inl (UserAbort old err)
      else if bs_lr targetstate = 0 then Inl (Halted (- errno ELOOP))
      else if m_mem m (targetfp + 4 * 6) AND 2 = 0 then Inl (Halted err)
      else Inr (ret64 (bs_lr targetstate) targetsp,
             m\<lparr>m_active := act,
               m_states := (m_states m)[unat act := pop_frame targetsp (m_mem m) targetstate],
               m_mpu := g_switch g (g_mpuregions g ! unat act) (m_mpu m),
               m_mem := fault_frame targetfp err (m_mem m)\<rparr>))"

text \<open>The tail that the fault and the return handler share: drop the saved frame, restore the
  registers from the target's stack, set its stack pointer and return.\<close>

definition restore_regs :: "u64 \<Rightarrow> machine \<Rightarrow> u32 \<times> machine" where
  "restore_regs r m =
     (let r0 = lo32 r;
          a = hi32 r + 4 * 4;
          (m1, b) = (if r0 AND 0x10 = 0
                     then (m\<lparr>m_s16_s31 := load_words 16 a (m_mem m)\<rparr>, a + 4 * 16) else (m, a));
          m2 = m1\<lparr>m_r4_r11 := load_words 8 b (m_mem m1)\<rparr>;
          c = b + 4 * 8
      in (r0, if r0 AND 0x4 = 0 then m2\<lparr>m_msp := c\<rparr> else m2\<lparr>m_psp := c\<rparr>))"

definition box_faulthandler :: "box_glue \<Rightarrow> int \<Rightarrow> machine \<Rightarrow> box_stop + u32 \<times> machine" where
  "box_faulthandler g err m =
     (case box_faultsetup g err m of
        Inl e \<Rightarrow> Inl e
      | Inr (r, m') \<Rightarrow> Inr (restore_regs r m'))"

subsection \<open>Calls\<close>

definition save_caller :: "u32 \<Rightarrow> u32 \<Rightarrow> u32 \<Rightarrow> machine \<Rightarrow> machine" where
  "save_caller lr sp fp m =
     (let act = unat (m_active m); state = m_states m ! act in
      m\<lparr>m_mem := (m_mem m)(sp + 4 * 0 := fp, sp + 4 * 1 := bs_lr state,
          sp + 4 * 2 := bs_sp state, sp + 4 * 3 := bs_caller state),
        m_states := (m_states m)[act := state\<lparr>bs_lr := lr, bs_sp := sp\<rparr>]\<rparr>)"

text \<open>The called box and the address to call; \<open>None\<close> is a read past the end of a
  \<^verbatim>\<open>sys_jumptable\<close>.\<close>

definition call_target :: "box_glue \<Rightarrow> u32 \<Rightarrow> u32 \<Rightarrow> mem \<Rightarrow> u32 \<times> u32 option" where
  "call_target g caller op mem =
     (if caller = 0
      then let act = (op div 4 - 2) mod g_count g + 1 in
        (act, Some (mem (g_jumptables g ! unat (act - 1) + 4 * ((op div 4 - 2) div g_count g + 1))))
      else let table = g_sys_jumptables g ! unat (caller - 1); i = unat (op div 4 - 2) in
        (0, if i < length table then Some (table ! i) else None))"

definition call_frame :: "box_glue \<Rightarrow> u32 \<Rightarrow> u32 \<Rightarrow> u32 \<Rightarrow> mem \<Rightarrow> mem" where
  "call_frame g sp fp pc mem =
     copy_word sp fp 7
       ((fold (copy_word sp fp) [0, 1, 2, 3, 4] mem)(sp + 4 * 5 := g_return g, sp + 4 * 6 := pc))"

definition enter_target :: "box_glue \<Rightarrow> u32 \<Rightarrow> u32 \<Rightarrow> u32 \<Rightarrow> machine \<Rightarrow> u64 \<times> machine" where
  "enter_target g act fp pc m =
     (let targetstate = m_states m ! unat act;
          targetlr = bs_lr targetstate;
          targetsp = bs_sp targetstate;
          sp = targetsp - 4 * 8
      in (ret64 targetlr sp,
          m\<lparr>m_active := act,
            m_states := (m_states m)[unat act :=
              targetstate\<lparr>bs_caller := m_active m, bs_lr := 0, bs_sp := targetsp\<rparr>],
            m_mpu := g_switch g (g_mpuregions g ! unat act) (m_mpu m),
            m_mem := call_frame g sp fp pc (m_mem m)\<rparr>))"

definition box_callsetup ::
  "box_glue \<Rightarrow> u32 \<Rightarrow> u32 \<Rightarrow> u32 \<Rightarrow> u32 \<Rightarrow> machine \<Rightarrow> box_stop + u64 \<times> machine" where
  "box_callsetup g lr sp op fp m =
     (let m1 = save_caller lr sp fp m in
      case call_target g (m_active m) op (m_mem m1) of
        (act, None) \<Rightarrow> Inl OutOfBounds
      | (act, Some pc) \<Rightarrow> Inr (enter_target g act fp pc m1))"

text \<open>\<^verbatim>\<open>stmdb\<close> and \<^verbatim>\<open>vstmdbeq\<close> of the callee-saved registers below the exception frame.\<close>

definition push_regs :: "u32 \<Rightarrow> u32 \<Rightarrow> machine \<Rightarrow> u32 \<times> mem" where
  "push_regs lr sp m =
     (let a = sp - 4 * 8; mem1 = store_words a (m_r4_r11 m) (m_mem m) in
      if lr AND 0x10 = 0
      then (a - 4 * 16, store_words (a - 4 * 16) (m_s16_s31 m) mem1) else (a, mem1))"

definition box_callhandler ::
  "box_glue \<Rightarrow> u32 \<Rightarrow> u32 \<Rightarrow> u32 \<Rightarrow> machine \<Rightarrow> box_stop + u32 \<times> machine" where
  "box_callhandler g lr sp op m =
     (let r3 = sp;
          (a, mem) = push_regs lr sp m;
          r1 = a - 4 * 4;
          msp = (if lr AND 0x4 = 0 then r1 else m_msp m) - 8 * 4
      in case box_callsetup g lr r1 op r3 (m\<lparr>m_mem := mem, m_msp := msp\<rparr>) of
        Inl e \<Rightarrow> Inl e
      | Inr (r, m') \<Rightarrow>
          Inr (lo32 r,
            if lo32 r AND 0x4 = 0 then m'\<lparr>m_msp := hi32 r\<rparr>
            else m'\<lparr>m_psp := hi32 r, m_msp := m_msp m' + 8 * 4\<rparr>))"

subsection \<open>Returns\<close>

text \<open>A return to a box that made no call enters the fault handler instead.\<close>

datatype box_setup = SetupDone u64 machine | SetupFault int machine

definition return_frame :: "u32 \<Rightarrow> u32 \<Rightarrow> mem \<Rightarrow> mem" where
  "return_frame targetfp fp mem =
     (let mem1 = fold (copy_word targetfp fp) [0, 1, 2, 3] mem in
      mem1(targetfp + 4 * 6 := mem1 (targetfp + 4 * 5)))"

definition box_returnsetup ::
  "box_glue \<Rightarrow> u32 \<Rightarrow> u32 \<Rightarrow> u32 \<Rightarrow> u32 \<Rightarrow> machine \<Rightarrow> box_setup" where
  "box_returnsetup g lr sp0 op fp m0 =
     (let old = unat (m_active m0);
          state = m_states m0 ! old;
          act = bs_caller state;
          m = m0\<lparr>m_states := (m_states m0)[old := state\<lparr>bs_lr := lr, bs_sp := bs_sp state\<rparr>],
                 m_active := act\<rparr>;
          targetstate = m_states m ! unat act;
          targetsp = bs_sp targetstate
      in if bs_lr targetstate = 0 then SetupFault (- errno EFAULT) m
      else SetupDone (ret64 (bs_lr targetstate) targetsp)
             (m\<lparr>m_states := (m_states m)[unat act := pop_frame targetsp (m_mem m) targetstate],
                m_mpu := g_switch g (g_mpuregions g ! unat act) (m_mpu m),
                m_mem := return_frame (m_mem m (targetsp + 4 * 0)) fp (m_mem m)\<rparr>))"

definition box_returnhandler ::
  "box_glue \<Rightarrow> u32 \<Rightarrow> u32 \<Rightarrow> u32 \<Rightarrow> machine \<Rightarrow> box_stop + u32 \<times> machine" where
  "box_returnhandler g lr sp op m =
     (case box_returnsetup g lr sp op sp m of
        SetupFault err m' \<Rightarrow> box_faulthandler g err m'
      | SetupDone r m' \<Rightarrow> Inr (restore_regs r m'))"

subsection \<open>Dispatch\<close>

definition box_mpu_handler :: "box_glue \<Rightarrow> u32 \<Rightarrow> machine \<Rightarrow> box_stop + u32 \<times> machine" where
  "box_mpu_handler g lr m =
     (let r1 = (if lr AND 0x4 = 0 then m_msp m else m_psp m);
          r2 = m_mem m (r1 + 6 * 4) - g_callregion g
      in if r2 = 0 then box_returnhandler g lr r1 r2 m
      else if r2 = 4 then box_faulthandler g (sint (m_mem m (r1 + 0))) m
      else if r2 < 1048576 then box_callhandler g lr r1 r2 m
      else box_faulthandler g (- errno EFAULT) m)"

subsection \<open>The tables of the examples\<close>

text \<open>The addresses of the jump tables of the boxes and of the system's functions are the
  linker's.\<close>

definition hello_glue :: "u32 list \<Rightarrow> u32 \<Rightarrow> u32 \<Rightarrow> u32 \<Rightarrow> box_glue" where
  "hello_glue jumptables box_write box_flush sys_ping = \<lparr>
     g_count = 2,
     g_mpuregions = [sys_mpuregions, box1_mpuregions, box2_mpuregions],
     g_switch = box_mpu_switch,
     g_jumptables = jumptables,
     g_sys_jumptables = [[box_write, box_flush, sys_ping], [box_write, box_flush, sys_ping]],
     g_aborts = [False, False, False],
     g_callregion = 0x00100000,
     g_return = 0x00100000\<rparr>"

definition hello_v8_glue :: "u32 list \<Rightarrow> u32 \<Rightarrow> u32 \<Rightarrow> u32 \<Rightarrow> box_glue" where
  "hello_v8_glue jumptables box_write box_flush sys_ping = \<lparr>
     g_count = 3,
     g_mpuregions = [sys_mpuregions, box1_mpuregions_v8, box2_mpuregions_v8, box3_mpuregions_v8],
     g_switch = box_mpu_switch_v8,
     g_jumptables = jumptables,
     g_sys_jumptables = [[box_write, box_flush, sys_ping], [box_write, box_flush, sys_ping],
       [box_write, box_flush, sys_ping]],
     g_aborts = [False, False, False, False],
     g_callregion = 0x00100000,
     g_return = 0x00100000\<rparr>"

end
