(* ===== verification/BoxCallProps.thy ===== *)
theory BoxCallProps
  imports BoxCall
begin

text \<open>
  What the call gateway guarantees: a call followed by its return restores the caller, an
  error return reaches the caller with the error and marks the box as uninitialised, and
  whatever handler ran, the MPU shows the regions of the box that runs next.
\<close>

subsection \<open>Word slots of a stack\<close>

definition slot :: "u32 \<Rightarrow> nat \<Rightarrow> u32" where
  "slot c i = c + 4 * word_of_nat i"

lemma slot_0: "slot c 0 = c"
  by (simp add: slot_def)

lemma slot_add: "slot (slot c i) j = slot c (i + j)"
  by (simp add: slot_def algebra_simps)

lemma slot_inj [simp]:
  assumes "i < 2 ^ 30" and "j < 2 ^ 30"
  shows "slot c i = slot c j \<longleftrightarrow> i = j"
proof
  assume "slot c i = slot c j"
  then have "(4 * word_of_nat i :: u32) = 4 * word_of_nat j" by (simp add: slot_def)
  moreover have "unat (4 * word_of_nat n :: u32) = 4 * n" if "n < 2 ^ 30" for n
  proof -
    have "unat (word_of_nat (4 * n) :: u32) = 4 * n"
      using that by (simp only: unat_of_nat) simp
    then show ?thesis by simp
  qed
  ultimately show "i = j" using assms by (metis mult_left_cancel zero_neq_numeral)
qed simp

lemma store_words_slot:
  assumes "k + length ws < 2 ^ 30" and "j < 2 ^ 30"
  shows "store_words (slot c k) ws mem (slot c j) =
    (if k \<le> j \<and> j < k + length ws then ws ! (j - k) else mem (slot c j))"
  using assms
proof (induction ws arbitrary: k mem)
  case (Cons w ws)
  have "slot c k + 4 = slot c (Suc k)" by (simp add: slot_def algebra_simps)
  then show ?case
    using Cons.prems Cons.IH [of "Suc k"]
    by (auto simp: nth_Cons' not_less_eq_eq le_Suc_eq)
qed auto

lemma load_words_slot: "load_words n (slot c k) mem = map (\<lambda>i. mem (slot c (k + i))) [0..<n]"
proof (induction n arbitrary: k)
  case (Suc n)
  have "slot c k + 4 = slot c (Suc k)" by (simp add: slot_def algebra_simps)
  then show ?case
    by (simp add: Suc upt_conv_Cons map_Suc_upt [symmetric] del: upt_Suc)
qed simp

subsection \<open>The saved area of a caller\<close>

text \<open>Below the exception frame at \<open>sp\<close>: \<open>r4\<close> to \<open>r11\<close>, \<open>s16\<close> to \<open>s31\<close> when \<open>lr\<close> says that the
  floating point context is active, and the four words of \<^verbatim>\<open>struct __box_frame\<close>.\<close>

definition saved_words :: "u32 \<Rightarrow> nat" where
  "saved_words lr = (if lr AND 0x10 = 0 then 28 else 12)"

definition saved_base :: "u32 \<Rightarrow> u32 \<Rightarrow> u32" where
  "saved_base lr sp = sp - 4 * word_of_nat (saved_words lr)"

definition saved_area :: "u32 \<Rightarrow> u32 \<Rightarrow> u32 set" where
  "saved_area lr sp = slot (saved_base lr sp) ` {..<saved_words lr + 8}"

lemma slot_saved: "slot (saved_base lr sp) (saved_words lr) = sp"
  by (simp add: slot_def saved_base_def)

lemma saved_base_steps:
  "sp - 4 * 8 = slot (saved_base lr sp) (saved_words lr - 8)"
  "lr AND 0x10 = 0 \<Longrightarrow> sp - 4 * 8 - 4 * 16 = slot (saved_base lr sp) 4"
  "lr AND 0x10 = 0 \<Longrightarrow> sp - 4 * 8 - 4 * 16 - 4 * 4 = saved_base lr sp"
  "lr AND 0x10 \<noteq> 0 \<Longrightarrow> sp - 4 * 8 - 4 * 4 = saved_base lr sp"
  by (auto simp: slot_def saved_base_def saved_words_def)

text \<open>What the memory holds for a suspended caller.\<close>

definition saved_frame :: "mem \<Rightarrow> u32 \<Rightarrow> u32 \<Rightarrow> machine \<Rightarrow> bool" where
  "saved_frame mem lr sp m \<longleftrightarrow>
     (let c = saved_base lr sp; k = saved_words lr; st = m_states m ! unat (m_active m) in
      mem (slot c 0) = sp \<and> mem (slot c 1) = bs_lr st \<and> mem (slot c 2) = bs_sp st \<and>
      mem (slot c 3) = bs_caller st \<and>
      (\<forall>i<8. mem (slot c (k - 8 + i)) = m_r4_r11 m ! i) \<and>
      (lr AND 0x10 = 0 \<longrightarrow> (\<forall>i<16. mem (slot c (4 + i)) = m_s16_s31 m ! i)) \<and>
      (\<forall>i<8. mem (slot c (k + i)) = m_mem m (slot sp i)))"

lemma push_regs_base: "fst (push_regs lr sp m) - 4 * 4 = saved_base lr sp"
  by (simp add: push_regs_def Let_def saved_base_def saved_words_def)

lemma push_regs_slots:
  fixes lr sp :: u32
  assumes "length (m_r4_r11 m) = 8" and "length (m_s16_s31 m) = 16"
  defines "c \<equiv> saved_base lr sp" and "k \<equiv> saved_words lr"
  shows "i < 8 \<Longrightarrow> snd (push_regs lr sp m) (slot c (k - 8 + i)) = m_r4_r11 m ! i"
    and "lr AND 0x10 = 0 \<Longrightarrow> i < 16 \<Longrightarrow> snd (push_regs lr sp m) (slot c (4 + i)) = m_s16_s31 m ! i"
    and "i < 8 \<Longrightarrow> snd (push_regs lr sp m) (slot c (k + i)) = m_mem m (slot c (k + i))"
proof -
  have a: "sp - 32 = slot c (k - 8)" and b: "lr AND 0x10 = 0 \<Longrightarrow> slot c 20 - 64 = slot c 4"
    by (auto simp: slot_def c_def k_def saved_base_def saved_words_def)
  show "i < 8 \<Longrightarrow> snd (push_regs lr sp m) (slot c (k - 8 + i)) = m_r4_r11 m ! i"
    and "lr AND 0x10 = 0 \<Longrightarrow> i < 16 \<Longrightarrow> snd (push_regs lr sp m) (slot c (4 + i)) = m_s16_s31 m ! i"
    and "i < 8 \<Longrightarrow> snd (push_regs lr sp m) (slot c (k + i)) = m_mem m (slot c (k + i))"
    using assms(1,2)
    by (auto simp: push_regs_def Let_def a b store_words_slot k_def saved_words_def)
qed

lemma fold_copy_other:
  "\<forall>i\<in>set is. b \<noteq> dst + 4 * i \<Longrightarrow> fold (copy_word dst src) is mem b = mem b"
  by (induction "is" arbitrary: mem) (auto simp: copy_word_def)

text \<open>The effect of a successful \<^verbatim>\<open>__box_callsetup\<close>, up to the exception frame it builds on the
  target's stack.\<close>

lemma callsetup_effect:
  assumes "box_callsetup g lr c op fp m = Inr (r, m')"
  defines "x \<equiv> m_active m" and "y \<equiv> m_active m'"
  assumes "unat x \<noteq> unat y"
  shows "r = ret64 (bs_lr (m_states m ! unat y)) (bs_sp (m_states m ! unat y) - 4 * 8)"
    and "m_states m' = (m_states m)[unat x := (m_states m ! unat x)\<lparr>bs_lr := lr, bs_sp := c\<rparr>,
      unat y := (m_states m ! unat y)\<lparr>bs_caller := x, bs_lr := 0\<rparr>]"
    and "m_mpu m' = g_switch g (g_mpuregions g ! unat y) (m_mpu m)"
    and "\<forall>i<8. b \<noteq> slot (bs_sp (m_states m ! unat y) - 4 * 8) i \<Longrightarrow>
      m_mem m' b = ((m_mem m)(slot c 0 := fp, slot c 1 := bs_lr (m_states m ! unat x),
        slot c 2 := bs_sp (m_states m ! unat x), slot c 3 := bs_caller (m_states m ! unat x))) b"
    and "m_r4_r11 m' = m_r4_r11 m" and "m_s16_s31 m' = m_s16_s31 m"
    and "m_msp m' = m_msp m" and "m_psp m' = m_psp m"
proof -
  obtain pc where pc: "(r, m') = enter_target g y fp pc (save_caller lr c fp m)"
    using assms(1) unfolding box_callsetup_def Let_def y_def
    by (auto simp: enter_target_def Let_def split: prod.splits option.splits)
  have nth: "m_states (save_caller lr c fp m) ! unat y = m_states m ! unat y"
    using assms(4) by (simp add: save_caller_def Let_def x_def)
  show "r = ret64 (bs_lr (m_states m ! unat y)) (bs_sp (m_states m ! unat y) - 4 * 8)"
    and "m_mpu m' = g_switch g (g_mpuregions g ! unat y) (m_mpu m)"
    and "m_r4_r11 m' = m_r4_r11 m" and "m_s16_s31 m' = m_s16_s31 m"
    and "m_msp m' = m_msp m" and "m_psp m' = m_psp m"
    using pc by (simp_all add: enter_target_def Let_def nth) (simp_all add: save_caller_def Let_def)
  show "m_states m' = (m_states m)[unat x := (m_states m ! unat x)\<lparr>bs_lr := lr, bs_sp := c\<rparr>,
      unat y := (m_states m ! unat y)\<lparr>bs_caller := x, bs_lr := 0\<rparr>]"
    using pc by (simp add: enter_target_def Let_def nth) (simp add: save_caller_def Let_def x_def)
  assume b: "\<forall>i<8. b \<noteq> slot (bs_sp (m_states m ! unat y) - 4 * 8) i"
  have "b \<noteq> bs_sp (m_states m ! unat y) - 4 * 8 + 4 * word_of_nat i" if "i < 8" for i
    using b [rule_format, OF that] unfolding slot_def .
  from this [of 0] this [of 1] this [of 2] this [of 3] this [of 4] this [of 5] this [of 6] this [of 7]
  have "m_mem m' b = m_mem (save_caller lr c fp m) b"
    using pc by (simp add: enter_target_def Let_def nth call_frame_def copy_word_def)
  then show "m_mem m' b = ((m_mem m)(slot c 0 := fp, slot c 1 := bs_lr (m_states m ! unat x),
        slot c 2 := bs_sp (m_states m ! unat x), slot c 3 := bs_caller (m_states m ! unat x))) b"
    by (simp add: save_caller_def Let_def slot_def x_def)
qed

text \<open>After a successful call the caller's registers and frame are in its saved area, if the
  stack of the target does not reach into it.\<close>

lemma callhandler_effect:
  assumes "box_callhandler g lr sp op m = Inr (r0, m')"
    and "length (m_r4_r11 m) = 8" and "length (m_s16_s31 m) = 16"
  defines "x \<equiv> m_active m" and "y \<equiv> m_active m'"
  defines "tsp \<equiv> bs_sp (m_states m ! unat y) - 4 * 8"
  assumes "unat x \<noteq> unat y" and "\<forall>i<8. slot tsp i \<notin> saved_area lr sp"
  shows "saved_frame (m_mem m') lr sp m"
    and "m_states m' = (m_states m)[unat x := (m_states m ! unat x)\<lparr>bs_lr := lr, bs_sp := saved_base lr sp\<rparr>,
      unat y := (m_states m ! unat y)\<lparr>bs_caller := x, bs_lr := 0\<rparr>]"
    and "m_mpu m' = g_switch g (g_mpuregions g ! unat y) (m_mpu m)"
    and "r0 = bs_lr (m_states m ! unat y)"
    and "(if r0 AND 0x4 = 0 then m_msp m' else m_psp m') = tsp"
proof -
  let ?c = "saved_base lr sp" and ?k = "saved_words lr"
  obtain mem msp where push: "mem = snd (push_regs lr sp m)" and
    "box_callhandler g lr sp op m =
      (case box_callsetup g lr ?c op sp (m\<lparr>m_mem := mem, m_msp := msp\<rparr>) of
        Inl e \<Rightarrow> Inl e
      | Inr (r, m') \<Rightarrow> Inr (lo32 r, if lo32 r AND 0x4 = 0 then m'\<lparr>m_msp := hi32 r\<rparr>
            else m'\<lparr>m_psp := hi32 r, m_msp := m_msp m' + 8 * 4\<rparr>))"
    using push_regs_base [of lr sp m] that
    by (cases "push_regs lr sp m") (simp add: box_callhandler_def Let_def)
  then obtain r m1 where cs: "box_callsetup g lr ?c op sp (m\<lparr>m_mem := mem, m_msp := msp\<rparr>) = Inr (r, m1)"
    and r0: "r0 = lo32 r"
    and m': "m' = (if lo32 r AND 0x4 = 0 then m1\<lparr>m_msp := hi32 r\<rparr>
            else m1\<lparr>m_psp := hi32 r, m_msp := m_msp m1 + 8 * 4\<rparr>)"
    using assms(1) by (auto split: sum.splits)
  have same: "m_mem m' = m_mem m1" "m_states m' = m_states m1" "m_mpu m' = m_mpu m1" "m_active m' = m_active m1"
    unfolding m' by simp_all
  note eff = callsetup_effect [OF cs, simplified, folded x_def, folded same(4), folded y_def, OF assms(7)]
  show "m_states m' = (m_states m)[unat x := (m_states m ! unat x)\<lparr>bs_lr := lr, bs_sp := ?c\<rparr>,
      unat y := (m_states m ! unat y)\<lparr>bs_caller := x, bs_lr := 0\<rparr>]"
    and "m_mpu m' = g_switch g (g_mpuregions g ! unat y) (m_mpu m)"
    using eff(2,3) same by simp_all
  show "r0 = bs_lr (m_states m ! unat y)"
    and "(if r0 AND 0x4 = 0 then m_msp m' else m_psp m') = tsp"
    using eff(1) by (simp_all add: r0 m' tsp_def)
  have other: "m_mem m' (slot ?c j) = (if j = 0 then sp else if j = 1 then bs_lr (m_states m ! unat x)
      else if j = 2 then bs_sp (m_states m ! unat x) else if j = 3 then bs_caller (m_states m ! unat x)
      else mem (slot ?c j))" if "j < ?k + 8" for j
  proof -
    have "slot ?c j \<in> saved_area lr sp" using that by (auto simp: saved_area_def)
    then have "\<forall>i<8. slot ?c j \<noteq> slot (bs_sp (m_states m ! unat y) - 32) i"
      using assms(8) by (auto simp: tsp_def)
    from eff(4) [OF this] show ?thesis
      using that by (auto simp: same saved_words_def split: if_splits)
  qed
  note regs = push_regs_slots [OF assms(2,3), where lr = lr and sp = sp, folded push]
  show "saved_frame (m_mem m') lr sp m"
    using other regs slot_add [of ?c ?k] slot_saved [of lr sp]
    by (auto simp: saved_frame_def Let_def saved_words_def x_def split: if_splits)
qed

subsection \<open>Returning to a suspended caller\<close>

definition suspended :: "machine \<Rightarrow> u32 \<Rightarrow> u32 \<Rightarrow> u32 \<Rightarrow> bool" where
  "suspended m x lr sp \<longleftrightarrow>
     unat x \<noteq> unat (m_active m) \<and> unat x < length (m_states m) \<and> unat (m_active m) < length (m_states m) \<and>
     bs_caller (m_states m ! unat (m_active m)) = x \<and>
     bs_lr (m_states m ! unat x) = lr \<and> bs_sp (m_states m ! unat x) = saved_base lr sp"

lemma frame_slots:
  "saved_base lr sp + 4 * 0 = slot (saved_base lr sp) 0" "saved_base lr sp + 4 * 1 = slot (saved_base lr sp) 1"
  "saved_base lr sp + 4 * 2 = slot (saved_base lr sp) 2" "saved_base lr sp + 4 * 3 = slot (saved_base lr sp) 3"
  by (simp_all add: slot_def)

lemma return_frame_eq:
  "return_frame tfp fp mem =
     (let mem1 = mem(slot tfp 0 := mem (slot fp 0));
          mem2 = mem1(slot tfp 1 := mem1 (slot fp 1));
          mem3 = mem2(slot tfp 2 := mem2 (slot fp 2));
          mem4 = mem3(slot tfp 3 := mem3 (slot fp 3))
      in mem4(slot tfp 6 := mem4 (slot tfp 5)))"
  by (simp add: return_frame_def copy_word_def Let_def slot_def)

lemma return_frame_slots:
  assumes "i < 8" and "\<forall>i<4. \<forall>j<8. slot fp i \<noteq> slot tfp j"
  shows "return_frame tfp fp mem (slot tfp i) =
    (if i < 4 then mem (slot fp i) else if i = 6 then mem (slot tfp 5) else mem (slot tfp i))"
proof -
  have n: "slot fp 1 \<noteq> slot tfp 0" "slot fp 2 \<noteq> slot tfp 0" "slot fp 2 \<noteq> slot tfp 1"
      "slot fp 3 \<noteq> slot tfp 0" "slot fp 3 \<noteq> slot tfp 1" "slot fp 3 \<noteq> slot tfp 2"
    using assms(2) by simp_all
  consider "i = 0" | "i = 1" | "i = 2" | "i = 3" | "i = 4" | "i = 5" | "i = 6" | "i = 7"
    using assms(1) by linarith
  then show ?thesis
    unfolding return_frame_eq Let_def by cases (simp_all add: n [simplified])
qed

lemma return_frame_other:
  assumes "\<forall>i<8. b \<noteq> slot tfp i"
  shows "return_frame tfp fp mem b = mem b"
proof -
  have b: "b \<noteq> tfp + 4 * word_of_nat i" if "i < 8" for i
    using assms [rule_format, OF that] unfolding slot_def .
  from b [of 0] b [of 1] b [of 2] b [of 3] b [of 6] show ?thesis
    by (simp add: return_frame_def copy_word_def Let_def)
qed

lemma list_of_nth: "length xs = n \<Longrightarrow> (\<And>i. i < n \<Longrightarrow> f i = xs ! i) \<Longrightarrow> map f [0..<n] = xs"
  by (rule nth_equalityI) auto

text \<open>The shared tail of the handlers restores the registers of a suspended caller.\<close>

lemma restore_regs_effect:
  assumes "length (m_r4_r11 m0) = 8" and "length (m_s16_s31 m0) = 16"
    and "\<forall>i<8. m_mem m (slot (saved_base lr sp) (saved_words lr - 8 + i)) = m_r4_r11 m0 ! i"
    and "lr AND 0x10 = 0 \<longrightarrow> (\<forall>i<16. m_mem m (slot (saved_base lr sp) (4 + i)) = m_s16_s31 m0 ! i)"
    and "restore_regs (ret64 lr (saved_base lr sp)) m = (r0, m')"
  shows "r0 = lr" and "m_r4_r11 m' = m_r4_r11 m0"
    and "m_s16_s31 m' = (if lr AND 0x10 = 0 then m_s16_s31 m0 else m_s16_s31 m)"
    and "(if lr AND 0x4 = 0 then m_msp m' else m_psp m') = sp"
    and "m_mem m' = m_mem m" and "m_states m' = m_states m" and "m_active m' = m_active m"
    and "m_mpu m' = m_mpu m"
proof -
  let ?c = "saved_base lr sp" and ?k = "saved_words lr"
  have a: "?c + 16 = slot ?c 4" and b: "lr AND 0x10 = 0 \<Longrightarrow> slot ?c 4 + 64 = slot ?c (?k - 8)"
    and b': "lr AND 0x10 \<noteq> 0 \<Longrightarrow> slot ?c 4 = slot ?c (?k - 8)"
    and c: "slot ?c (?k - 8) + 32 = sp"
    by (auto simp: slot_def saved_words_def saved_base_def)
  have r4: "load_words 8 (slot ?c (?k - 8)) (m_mem m) = m_r4_r11 m0"
    unfolding load_words_slot using assms(1,3) by (intro list_of_nth) auto
  have s16: "lr AND 0x10 = 0 \<Longrightarrow> load_words 16 (slot ?c 4) (m_mem m) = m_s16_s31 m0"
    unfolding load_words_slot using assms(2,4) by (intro list_of_nth) auto
  show "r0 = lr" and "m_r4_r11 m' = m_r4_r11 m0"
    and "m_s16_s31 m' = (if lr AND 0x10 = 0 then m_s16_s31 m0 else m_s16_s31 m)"
    and "(if lr AND 0x4 = 0 then m_msp m' else m_psp m') = sp"
    and "m_mem m' = m_mem m" and "m_states m' = m_states m" and "m_active m' = m_active m"
    and "m_mpu m' = m_mpu m"
    using assms(5) a b b' c r4 s16
    by (auto simp: restore_regs_def Let_def split: if_splits)
qed

lemma returnhandler_effect:
  assumes "suspended m2 x lr sp" and "lr \<noteq> 0" and "x = m_active m" and "saved_frame (m_mem m2) lr sp m"
    and "length (m_r4_r11 m) = 8" and "length (m_s16_s31 m) = 16"
    and "\<forall>i<4. slot sp2 i \<notin> saved_area lr sp"
  shows "\<exists>m3. box_returnhandler g lr2 sp2 op2 m2 = Inr (lr, m3) \<and>
    m_active m3 = x \<and>
    m_states m3 = (m_states m2)[unat (m_active m2) := (m_states m2 ! unat (m_active m2))\<lparr>bs_lr := lr2\<rparr>,
      unat x := (m_states m2 ! unat x)\<lparr>bs_lr := bs_lr (m_states m ! unat x),
        bs_sp := bs_sp (m_states m ! unat x), bs_caller := bs_caller (m_states m ! unat x)\<rparr>] \<and>
    m_mpu m3 = g_switch g (g_mpuregions g ! unat x) (m_mpu m2) \<and>
    m_r4_r11 m3 = m_r4_r11 m \<and>
    (lr AND 0x10 = 0 \<longrightarrow> m_s16_s31 m3 = m_s16_s31 m) \<and>
    (if lr AND 0x4 = 0 then m_msp m3 else m_psp m3) = sp \<and>
    (\<forall>i<8. m_mem m3 (slot sp i) = (if i < 4 then m_mem m2 (slot sp2 i)
      else if i = 6 then m_mem m (slot sp 5) else m_mem m (slot sp i)))"
proof -
  let ?c = "saved_base lr sp" and ?k = "saved_words lr"
  define mem where "mem = m_mem m2"
  have frame: "mem (slot ?c 0) = sp" "mem (slot ?c 1) = bs_lr (m_states m ! unat x)"
      "mem (slot ?c 2) = bs_sp (m_states m ! unat x)" "mem (slot ?c 3) = bs_caller (m_states m ! unat x)"
    and regs: "\<forall>i<8. mem (slot ?c (?k - 8 + i)) = m_r4_r11 m ! i"
      "lr AND 0x10 = 0 \<longrightarrow> (\<forall>i<16. mem (slot ?c (4 + i)) = m_s16_s31 m ! i)"
    and exc: "\<forall>i<8. mem (slot sp i) = m_mem m (slot sp i)"
    using assms(3,4) slot_add [of ?c ?k] slot_saved [of lr sp]
    by (simp_all add: saved_frame_def Let_def mem_def)
  define rf where "rf = return_frame sp sp2 mem"
  have low: "rf (slot ?c j) = mem (slot ?c j)" if "j < ?k" for j
  proof -
    have "slot ?c j \<noteq> slot ?c (?k + i)" if "i < 8" for i
      using that \<open>j < ?k\<close> by (subst slot_inj) (auto simp: saved_words_def split: if_splits)
    then show ?thesis
      unfolding rf_def using slot_add [of ?c ?k] slot_saved [of lr sp]
      by (intro return_frame_other) simp
  qed
  have "slot sp2 i \<noteq> slot sp j" if "i < 4" "j < 8" for i j
  proof -
    have "slot sp j = slot ?c (?k + j)" using slot_add [of ?c ?k j] slot_saved [of lr sp] by simp
    then have "slot sp j \<in> saved_area lr sp" using that by (auto simp: saved_area_def)
    then show ?thesis using assms(7) that by auto
  qed
  then have ret: "rf (slot sp i) = (if i < 4 then mem (slot sp2 i) else if i = 6 then m_mem m (slot sp 5)
      else m_mem m (slot sp i))" if "i < 8" for i
    unfolding rf_def using that exc by (subst return_frame_slots) auto
  let ?y = "unat (m_active m2)"
  let ?m = "m2\<lparr>m_states := ((m_states m2)[?y := (m_states m2 ! ?y)\<lparr>bs_lr := lr2\<rparr>])
        [unat x := pop_frame ?c mem (m_states m2 ! unat x)],
      m_active := x, m_mpu := g_switch g (g_mpuregions g ! unat x) (m_mpu m2), m_mem := rf\<rparr>"
  have s: "box_returnsetup g lr2 sp2 op2 sp2 m2 = SetupDone (ret64 lr ?c) ?m"
    using assms(1,2) frame(1)
    by (auto simp: box_returnsetup_def suspended_def Let_def mem_def rf_def slot_0)
  obtain r0 m3 where r: "restore_regs (ret64 lr ?c) ?m = (r0, m3)" by fastforce
  have "\<forall>i<8. m_mem ?m (slot ?c (?k - 8 + i)) = m_r4_r11 m ! i"
    using regs(1) low by (auto simp: saved_words_def split: if_splits)
  moreover have "lr AND 0x10 = 0 \<longrightarrow> (\<forall>i<16. m_mem ?m (slot ?c (4 + i)) = m_s16_s31 m ! i)"
    using regs(2) low by (auto simp: saved_words_def)
  ultimately have m3: "r0 = lr" "m_r4_r11 m3 = m_r4_r11 m" "lr AND 0x10 = 0 \<longrightarrow> m_s16_s31 m3 = m_s16_s31 m"
    "(if lr AND 0x4 = 0 then m_msp m3 else m_psp m3) = sp" "m_mem m3 = rf"
    "m_states m3 = m_states ?m" "m_active m3 = x" "m_mpu m3 = m_mpu ?m"
    using restore_regs_effect [OF assms(5,6) _ _ r] by auto
  moreover have "pop_frame ?c mem st = st\<lparr>bs_lr := bs_lr (m_states m ! unat x),
      bs_sp := bs_sp (m_states m ! unat x), bs_caller := bs_caller (m_states m ! unat x)\<rparr>" for st
    by (simp only: pop_frame_def frame_slots frame)
  ultimately show ?thesis
    using s r ret
    by (intro exI [of _ m3]) (simp add: box_returnhandler_def mem_def)
qed

lemma fault_frame_slots:
  assumes "i < 8"
  shows "fault_frame tfp err mem (slot tfp i) =
    (if i = 0 then word_of_int err else if i < 4 then 0 else if i = 6 then mem (slot tfp 5)
     else mem (slot tfp i))"
proof -
  have eq: "fault_frame tfp err mem = (let mem1 = mem(slot tfp 0 := word_of_int err, slot tfp 1 := 0,
      slot tfp 2 := 0, slot tfp 3 := 0) in mem1(slot tfp 6 := mem1 (slot tfp 5)))"
    by (simp add: fault_frame_def slot_def)
  consider "i = 0" | "i = 1" | "i = 2" | "i = 3" | "i = 4" | "i = 5" | "i = 6" | "i = 7"
    using assms(1) by linarith
  then show ?thesis
    unfolding eq Let_def by cases simp_all
qed

lemma fault_frame_other:
  assumes "\<forall>i<8. b \<noteq> slot tfp i"
  shows "fault_frame tfp err mem b = mem b"
proof -
  have b: "b \<noteq> tfp + 4 * word_of_nat i" if "i < 8" for i
    using assms [rule_format, OF that] unfolding slot_def .
  from b [of 0] b [of 1] b [of 2] b [of 3] b [of 6] show ?thesis
    by (simp add: fault_frame_def Let_def)
qed

lemma faulthandler_effect:
  assumes "suspended m2 x lr sp" and "lr \<noteq> 0" and "x = m_active m" and "saved_frame (m_mem m2) lr sp m"
    and "length (m_r4_r11 m) = 8" and "length (m_s16_s31 m) = 16"
    and "\<not> g_aborts g ! unat (m_active m2)" and "m_mem m (slot sp 6) AND 2 \<noteq> 0"
  shows "\<exists>m3. box_faulthandler g err m2 = Inr (lr, m3) \<and>
    m_active m3 = x \<and>
    m_states m3 = (m_states m2)[unat (m_active m2) :=
        (m_states m2 ! unat (m_active m2))\<lparr>bs_initialized := False\<rparr>,
      unat x := (m_states m2 ! unat x)\<lparr>bs_lr := bs_lr (m_states m ! unat x),
        bs_sp := bs_sp (m_states m ! unat x), bs_caller := bs_caller (m_states m ! unat x)\<rparr>] \<and>
    m_mpu m3 = g_switch g (g_mpuregions g ! unat x) (m_mpu m2) \<and>
    m_r4_r11 m3 = m_r4_r11 m \<and>
    (lr AND 0x10 = 0 \<longrightarrow> m_s16_s31 m3 = m_s16_s31 m) \<and>
    (if lr AND 0x4 = 0 then m_msp m3 else m_psp m3) = sp \<and>
    (\<forall>i<8. m_mem m3 (slot sp i) = (if i = 0 then word_of_int err else if i < 4 then 0
      else if i = 6 then m_mem m (slot sp 5) else m_mem m (slot sp i)))"
proof -
  let ?c = "saved_base lr sp" and ?k = "saved_words lr"
  define mem where "mem = m_mem m2"
  have frame: "mem (slot ?c 0) = sp" "mem (slot ?c 1) = bs_lr (m_states m ! unat x)"
      "mem (slot ?c 2) = bs_sp (m_states m ! unat x)" "mem (slot ?c 3) = bs_caller (m_states m ! unat x)"
    and regs: "\<forall>i<8. mem (slot ?c (?k - 8 + i)) = m_r4_r11 m ! i"
      "lr AND 0x10 = 0 \<longrightarrow> (\<forall>i<16. mem (slot ?c (4 + i)) = m_s16_s31 m ! i)"
    and exc: "\<forall>i<8. mem (slot sp i) = m_mem m (slot sp i)"
    using assms(3,4) slot_add [of ?c ?k] slot_saved [of lr sp]
    by (simp_all add: saved_frame_def Let_def mem_def)
  define rf where "rf = fault_frame sp err mem"
  have low: "rf (slot ?c j) = mem (slot ?c j)" if "j < ?k" for j
  proof -
    have "slot ?c j \<noteq> slot ?c (?k + i)" if "i < 8" for i
      using that \<open>j < ?k\<close> by (subst slot_inj) (auto simp: saved_words_def split: if_splits)
    then show ?thesis
      unfolding rf_def using slot_add [of ?c ?k] slot_saved [of lr sp]
      by (intro fault_frame_other) simp
  qed
  have ret: "rf (slot sp i) = (if i = 0 then word_of_int err else if i < 4 then 0
      else if i = 6 then m_mem m (slot sp 5) else m_mem m (slot sp i))" if "i < 8" for i
    unfolding rf_def using that exc by (subst fault_frame_slots) auto
  let ?y = "unat (m_active m2)"
  let ?m = "m2\<lparr>m_states := ((m_states m2)[?y := (m_states m2 ! ?y)\<lparr>bs_initialized := False\<rparr>])
        [unat x := pop_frame ?c mem (m_states m2 ! unat x)],
      m_active := x, m_mpu := g_switch g (g_mpuregions g ! unat x) (m_mpu m2), m_mem := rf\<rparr>"
  have "mem (slot sp 6) AND 2 \<noteq> 0" and "slot sp 6 = sp + 24"
    using assms(8) exc by simp (simp add: slot_def)
  then have s: "box_faultsetup g err m2 = Inr (ret64 lr ?c, ?m)"
    using assms(1,2,7) frame(1)
    by (auto simp: box_faultsetup_def suspended_def Let_def mem_def rf_def slot_0)
  obtain r0 m3 where r: "restore_regs (ret64 lr ?c) ?m = (r0, m3)" by fastforce
  have "\<forall>i<8. m_mem ?m (slot ?c (?k - 8 + i)) = m_r4_r11 m ! i"
    using regs(1) low by (auto simp: saved_words_def split: if_splits)
  moreover have "lr AND 0x10 = 0 \<longrightarrow> (\<forall>i<16. m_mem ?m (slot ?c (4 + i)) = m_s16_s31 m ! i)"
    using regs(2) low by (auto simp: saved_words_def)
  ultimately have m3: "r0 = lr" "m_r4_r11 m3 = m_r4_r11 m" "lr AND 0x10 = 0 \<longrightarrow> m_s16_s31 m3 = m_s16_s31 m"
    "(if lr AND 0x4 = 0 then m_msp m3 else m_psp m3) = sp" "m_mem m3 = rf"
    "m_states m3 = m_states ?m" "m_active m3 = x" "m_mpu m3 = m_mpu ?m"
    using restore_regs_effect [OF assms(5,6) _ _ r] by auto
  moreover have "pop_frame ?c mem st = st\<lparr>bs_lr := bs_lr (m_states m ! unat x),
      bs_sp := bs_sp (m_states m ! unat x), bs_caller := bs_caller (m_states m ! unat x)\<rparr>" for st
    by (simp only: pop_frame_def frame_slots frame)
  ultimately show ?thesis
    using s r ret
    by (intro exI [of _ m3]) (simp add: box_faulthandler_def)
qed

subsection \<open>Well-formed tables\<close>

definition wf_glue :: "box_glue \<Rightarrow> bool" where
  "wf_glue g \<longleftrightarrow> 0 < g_count g \<and> unat (g_count g) < 2 ^ 16 \<and>
     length (g_mpuregions g) = Suc (unat (g_count g)) \<and>
     length (g_jumptables g) = unat (g_count g) \<and> length (g_sys_jumptables g) = unat (g_count g) \<and>
     length (g_aborts g) = Suc (unat (g_count g)) \<and>
     (\<forall>i\<le>unat (g_count g). mr_control (g_mpuregions g ! i) = (if i = 0 then 0 else 1))"

lemma call_target_active:
  assumes "wf_glue g" and "call_target g x op mem = (y, pc)"
  shows "unat y \<le> unat (g_count g)" and "unat x \<noteq> unat y"
    and "x = 0 \<Longrightarrow> unat y = unat (op div 4 - 2) mod unat (g_count g) + 1"
proof -
  define n where "n = unat ((op div 4 - 2) mod g_count g)"
  have n: "n = unat (op div 4 - 2) mod unat (g_count g)" by (simp add: n_def unat_mod)
  then have lt: "n < unat (g_count g)"
    using assms(1) by (simp add: wf_glue_def word_less_nat_alt)
  then have y: "unat ((op div 4 - 2) mod g_count g + 1) = n + 1"
    using assms(1) by (subst unat_add_nat) (auto simp: n_def wf_glue_def)
  show "unat y \<le> unat (g_count g)" and "unat x \<noteq> unat y"
    using assms(2) lt y by (auto simp: call_target_def Let_def unat_eq_0 split: if_splits)
  show "x = 0 \<Longrightarrow> unat y = unat (op div 4 - 2) mod unat (g_count g) + 1"
    using assms(2) y n by (auto simp: call_target_def Let_def)
qed

lemma callhandler_active:
  assumes "wf_glue g" and "box_callhandler g lr sp op m = Inr (r0, m')"
  shows "unat (m_active m') \<le> unat (g_count g)" and "unat (m_active m) \<noteq> unat (m_active m')"
    and "m_active m = 0 \<Longrightarrow> unat (m_active m') = unat (op div 4 - 2) mod unat (g_count g) + 1"
proof -
  obtain mem y pc where ct: "call_target g (m_active m) op mem = (y, Some pc)" and y: "m_active m' = y"
    using assms(2)
    by (auto simp: box_callhandler_def box_callsetup_def enter_target_def Let_def save_caller_def
        split: prod.splits sum.splits option.splits if_splits)
  show "unat (m_active m') \<le> unat (g_count g)" and "unat (m_active m) \<noteq> unat (m_active m')"
    and "m_active m = 0 \<Longrightarrow> unat (m_active m') = unat (op div 4 - 2) mod unat (g_count g) + 1"
    using call_target_active [OF assms(1) ct] y by simp_all
qed

lemma saved_frame_cong:
  assumes "\<forall>a\<in>saved_area lr sp. mem' a = mem a" and "saved_frame mem lr sp m"
  shows "saved_frame mem' lr sp m"
proof -
  have "mem' (slot (saved_base lr sp) i) = mem (slot (saved_base lr sp) i)" if "i < saved_words lr + 8" for i
    using assms(1) that by (auto simp: saved_area_def)
  then show ?thesis
    using assms(2) by (auto simp: saved_frame_def Let_def saved_words_def split: if_splits)
qed

subsection \<open>Properties of the gateway\<close>

text \<open>C1: a call followed by its return restores the caller. Take any successful call, from the
  system into a box or from a box into the system, whose target's stack does not overlap the
  saved area of the caller. Let the callee run: it may change all memory outside of that
  area, and all registers. When it then returns, the handler re-enters the caller with its
  EXC_RETURN value, its stack pointer, its callee-saved registers, its box state and its MPU
  regions as they were, the four return registers of the callee in its exception frame and
  its link register as program counter.\<close>

theorem call_return_roundtrip:
  assumes "wf_glue g" and "unat (m_active m) \<le> unat (g_count g)"
    and "length (m_states m) = Suc (unat (g_count g))"
    and "length (m_r4_r11 m) = 8" and "length (m_s16_s31 m) = 16" and "lr \<noteq> 0"
    and "box_callhandler g lr sp op m = Inr (r0, m1)"
    and "\<forall>i<8. slot (bs_sp (m_states m ! unat (m_active m1)) - 4 * 8) i \<notin> saved_area lr sp"
    and "m_active m2 = m_active m1" and "m_states m2 = m_states m1"
    and "\<forall>a\<in>saved_area lr sp. m_mem m2 a = m_mem m1 a"
    and "\<forall>i<4. slot sp2 i \<notin> saved_area lr sp"
  shows "\<exists>m3. box_returnhandler g lr2 sp2 op2 m2 = Inr (lr, m3) \<and>
    m_active m3 = m_active m \<and>
    m_states m3 = (m_states m)[unat (m_active m1) :=
      (m_states m ! unat (m_active m1))\<lparr>bs_caller := m_active m, bs_lr := lr2\<rparr>] \<and>
    m_mpu m3 = g_switch g (g_mpuregions g ! unat (m_active m)) (m_mpu m2) \<and>
    m_r4_r11 m3 = m_r4_r11 m \<and> (lr AND 0x10 = 0 \<longrightarrow> m_s16_s31 m3 = m_s16_s31 m) \<and>
    (if lr AND 0x4 = 0 then m_msp m3 else m_psp m3) = sp \<and>
    (\<forall>i<8. m_mem m3 (slot sp i) = (if i < 4 then m_mem m2 (slot sp2 i)
      else if i = 6 then m_mem m (slot sp 5) else m_mem m (slot sp i)))"
proof -
  let ?x = "unat (m_active m)" and ?y = "unat (m_active m1)"
  note act = callhandler_active [OF assms(1,7)]
  note eff = callhandler_effect [OF assms(7,4,5) act(2) assms(8)]
  have bounds: "?x < length (m_states m)" "?y < length (m_states m)"
    using assms(2,3) act(1) by simp_all
  have susp: "suspended m2 (m_active m) lr sp"
    using assms(9,10) eff(2) act(2) bounds by (simp add: suspended_def)
  have frame: "saved_frame (m_mem m2) lr sp m"
    using saved_frame_cong [OF _ eff(1)] assms(11) by simp
  have states: "(m_states m2)[unat (m_active m2) := (m_states m2 ! unat (m_active m2))\<lparr>bs_lr := lr2\<rparr>,
      ?x := (m_states m2 ! ?x)\<lparr>bs_lr := bs_lr (m_states m ! ?x),
        bs_sp := bs_sp (m_states m ! ?x), bs_caller := bs_caller (m_states m ! ?x)\<rparr>] =
    (m_states m)[?y := (m_states m ! ?y)\<lparr>bs_caller := m_active m, bs_lr := lr2\<rparr>]"
    using assms(9,10) eff(2) act(2) bounds
    by (intro nth_equalityI) (auto simp: nth_list_update)
  show ?thesis
    using returnhandler_effect [OF susp assms(6) refl frame assms(4,5,12), of g lr2 op2]
    unfolding states .
qed

lemma callhandler_sys: "m_active m = 0 \<Longrightarrow> \<exists>r0 m1. box_callhandler g lr sp op m = Inr (r0, m1)"
  by (simp add: box_callhandler_def box_callsetup_def call_target_def save_caller_def Let_def
      split: prod.splits)

lemma slot_notin_saved:
  assumes "saved_words lr + 8 \<le> k" and "k + 8 < 2 ^ 30" and "i < 8"
  shows "slot (slot (saved_base lr sp) k) i \<notin> saved_area lr sp"
proof
  assume "slot (slot (saved_base lr sp) k) i \<in> saved_area lr sp"
  then obtain j where j: "j < saved_words lr + 8" "slot (saved_base lr sp) (k + i) = slot (saved_base lr sp) j"
    by (auto simp: saved_area_def slot_add)
  have "j < 2 ^ 30" using assms(1,2) j(1) by linarith
  moreover have "k + i < 2 ^ 30" using assms by linarith
  ultimately have "k + i = j" using j(2) by (metis slot_inj)
  with j(1) assms(1) show False by simp
qed

text \<open>The system of armv7m-mpu-hello about to call box 1 on the main stack, without floating
  point context.\<close>

definition demo_glue :: box_glue where
  "demo_glue = hello_glue [0x000fe000, 0x000fc000] 0x101 0x201 0x301"

definition demo_machine :: machine where
  "demo_machine = \<lparr>m_active = 0,
     m_states = [\<lparr>bs_initialized = False, bs_caller = 0, bs_lr = 0, bs_sp = 0\<rparr>,
       \<lparr>bs_initialized = True, bs_caller = 0, bs_lr = 0xfffffffd, bs_sp = 0x20040000\<rparr>,
       \<lparr>bs_initialized = False, bs_caller = 0, bs_lr = 0, bs_sp = 0\<rparr>],
     m_mem = (\<lambda>a. a + 7), m_mpu = ([], 0), m_msp = 0x20030000, m_psp = 0,
     m_r4_r11 = [4, 5, 6, 7, 8, 9, 10, 11], m_s16_s31 = replicate 16 0\<rparr>"

lemma wf_hello_glue:
  assumes "length jumptables = 2"
  shows "wf_glue (hello_glue jumptables w f p)"
proof -
  have "i = 0 \<or> i = 1 \<or> i = 2" if "i \<le> 2" for i :: nat
    using that by arith
  then have "\<forall>i\<le>2. mr_control ([sys_mpuregions, box1_mpuregions, box2_mpuregions] ! i) = (if i = 0 then 0 else 1)"
    by (fastforce simp: sys_mpuregions_def box1_mpuregions_def box2_mpuregions_def)
  then show ?thesis
    using assms by (simp add: wf_glue_def hello_glue_def)
qed

lemma wf_demo_glue: "wf_glue demo_glue"
  by (simp add: demo_glue_def wf_hello_glue)

lemma demo_call:
  obtains r0 m1 where "box_callhandler demo_glue 0xfffffff9 0x20030000 18 demo_machine = Inr (r0, m1)"
    and "unat (m_active m1) = 1"
    and "\<forall>i<8. slot (bs_sp (m_states demo_machine ! unat (m_active m1)) - 4 * 8) i
      \<notin> saved_area 0xfffffff9 0x20030000"
proof -
  obtain r0 m1 where c: "box_callhandler demo_glue 0xfffffff9 0x20030000 18 demo_machine = Inr (r0, m1)"
    using callhandler_sys [of demo_machine demo_glue "0xfffffff9" "0x20030000" 18]
    by (auto simp: demo_machine_def)
  have y: "unat (m_active m1) = 1"
    using callhandler_active(3) [OF wf_demo_glue c]
    by (simp add: demo_machine_def demo_glue_def hello_glue_def)
  have "0x20040000 - 4 * 8 = slot (saved_base 0xfffffff9 0x20030000) 16388"
    by (simp add: slot_def saved_base_def saved_words_def)
  then have "\<forall>i<8. slot (bs_sp (m_states demo_machine ! unat (m_active m1)) - 4 * 8) i
      \<notin> saved_area 0xfffffff9 0x20030000"
    using slot_notin_saved [of "0xfffffff9" 16388 _ "0x20030000"] y
    by (simp add: demo_machine_def saved_words_def)
  with c y show thesis by (rule that)
qed

theorem call_return_roundtrip_witness:
  "\<exists>r0 m1 m3. box_callhandler demo_glue 0xfffffff9 0x20030000 18 demo_machine = Inr (r0, m1) \<and>
    box_returnhandler demo_glue 0xfffffffd 0x2003ffe0 0 m1 = Inr (0xfffffff9, m3) \<and>
    m_active m3 = 0 \<and> m_r4_r11 m3 = [4, 5, 6, 7, 8, 9, 10, 11] \<and> m_msp m3 = 0x20030000"
proof -
  obtain r0 m1 where c: "box_callhandler demo_glue 0xfffffff9 0x20030000 18 demo_machine = Inr (r0, m1)"
    and free: "\<forall>i<8. slot (bs_sp (m_states demo_machine ! unat (m_active m1)) - 4 * 8) i
      \<notin> saved_area 0xfffffff9 0x20030000"
    and y: "unat (m_active m1) = 1"
    by (rule demo_call)
  have ret: "\<forall>i<4. slot 0x2003ffe0 i \<notin> saved_area 0xfffffff9 0x20030000"
    using free y by (simp add: demo_machine_def)
  have m: "unat (m_active demo_machine) \<le> unat (g_count demo_glue)"
    "length (m_states demo_machine) = Suc (unat (g_count demo_glue))"
    "length (m_r4_r11 demo_machine) = 8" "length (m_s16_s31 demo_machine) = 16"
    by (simp_all add: demo_machine_def demo_glue_def hello_glue_def)
  show ?thesis
    using call_return_roundtrip [OF wf_demo_glue m _ c free refl refl _ ret, of "0xfffffffd" 0] c
    by (auto simp: demo_machine_def)
qed

text \<open>C4: a fault inside a call becomes an error of the call. In the situation of the round trip,
  if the callee faults or aborts with \<open>err\<close> instead of returning, it has no abort handler of
  its own, and the caller went through an import that can report errors (bit 1 of the faulting
  address), then the handler marks the callee as uninitialised and re-enters the caller, all
  restored, with \<open>err\<close> in \<open>r0\<close> and zero in \<open>r1\<close> to \<open>r3\<close>.\<close>

theorem call_fault_reports:
  assumes "wf_glue g" and "unat (m_active m) \<le> unat (g_count g)"
    and "length (m_states m) = Suc (unat (g_count g))"
    and "length (m_r4_r11 m) = 8" and "length (m_s16_s31 m) = 16" and "lr \<noteq> 0"
    and "box_callhandler g lr sp op m = Inr (r0, m1)"
    and "\<forall>i<8. slot (bs_sp (m_states m ! unat (m_active m1)) - 4 * 8) i \<notin> saved_area lr sp"
    and "m_active m2 = m_active m1" and "m_states m2 = m_states m1"
    and "\<forall>a\<in>saved_area lr sp. m_mem m2 a = m_mem m1 a"
    and "\<not> g_aborts g ! unat (m_active m1)" and "m_mem m (slot sp 6) AND 2 \<noteq> 0"
  shows "\<exists>m3. box_faulthandler g err m2 = Inr (lr, m3) \<and>
    m_active m3 = m_active m \<and>
    m_states m3 = (m_states m)[unat (m_active m1) :=
      (m_states m ! unat (m_active m1))\<lparr>bs_initialized := False, bs_caller := m_active m, bs_lr := 0\<rparr>] \<and>
    m_mpu m3 = g_switch g (g_mpuregions g ! unat (m_active m)) (m_mpu m2) \<and>
    m_r4_r11 m3 = m_r4_r11 m \<and> (lr AND 0x10 = 0 \<longrightarrow> m_s16_s31 m3 = m_s16_s31 m) \<and>
    (if lr AND 0x4 = 0 then m_msp m3 else m_psp m3) = sp \<and>
    (\<forall>i<8. m_mem m3 (slot sp i) = (if i = 0 then word_of_int err else if i < 4 then 0
      else if i = 6 then m_mem m (slot sp 5) else m_mem m (slot sp i)))"
proof -
  let ?x = "unat (m_active m)" and ?y = "unat (m_active m1)"
  note act = callhandler_active [OF assms(1,7)]
  note eff = callhandler_effect [OF assms(7,4,5) act(2) assms(8)]
  have bounds: "?x < length (m_states m)" "?y < length (m_states m)"
    using assms(2,3) act(1) by simp_all
  have susp: "suspended m2 (m_active m) lr sp"
    using assms(9,10) eff(2) act(2) bounds by (simp add: suspended_def)
  have frame: "saved_frame (m_mem m2) lr sp m"
    using saved_frame_cong [OF _ eff(1)] assms(11) by simp
  have states: "(m_states m2)[unat (m_active m2) := (m_states m2 ! unat (m_active m2))\<lparr>bs_initialized := False\<rparr>,
      ?x := (m_states m2 ! ?x)\<lparr>bs_lr := bs_lr (m_states m ! ?x),
        bs_sp := bs_sp (m_states m ! ?x), bs_caller := bs_caller (m_states m ! ?x)\<rparr>] =
    (m_states m)[?y := (m_states m ! ?y)\<lparr>bs_initialized := False, bs_caller := m_active m, bs_lr := 0\<rparr>]"
    using assms(9,10) eff(2) act(2) bounds
    by (intro nth_equalityI) (auto simp: nth_list_update)
  show ?thesis
    using faulthandler_effect [OF susp assms(6) refl frame assms(4,5) _ assms(13), of g err] assms(9,12)
    unfolding states by simp
qed

theorem call_fault_reports_witness:
  "\<exists>r0 m1 m3. box_callhandler demo_glue 0xfffffff9 0x20030000 18 demo_machine = Inr (r0, m1) \<and>
    box_faulthandler demo_glue (-14) m1 = Inr (0xfffffff9, m3) \<and>
    m_active m3 = 0 \<and> m_mem m3 0x20030000 = -14 \<and> \<not> bs_initialized (m_states m3 ! 1)"
proof -
  obtain r0 m1 where c: "box_callhandler demo_glue 0xfffffff9 0x20030000 18 demo_machine = Inr (r0, m1)"
    and free: "\<forall>i<8. slot (bs_sp (m_states demo_machine ! unat (m_active m1)) - 4 * 8) i
      \<notin> saved_area 0xfffffff9 0x20030000"
    and y: "unat (m_active m1) = 1"
    by (rule demo_call)
  have m: "unat (m_active demo_machine) \<le> unat (g_count demo_glue)"
    "length (m_states demo_machine) = Suc (unat (g_count demo_glue))"
    "length (m_r4_r11 demo_machine) = 8" "length (m_s16_s31 demo_machine) = 16"
    "\<not> g_aborts demo_glue ! unat (m_active m1)"
    "m_mem demo_machine (slot 0x20030000 6) AND 2 \<noteq> 0"
    using y by (simp_all add: demo_machine_def demo_glue_def hello_glue_def slot_def)
  show ?thesis
    using call_fault_reports [OF wf_demo_glue m(1-4) _ c free refl refl _ m(5,6), of "-14"] c y
    by (auto simp: demo_machine_def slot_0 dest: spec [of _ 0])
qed

end
