(* ===== verification/BoxGate.thy ===== *)
theory BoxGate
  imports BoxCallProps
begin

text \<open>
  The gateway as a whole: whichever handler an exception reaches, the MPU afterwards shows the
  regions of the box that is entered; an import of the linker script reaches the function it
  names with its arguments; and what happens to addresses that no import names.
\<close>

subsection \<open>The interface of an MPU driver\<close>

text \<open>The gateway switches regions through \<open>g_switch\<close>. What it relies on is that the driver's
  stores, whatever came before, leave the table of the region list and its privilege bit.\<close>

locale mpu_port =
  fixes sw :: "box_mpuregions \<Rightarrow> mmio \<times> u32 \<Rightarrow> mmio \<times> u32"
    and view :: "mmio \<Rightarrow> mpu_table"
    and ok :: "box_mpuregions \<Rightarrow> bool"
  assumes sw_shows: "ok r \<Longrightarrow> shows_regions (\<lambda>b. b) (view (fst (sw r st))) r"
    and sw_control: "bit (snd (sw r st)) 0 \<longleftrightarrow> bit (mr_control r) 0"

definition callers_ok :: "box_glue \<Rightarrow> box_state list \<Rightarrow> bool" where
  "callers_ok g states \<longleftrightarrow> length states = Suc (unat (g_count g)) \<and>
     (\<forall>i\<le>unat (g_count g). unat (bs_caller (states ! i)) \<le> unat (g_count g))"

definition entered :: "box_glue \<Rightarrow> machine \<Rightarrow> bool" where
  "entered g m \<longleftrightarrow> unat (m_active m) \<le> unat (g_count g) \<and>
     (\<exists>st. m_mpu m = g_switch g (g_mpuregions g ! unat (m_active m)) st)"

lemma restore_regs_keeps:
  "restore_regs r m = (r0, m') \<Longrightarrow> m_active m' = m_active m \<and> m_mpu m' = m_mpu m"
  by (auto simp: restore_regs_def Let_def split: if_splits)

lemma faulthandler_entered:
  assumes "callers_ok g (m_states m)" and "unat (m_active m) \<le> unat (g_count g)"
    and "box_faulthandler g err m = Inr (r0, m')"
  shows "entered g m'"
proof -
  obtain r m1 where s: "box_faultsetup g err m = Inr (r, m1)" and r: "restore_regs r m1 = (r0, m')"
    using assms(3) by (auto simp: box_faulthandler_def split: sum.splits)
  have "m_mpu m1 = g_switch g (g_mpuregions g ! unat (m_active m1)) (m_mpu m)"
    using s by (auto simp: box_faultsetup_def Let_def split: if_splits)
  moreover have "m_active m1 = bs_caller ((m_states m)[unat (m_active m) :=
      (m_states m ! unat (m_active m))\<lparr>bs_initialized := False\<rparr>] ! unat (m_active m))"
    using s by (auto simp: box_faultsetup_def Let_def split: if_splits)
  then have "unat (m_active m1) \<le> unat (g_count g)"
    using assms(1,2) by (simp add: callers_ok_def)
  ultimately have "entered g m1" unfolding entered_def by blast
  then show ?thesis using restore_regs_keeps [OF r] by (simp add: entered_def)
qed

lemma returnhandler_entered:
  assumes "callers_ok g (m_states m)" and "unat (m_active m) \<le> unat (g_count g)"
    and "box_returnhandler g lr sp op m = Inr (r0, m')"
  shows "entered g m'"
proof (cases "box_returnsetup g lr sp op sp m")
  case (SetupDone r m1)
  then have "m_mpu m1 = g_switch g (g_mpuregions g ! unat (m_active m1)) (m_mpu m)"
      "m_active m1 = bs_caller (m_states m ! unat (m_active m))"
    by (auto simp: box_returnsetup_def Let_def split: if_splits)
  moreover from this have "unat (m_active m1) \<le> unat (g_count g)"
    using assms(1,2) by (simp add: callers_ok_def)
  ultimately have "entered g m1" unfolding entered_def by blast
  moreover have "restore_regs r m1 = (r0, m')"
    using assms(3) SetupDone by (simp add: box_returnhandler_def)
  ultimately show ?thesis using restore_regs_keeps by (fastforce simp: entered_def)
next
  case (SetupFault err m1)
  let ?a = "unat (m_active m)"
  have "m_states m1 = (m_states m)[?a := (m_states m ! ?a)\<lparr>bs_lr := lr, bs_sp := bs_sp (m_states m ! ?a)\<rparr>]"
      "m_active m1 = bs_caller (m_states m ! ?a)"
    using SetupFault by (auto simp: box_returnsetup_def Let_def split: if_splits)
  then have "callers_ok g (m_states m1)" "unat (m_active m1) \<le> unat (g_count g)"
    using assms(1,2) by (simp_all add: callers_ok_def nth_list_update)
  then show ?thesis
    using faulthandler_entered assms(3) SetupFault by (simp add: box_returnhandler_def)
qed

lemma callhandler_entered:
  assumes "wf_glue g" and "box_callhandler g lr sp op m = Inr (r0, m')"
  shows "entered g m'"
proof -
  have "m_mpu m' = g_switch g (g_mpuregions g ! unat (m_active m')) (m_mpu m)"
    using assms(2)
    by (auto simp: box_callhandler_def box_callsetup_def enter_target_def Let_def save_caller_def
        split: prod.splits sum.splits option.splits if_splits)
  then show ?thesis
    using callhandler_active(1) [OF assms] unfolding entered_def by blast
qed

lemma handler_entered:
  assumes "wf_glue g" and "callers_ok g (m_states m)" and "unat (m_active m) \<le> unat (g_count g)"
    and "box_mpu_handler g lr m = Inr (r0, m')"
  shows "entered g m'"
  using assms(4) returnhandler_entered [OF assms(2,3)] faulthandler_entered [OF assms(2,3)]
    callhandler_entered [OF assms(1)]
  by (auto simp: box_mpu_handler_def Let_def split: if_splits)

context mpu_port
begin

lemma handler_shows:
  assumes "g_switch g = sw" and "\<forall>r\<in>set (g_mpuregions g). ok r" and "wf_glue g"
    and "callers_ok g (m_states m)" and "unat (m_active m) \<le> unat (g_count g)"
    and "box_mpu_handler g lr m = Inr (r0, m')"
  shows "unat (m_active m') \<le> unat (g_count g) \<and>
    shows_regions (\<lambda>b. b) (view (fst (m_mpu m'))) (g_mpuregions g ! unat (m_active m')) \<and>
    (bit (snd (m_mpu m')) 0 \<longleftrightarrow> m_active m' \<noteq> 0)"
proof -
  obtain st where e: "unat (m_active m') \<le> unat (g_count g)"
      "m_mpu m' = sw (g_mpuregions g ! unat (m_active m')) st"
    using handler_entered [OF assms(3-6)] assms(1) by (auto simp: entered_def)
  have "ok (g_mpuregions g ! unat (m_active m'))"
    using assms(2,3) e(1) by (simp add: wf_glue_def)
  moreover have "bit (mr_control (g_mpuregions g ! unat (m_active m'))) 0 \<longleftrightarrow> m_active m' \<noteq> 0"
    using assms(3) e(1) by (auto simp: wf_glue_def unat_eq_0)
  ultimately show ?thesis using e sw_shows sw_control by simp
qed

end

interpretation v7: mpu_port box_mpu_switch v7_view wf_regions
  by unfold_locales (rule v7_switch_view(1), simp_all add: box_mpu_switch_def bit_or_iff bit_and_iff bit_not_iff)

interpretation v8: mpu_port box_mpu_switch_v8 v8_view "\<lambda>_. True"
  by unfold_locales (rule v8_switch_view(1), simp_all add: box_mpu_switch_v8_def bit_or_iff bit_and_iff bit_not_iff)

lemma wf_hello_v8_glue:
  assumes "length jumptables = 3"
  shows "wf_glue (hello_v8_glue jumptables w f p)"
proof -
  have "i = 0 \<or> i = 1 \<or> i = 2 \<or> i = 3" if "i \<le> 3" for i :: nat
    using that by arith
  then have "\<forall>i\<le>3. mr_control ([sys_mpuregions, box1_mpuregions_v8, box2_mpuregions_v8, box3_mpuregions_v8] ! i)
      = (if i = 0 then 0 else 1)"
    by (fastforce simp: sys_mpuregions_def box1_mpuregions_v8_def box2_mpuregions_v8_def box3_mpuregions_v8_def)
  then show ?thesis
    using assms by (simp add: wf_glue_def hello_v8_glue_def)
qed

subsection \<open>Properties\<close>

text \<open>C2: no exception leaves the MPU with the wrong regions. In armv7m-mpu-hello, whatever the
  exception (call, return, abort, true fault) and whatever its addresses and stack contents,
  if the handler returns then \<open>__box_active\<close> names an existing box, the MPU table holds that
  box's regions and is enabled, and CONTROL is unprivileged exactly for boxes.\<close>

theorem gateway_mpu_safe:
  assumes "g = hello_glue jumptables w f p" and "length jumptables = 2"
    and "callers_ok g (m_states m)" and "unat (m_active m) \<le> 2"
    and "box_mpu_handler g lr m = Inr (r0, m')"
  shows "unat (m_active m') \<le> 2 \<and>
    shows_regions (\<lambda>b. b) (v7_view (fst (m_mpu m')))
      ([sys_mpuregions, box1_mpuregions, box2_mpuregions] ! unat (m_active m')) \<and>
    (bit (snd (m_mpu m')) 0 \<longleftrightarrow> m_active m' \<noteq> 0)"
proof -
  have "g_switch g = box_mpu_switch" "\<forall>r\<in>set (g_mpuregions g). wf_regions r"
    by (simp_all add: assms(1) hello_glue_def)
  moreover have "wf_glue g" unfolding assms(1) by (rule wf_hello_glue [OF assms(2)])
  ultimately show ?thesis
    using v7.handler_shows [OF _ _ _ assms(3) _ assms(5)] assms(4)
    by (simp add: assms(1) hello_glue_def)
qed

text \<open>A machine whose processor was interrupted at the import of \<open>box1_hello\<close>.\<close>

definition demo_trap :: machine where
  "demo_trap = demo_machine\<lparr>m_mem := (m_mem demo_machine)(0x20030018 := 0x100012)\<rparr>"

lemma callers_demo: "callers_ok demo_glue (m_states demo_trap)"
proof -
  have "i = 0 \<or> i = 1 \<or> i = 2" if "i \<le> 2" for i :: nat
    using that by arith
  then show ?thesis
    by (fastforce simp: callers_ok_def demo_trap_def demo_machine_def demo_glue_def hello_glue_def)
qed

lemma demo_trap_call:
  obtains r0 m' where "box_mpu_handler demo_glue 0xfffffff9 demo_trap = Inr (r0, m')"
    and "unat (m_active m') = 1"
proof -
  have h: "box_mpu_handler demo_glue 0xfffffff9 demo_trap =
      box_callhandler demo_glue 0xfffffff9 0x20030000 18 demo_trap"
    by (simp add: box_mpu_handler_def demo_trap_def demo_machine_def demo_glue_def hello_glue_def)
  obtain r0 m' where c: "box_callhandler demo_glue 0xfffffff9 0x20030000 18 demo_trap = Inr (r0, m')"
    using callhandler_sys [of demo_trap demo_glue "0xfffffff9" "0x20030000" 18]
    by (auto simp: demo_trap_def demo_machine_def)
  have "unat (m_active m') = 1"
    using callhandler_active(3) [OF wf_demo_glue c]
    by (simp add: demo_trap_def demo_machine_def demo_glue_def hello_glue_def)
  with c show thesis by (intro that [of r0 m']) (simp_all add: h)
qed

theorem gateway_mpu_safe_witness:
  "\<exists>r0 m'. box_mpu_handler demo_glue 0xfffffff9 demo_trap = Inr (r0, m') \<and>
    shows_regions (\<lambda>b. b) (v7_view (fst (m_mpu m'))) box1_mpuregions"
proof -
  obtain r0 m' where m': "box_mpu_handler demo_glue 0xfffffff9 demo_trap = Inr (r0, m')" "unat (m_active m') = 1"
    by (rule demo_trap_call)
  show ?thesis
    using gateway_mpu_safe [OF demo_glue_def _ callers_demo _ m'(1)] m'
    by (simp add: demo_trap_def demo_machine_def)
qed

text \<open>C14: the same for armv8m-mpu-hello.\<close>

theorem gateway_mpu_v8_safe:
  assumes "g = hello_v8_glue jumptables w f p" and "length jumptables = 3"
    and "callers_ok g (m_states m)" and "unat (m_active m) \<le> 3"
    and "box_mpu_handler g lr m = Inr (r0, m')"
  shows "unat (m_active m') \<le> 3 \<and>
    shows_regions (\<lambda>b. b) (v8_view (fst (m_mpu m')))
      ([sys_mpuregions, box1_mpuregions_v8, box2_mpuregions_v8, box3_mpuregions_v8] ! unat (m_active m')) \<and>
    (bit (snd (m_mpu m')) 0 \<longleftrightarrow> m_active m' \<noteq> 0)"
proof -
  have "g_switch g = box_mpu_switch_v8" by (simp add: assms(1) hello_v8_glue_def)
  moreover have "wf_glue g" unfolding assms(1) by (rule wf_hello_v8_glue [OF assms(2)])
  ultimately show ?thesis
    using v8.handler_shows [OF _ _ _ assms(3) _ assms(5)] assms(4)
    by (simp add: assms(1) hello_v8_glue_def)
qed

lemma callers_demo_v8:
  "callers_ok (hello_v8_glue [0xfe000, 0xfc000, 0xfa000] 1 1 1)
    (replicate 4 \<lparr>bs_initialized = True, bs_caller = 0, bs_lr = 0xfffffffd, bs_sp = 0x20040000\<rparr>)"
  by (auto simp: callers_ok_def hello_v8_glue_def)

theorem gateway_mpu_v8_safe_witness:
  "\<exists>r0 m'. box_mpu_handler (hello_v8_glue [0xfe000, 0xfc000, 0xfa000] 1 1 1) 0xfffffff9
      (demo_trap\<lparr>m_states := replicate 4
        \<lparr>bs_initialized = True, bs_caller = 0, bs_lr = 0xfffffffd, bs_sp = 0x20040000\<rparr>\<rparr>) = Inr (r0, m') \<and>
    unat (m_active m') \<le> 3"
proof -
  let ?g = "hello_v8_glue [0xfe000, 0xfc000, 0xfa000] 1 1 1"
  let ?m = "demo_trap\<lparr>m_states := replicate 4
        \<lparr>bs_initialized = True, bs_caller = 0, bs_lr = 0xfffffffd, bs_sp = 0x20040000\<rparr>\<rparr>"
  have "box_mpu_handler ?g 0xfffffff9 ?m = box_callhandler ?g 0xfffffff9 0x20030000 18 ?m"
    by (simp add: box_mpu_handler_def demo_trap_def demo_machine_def hello_v8_glue_def)
  then obtain r0 m' where m': "box_mpu_handler ?g 0xfffffff9 ?m = Inr (r0, m')"
    using callhandler_sys [of ?m ?g "0xfffffff9" "0x20030000" 18]
    by (auto simp: demo_trap_def demo_machine_def)
  then show ?thesis
    using gateway_mpu_v8_safe [OF refl _ _ _ m'] callers_demo_v8
    by (simp add: demo_trap_def demo_machine_def)
qed

subsection \<open>Dispatch\<close>

lemma call_frame_eq:
  "call_frame g tfp fp pc mem =
     (let m0 = mem(slot tfp 0 := mem (slot fp 0));
          m1 = m0(slot tfp 1 := m0 (slot fp 1));
          m2 = m1(slot tfp 2 := m1 (slot fp 2));
          m3 = m2(slot tfp 3 := m2 (slot fp 3));
          m4 = m3(slot tfp 4 := m3 (slot fp 4));
          m5 = m4(slot tfp 5 := g_return g, slot tfp 6 := pc)
      in m5(slot tfp 7 := m5 (slot fp 7)))"
  by (simp add: call_frame_def copy_word_def Let_def slot_def)

lemma call_frame_slots:
  assumes "i < 8" and "\<forall>i<8. \<forall>j<8. slot fp i \<noteq> slot tfp j"
  shows "call_frame g tfp fp pc mem (slot tfp i) =
    (if i = 5 then g_return g else if i = 6 then pc else mem (slot fp i))"
proof -
  have n: "slot fp i \<noteq> slot tfp j" if "i < 8" "j < 8" for i j
    using assms(2) that by simp
  consider "i = 0" | "i = 1" | "i = 2" | "i = 3" | "i = 4" | "i = 5" | "i = 6" | "i = 7"
    using assms(1) by linarith
  then show ?thesis
    unfolding call_frame_eq Let_def by cases (simp_all add: n)
qed

text \<open>The address of an import in the linker script of armv7m-mpu-hello is the call region plus
  \<open>4 * (2 + COUNT * j + i) + 2\<close>: function \<open>j\<close> of box \<open>i + 1\<close>, with errors.\<close>

definition import_op :: "nat \<Rightarrow> nat \<Rightarrow> nat \<Rightarrow> nat" where
  "import_op count j i = 4 * (2 + count * j + i) + 2"

lemma import_op_decodes:
  fixes op :: u32
  assumes "i < count" and "import_op count j i < 1048576" and "unat op = import_op count j i"
  shows "unat (op div 4 - 2) = count * j + i" and "(count * j + i) mod count = i"
    and "(count * j + i) div count = j"
proof -
  have "unat (op div 4) = 2 + count * j + i"
    using assms(3) by (simp add: unat_div import_op_def)
  then show "unat (op div 4 - 2) = count * j + i"
    by (subst unat_sub) (auto simp: word_le_nat_alt)
  show "(count * j + i) mod count = i" and "(count * j + i) div count = j"
    using assms(1) by simp_all
qed

lemma store_words_other: "\<forall>j<length ws. a \<noteq> slot b j \<Longrightarrow> store_words b ws mem a = mem a"
proof (induction ws arbitrary: b mem)
  case (Cons w ws)
  have "slot (b + 4) j = slot b (Suc j)" for j by (simp add: slot_def algebra_simps)
  then have "\<forall>j<length ws. a \<noteq> slot (b + 4) j" using Cons.prems by auto
  moreover have "a \<noteq> b" using Cons.prems by (auto simp: slot_0 dest: spec [of _ 0])
  ultimately show ?case using Cons.IH by simp
qed simp

text \<open>The memory \<^verbatim>\<open>__box_callsetup\<close> sees once it has saved the caller.\<close>

lemma saved_memory:
  fixes lr sp msp :: u32
  assumes "length (m_r4_r11 m) = 8" and "length (m_s16_s31 m) = 16"
  defines "mem \<equiv> m_mem (save_caller lr (saved_base lr sp) sp
      (m\<lparr>m_mem := snd (push_regs lr sp m), m_msp := msp\<rparr>))"
  shows "a \<notin> saved_area lr sp \<Longrightarrow> mem a = m_mem m a"
    and "i < 8 \<Longrightarrow> mem (slot sp i) = m_mem m (slot sp i)"
proof -
  let ?c = "saved_base lr sp" and ?k = "saved_words lr"
  have mem: "mem b = snd (push_regs lr sp m) b"
    if "b \<noteq> slot ?c 0" "b \<noteq> slot ?c 1" "b \<noteq> slot ?c 2" "b \<noteq> slot ?c 3" for b
    using that by (simp add: mem_def save_caller_def Let_def slot_def)
  {
    assume "a \<notin> saved_area lr sp"
    then have a: "a \<noteq> slot ?c j" if "j < ?k + 8" for j
      using that by (auto simp: saved_area_def)
    have b: "sp - 4 * 8 = slot ?c (?k - 8)" "lr AND 0x10 = 0 \<Longrightarrow> slot ?c (?k - 8) - 4 * 16 = slot ?c 4"
      using saved_base_steps [where lr = lr and sp = sp] by auto
    have "store_words (slot ?c (?k - 8)) (m_r4_r11 m) mm a = mm a" for mm
      using a assms(1) by (intro store_words_other) (auto simp: slot_add saved_words_def)
    moreover have "lr AND 0x10 = 0 \<Longrightarrow> store_words (slot ?c 4) (m_s16_s31 m) mm a = mm a" for mm
      using a assms(2) by (intro store_words_other) (auto simp: slot_add saved_words_def)
    ultimately have "snd (push_regs lr sp m) a = m_mem m a"
      unfolding push_regs_def Let_def by (auto simp only: b snd_conv split: if_splits)
    moreover have "0 < ?k + 8" "1 < ?k + 8" "2 < ?k + 8" "3 < ?k + 8"
      by (simp_all add: saved_words_def)
    ultimately show "mem a = m_mem m a" using mem a by metis
  }
  {
    assume "i < 8"
    have s: "slot sp i = slot ?c (?k + i)" using slot_add [of ?c ?k i] slot_saved [of lr sp] by simp
    have "mem (slot ?c (?k + i)) = snd (push_regs lr sp m) (slot ?c (?k + i))"
      using \<open>i < 8\<close> by (intro mem; subst slot_inj) (auto simp: saved_words_def)
    then show "mem (slot sp i) = m_mem m (slot sp i)"
      unfolding s using push_regs_slots(3) [OF assms(1,2) \<open>i < 8\<close>] by simp
  }
qed

text \<open>C5: an import reaches the function it names. When the system calls function \<open>j\<close> of box
  \<open>i + 1\<close> through the address the linker script gives it, the handler enters that box on its
  own stack; the exception frame it built there holds the box's jump table entry for the
  function as program counter, the return gate as link register, and the four argument
  registers of the caller.\<close>

theorem call_dispatch:
  assumes "wf_glue g" and "m_active m = 0" and "i < unat (g_count g)"
    and "import_op (unat (g_count g)) j i < 1048576" and "unat op = import_op (unat (g_count g)) j i"
    and "length (m_r4_r11 m) = 8" and "length (m_s16_s31 m) = 16"
    and "box_callhandler g lr sp op m = Inr (r0, m1)"
    and "tsp = bs_sp (m_states m ! (i + 1)) - 4 * 8"
    and "\<forall>k<8. slot tsp k \<notin> saved_area lr sp"
    and "slot (g_jumptables g ! i) (j + 1) \<notin> saved_area lr sp"
  shows "unat (m_active m1) = i + 1 \<and> r0 = bs_lr (m_states m ! (i + 1)) \<and>
    (if r0 AND 0x4 = 0 then m_msp m1 else m_psp m1) = tsp \<and>
    m_mem m1 (slot tsp 6) = m_mem m (slot (g_jumptables g ! i) (j + 1)) \<and>
    m_mem m1 (slot tsp 5) = g_return g \<and>
    (\<forall>k<4. m_mem m1 (slot tsp k) = m_mem m (slot sp k))"
proof -
  let ?c = "saved_base lr sp" and ?count = "unat (g_count g)"
  note dec = import_op_decodes [OF assms(3-5)]
  have y: "unat (m_active m1) = i + 1"
    using callhandler_active(3) [OF assms(1,8,2)] dec(1,2) by simp
  note act = callhandler_active [OF assms(1,8)]
  have free: "\<forall>k<8. slot (bs_sp (m_states m ! unat (m_active m1)) - 4 * 8) k \<notin> saved_area lr sp"
    using assms(9,10) y by simp
  note eff = callhandler_effect [OF assms(8,6,7) act(2) free]
  obtain q mem0 where push: "push_regs lr sp m = (q, mem0)" "q - 4 * 4 = ?c"
    using push_regs_base [of lr sp m] by (metis prod.collapse)
  define msp where "msp = (if lr AND 0x4 = 0 then ?c else m_msp m) - 8 * 4"
  define mm where "mm = save_caller lr ?c sp (m\<lparr>m_mem := mem0, m_msp := msp\<rparr>)"
  obtain r m2 where cs: "box_callsetup g lr ?c op sp (m\<lparr>m_mem := mem0, m_msp := msp\<rparr>)
      = Inr (r, m2)" and m2: "m_mem m1 = m_mem m2" "m_active m1 = m_active m2"
    using assms(8) unfolding box_callhandler_def Let_def push prod.case msp_def
    by (auto split: sum.splits prod.splits)
  define act where "act = (op div 4 - 2) mod g_count g + 1"
  define pc where "pc = m_mem mm (g_jumptables g ! unat (act - 1) + 4 * ((op div 4 - 2) div g_count g + 1))"
  have ent: "enter_target g act sp pc mm = (r, m2)"
    using cs assms(2) by (simp add: box_callsetup_def call_target_def Let_def pc_def act_def mm_def)
  then have a: "act = m_active m1" using m2(2) by (auto simp: enter_target_def Let_def)
  have "m_states mm ! (i + 1) = m_states m ! (i + 1)"
    using assms(2) by (simp add: mm_def save_caller_def Let_def)
  then have mem: "m_mem m1 = call_frame g tsp sp pc (m_mem mm)"
    using ent m2(1) y a assms(9) by (auto simp: enter_target_def Let_def)
  have j: "unat ((op div 4 - 2) div g_count g) = j"
    using dec by (simp add: unat_div)
  have "(op div 4 - 2) div g_count g + 1 = word_of_nat (j + 1)"
    unfolding j [symmetric] by simp
  moreover have "unat (act - 1) = i"
    using y a by (subst unat_sub) (auto simp: word_le_nat_alt)
  ultimately have "pc = m_mem mm (slot (g_jumptables g ! i) (j + 1))"
    unfolding pc_def slot_def by (simp add: algebra_simps)
  also have "\<dots> = m_mem m (slot (g_jumptables g ! i) (j + 1))"
    using saved_memory(1) [OF assms(6,7,11), of msp] push(1) by (simp add: mm_def)
  finally have pc: "pc = m_mem m (slot (g_jumptables g ! i) (j + 1))" .
  have "slot sp k \<noteq> slot tsp l" if "k < 8" "l < 8" for k l
  proof -
    have "slot sp k = slot ?c (saved_words lr + k)"
      using slot_add [of ?c "saved_words lr" k] slot_saved [of lr sp] by simp
    then have "slot sp k \<in> saved_area lr sp" using that by (auto simp: saved_area_def)
    then show ?thesis using assms(10) that by auto
  qed
  then have frame: "m_mem m1 (slot tsp k) =
      (if k = 5 then g_return g else if k = 6 then pc else m_mem m (slot sp k))" if "k < 8" for k
    unfolding mem using that saved_memory(2) [OF assms(6,7) that, of lr sp msp] mm_def push(1)
    by (subst call_frame_slots) auto
  show ?thesis
    using y eff(4,5) assms(9) frame pc by simp
qed

theorem call_dispatch_witness:
  "\<exists>r0 m1. box_callhandler demo_glue 0xfffffff9 0x20030000 18 demo_machine = Inr (r0, m1) \<and>
    unat (m_active m1) = 1 \<and> m_mem m1 (slot 0x2003ffe0 6) = 0x000fe000 + 4 * 2 + 7"
proof -
  obtain r0 m1 where c: "box_callhandler demo_glue 0xfffffff9 0x20030000 18 demo_machine = Inr (r0, m1)"
    and free: "\<forall>i<8. slot (bs_sp (m_states demo_machine ! unat (m_active m1)) - 4 * 8) i
      \<notin> saved_area 0xfffffff9 0x20030000"
    and y: "unat (m_active m1) = 1"
    by (rule demo_call)
  have "slot (g_jumptables demo_glue ! 0) (1 + 1) = slot (slot (saved_base 0xfffffff9 0x20030000) 939735054) 0"
    by (simp add: slot_def saved_base_def saved_words_def demo_glue_def hello_glue_def)
  also have "\<dots> \<notin> saved_area 0xfffffff9 0x20030000"
    by (rule slot_notin_saved) (simp_all add: saved_words_def)
  finally have jt: "slot (g_jumptables demo_glue ! 0) (1 + 1) \<notin> saved_area 0xfffffff9 0x20030000" .
  show ?thesis
    using call_dispatch [OF wf_demo_glue _ _ _ _ _ _ c refl _ jt] c free y
    by (simp add: demo_machine_def demo_glue_def hello_glue_def import_op_def slot_def)
qed

text \<open>The gateway does not check the function number of a box's call. The jump table of the
  system has \<open>n\<close> entries; when a box jumps to any word-aligned address of the call region
  beyond the \<open>n\<close>-th import, the handler reads past the end of the table and would enter
  privileged code at whatever word it finds there.\<close>

theorem call_reads_past_table:
  assumes "wf_glue g" and "m_active m \<noteq> 0" and "unat (m_active m) \<le> unat (g_count g)"
    and "r1 = (if lr AND 0x4 = 0 then m_msp m else m_psp m)"
    and "m_mem m (r1 + 6 * 4) = g_callregion g + op" and "8 \<le> unat op" and "unat op < 1048576"
    and "length (g_sys_jumptables g ! unat (m_active m - 1)) \<le> unat op div 4 - 2"
  shows "box_mpu_handler g lr m = Inl OutOfBounds"
proof -
  have "unat (op div 4 - 2) = unat op div 4 - 2"
    using assms(6) by (subst unat_sub) (auto simp: word_le_nat_alt unat_div)
  then have past: "\<not> unat (op div 4 - 2) < length (g_sys_jumptables g ! unat (m_active m - 1))"
    using assms(8) by simp
  have op: "op \<noteq> 0" "op \<noteq> 4" "op < 1048576"
    using assms(6,7) by (auto simp: word_less_nat_alt)
  have "box_mpu_handler g lr m = box_callhandler g lr r1 op m"
    using assms(4,5) op by (simp add: box_mpu_handler_def Let_def)
  also have "\<dots> = Inl OutOfBounds"
    using past assms(2)
    by (simp add: box_callhandler_def box_callsetup_def call_target_def Let_def split: prod.splits)
  finally show ?thesis .
qed

theorem call_reads_past_table_witness:
  "box_mpu_handler demo_glue 0xfffffffd
     (demo_machine\<lparr>m_active := 1, m_psp := 0x2003ff00, m_mem := (\<lambda>_. 0x00100000 + 4 * 5)\<rparr>) = Inl OutOfBounds"
  using call_reads_past_table [of demo_glue
      "demo_machine\<lparr>m_active := 1, m_psp := 0x2003ff00, m_mem := (\<lambda>_. 0x00100000 + 4 * 5)\<rparr>"
      "0x2003ff00" "0xfffffffd" 20] wf_demo_glue
  by (simp add: demo_machine_def demo_glue_def hello_glue_def)

end
