(* ===== verification/BoxStartup.thy ===== *)
theory BoxStartup
  imports BoxCallProps
begin

text \<open>
  Startup and the ends of a program in the generated glue (examples/armv7m-mpu-hello/bb.c and
  box1/bb.c): \<^verbatim>\<open>_sbrk\<close>, the abort and exit wrappers, the reset handler that fills \<^verbatim>\<open>.data\<close> and
  \<^verbatim>\<open>.bss\<close>, the default handlers and the interrupt vector. Symbols the linker assigns are
  arguments. A loop over word pointers is a \<open>partial_function\<close>: \<open>None\<close> is a loop that never
  ends.
\<close>

subsection \<open>The heap\<close>

text \<open>\<open>brk\<close> is \<^verbatim>\<open>__heap_brk\<close>, 0 before the first call. Pointer arithmetic wraps.\<close>

definition sbrk :: "u32 \<Rightarrow> u32 \<Rightarrow> u32 \<Rightarrow> u32 \<Rightarrow> u32 \<times> u32" where
  "sbrk heap_start heap_end diff brk =
     (let brk = (if brk = 0 then heap_start else brk);
          pbrk = brk
      in if pbrk + diff > heap_end then (-1, brk) else (pbrk, pbrk + diff))"

subsection \<open>Ends\<close>

definition box_abort :: "int \<Rightarrow> box_stop" where
  "box_abort err = Halted err"

definition wrap_abort :: box_stop where
  "wrap_abort = box_abort (-1)"

definition wrap_exit :: "int \<Rightarrow> box_stop" where
  "wrap_exit code = box_abort (if code > 0 then - code else code)"

definition exit_syscall :: "int \<Rightarrow> box_stop" where
  "exit_syscall code = box_abort (if code > 0 then - code else code)"

text \<open>A failed assertion prints (the output is the parameter \<open>printf\<close>) and aborts.\<close>

definition assert_func ::
  "(string \<Rightarrow> int \<Rightarrow> string \<Rightarrow> 'w \<Rightarrow> 'w) \<Rightarrow> string \<Rightarrow> int \<Rightarrow> string \<Rightarrow> string \<Rightarrow> 'w \<Rightarrow> box_stop \<times> 'w"
where
  "assert_func print file line func expr w = (box_abort (-1), print file line expr w)"

definition box_flush :: "int \<Rightarrow> int" where
  "box_flush fd = 0"

subsection \<open>Filling memory\<close>

partial_function (option) copy_data :: "u32 \<Rightarrow> u32 \<Rightarrow> u32 \<Rightarrow> mem \<Rightarrow> mem option" where
  "copy_data s d e mem =
     (if d < e then copy_data (s + 4) (d + 4) e (mem(d := mem s)) else Some mem)"

partial_function (option) zero_bss :: "u32 \<Rightarrow> u32 \<Rightarrow> mem \<Rightarrow> mem option" where
  "zero_bss d e mem = (if d < e then zero_bss (d + 4) e (mem(d := 0)) else Some mem)"

declare copy_data.simps [code] zero_bss.simps [code]

record sections =
  data_init_start :: u32
  data_start :: u32
  data_end :: u32
  bss_start :: u32
  bss_end :: u32

definition CPACR :: u32 where "CPACR = 0xe000ed88"

text \<open>The reset handler up to the call of \<^verbatim>\<open>__libc_init_array\<close> and \<^verbatim>\<open>main\<close>; \<open>fpu\<close> is the
  compile-time condition of the floating point bring-up.\<close>

definition box_reset_handler :: "bool \<Rightarrow> mmio_load \<Rightarrow> sections \<Rightarrow> mem \<Rightarrow> mmio \<Rightarrow> (mem \<times> mmio) option"
where
  "box_reset_handler fpu hw l mem log =
     Option.bind (copy_data (data_init_start l) (data_start l) (data_end l) mem) (\<lambda>mem1.
     Option.bind (zero_bss (bss_start l) (bss_end l) mem1) (\<lambda>mem2.
       Some (mem2, if fpu then log @ [(CPACR, hw log CPACR OR 0x00f00000)] else log)))"

text \<open>The box side; \<^verbatim>\<open>__libc_init_array\<close> is the parameter \<open>libc\<close>.\<close>

definition box_init :: "sections \<Rightarrow> (mem \<Rightarrow> mem) \<Rightarrow> mem \<Rightarrow> (int \<times> mem) option" where
  "box_init l libc mem =
     Option.bind (copy_data (data_init_start l) (data_start l) (data_end l) mem) (\<lambda>mem1.
     Option.bind (zero_bss (bss_start l) (bss_end l) mem1) (\<lambda>mem2. Some (0, libc mem2)))"

subsection \<open>Handlers and the vector\<close>

datatype isr =
    StackEnd | ResetHandler | NmiHandler | HardfaultHandler | MpuHandler | NoHandler
  | SvcHandler | DebugmonHandler | PendsvHandler | SystickHandler | DefaultHandler
  | PowerClockIRQ | Timer0IRQ

text \<open>The memory management, bus and usage fault handlers are aliases of \<^verbatim>\<open>__box_mpu_handler\<close>.\<close>

definition isr_vector :: "isr list" where
  "isr_vector =
     [StackEnd, ResetHandler, NmiHandler, HardfaultHandler,
      MpuHandler, MpuHandler, MpuHandler, NoHandler, NoHandler, NoHandler, NoHandler,
      SvcHandler, DebugmonHandler, NoHandler, PendsvHandler, SystickHandler,
      PowerClockIRQ] @ replicate 7 DefaultHandler @ [Timer0IRQ] @ replicate 231 DefaultHandler"

subsection \<open>What the loops compute\<close>

lemma slot_unat:
  assumes "unat d + 4 * i < 2 ^ 32"
  shows "unat (slot d i) = unat d + 4 * i"
proof -
  have "unat (4 * word_of_nat i :: u32) = 4 * i"
  proof -
    have "unat (word_of_nat (4 * i) :: u32) = 4 * i"
      using assms by (simp only: unat_of_nat) simp
    then show ?thesis by simp
  qed
  then show ?thesis
    using assms unfolding slot_def by (subst unat_add_nat) auto
qed

lemma slot_Suc: "slot d i + 4 = slot d (Suc i)"
  by (simp add: slot_def algebra_simps)

lemma slot_shift: "slot (d + 4) i = slot d (Suc i)"
  by (simp add: slot_def algebra_simps)

lemma copy_data_ok:
  assumes "unat d + 4 * n < 2 ^ 32" and "\<forall>i<n. \<forall>j<n. slot s i \<noteq> slot d j"
  shows "\<exists>mem'. copy_data s d (slot d n) mem = Some mem' \<and>
    (\<forall>i<n. mem' (slot d i) = mem (slot s i)) \<and> (\<forall>a. (\<forall>i<n. a \<noteq> slot d i) \<longrightarrow> mem' a = mem a)"
  using assms
proof (induction n arbitrary: s d mem)
  case 0
  then show ?case by (simp add: copy_data.simps slot_0)
next
  case (Suc n)
  have d4: "unat (d + 4) = unat d + 4"
    using slot_unat [of d 1] Suc.prems(1) by (simp add: slot_def)
  have lt: "d < slot d (Suc n)"
    using slot_unat [of d "Suc n"] Suc.prems(1) by (simp add: word_less_nat_alt)
  have "\<forall>i<n. \<forall>j<n. slot (s + 4) i \<noteq> slot (d + 4) j"
    using Suc.prems(2) by (auto simp: slot_shift)
  moreover have "unat (d + 4) + 4 * n < 2 ^ 32" using Suc.prems(1) d4 by simp
  ultimately obtain mem' where mem':
    "copy_data (s + 4) (d + 4) (slot (d + 4) n) (mem(d := mem s)) = Some mem'"
    "\<forall>i<n. mem' (slot (d + 4) i) = (mem(d := mem s)) (slot (s + 4) i)"
    "\<forall>a. (\<forall>i<n. a \<noteq> slot (d + 4) i) \<longrightarrow> mem' a = (mem(d := mem s)) a"
    using Suc.IH [of "d + 4" "s + 4" "mem(d := mem s)"] by blast
  have run: "copy_data s d (slot d (Suc n)) mem = Some mem'"
    using mem'(1) lt by (simp add: copy_data.simps [of s d] slot_shift)
  have dn: "d \<noteq> slot (d + 4) i" if "i < n" for i
    using slot_unat [of d "Suc i"] Suc.prems(1) that by (auto simp: slot_shift dest: arg_cong [of _ _ unat])
  have "mem' (slot d i) = mem (slot s i)" if i: "i < Suc n" for i
  proof (cases i)
    case 0
    then show ?thesis using mem'(3) dn by (simp add: slot_0)
  next
    case (Suc k)
    then have "slot s (Suc k) \<noteq> slot d 0" using Suc.prems(2) i by auto
    then show ?thesis
      using mem'(2) Suc i by (simp add: slot_shift slot_0)
  qed
  moreover have "mem' a = mem a" if a: "\<forall>i<Suc n. a \<noteq> slot d i" for a
    using a mem'(3) by (auto simp: slot_shift slot_0 dest: spec [of _ 0])
  ultimately show ?case using run by blast
qed

lemma zero_bss_ok:
  assumes "unat d + 4 * n < 2 ^ 32"
  shows "\<exists>mem'. zero_bss d (slot d n) mem = Some mem' \<and>
    (\<forall>i<n. mem' (slot d i) = 0) \<and> (\<forall>a. (\<forall>i<n. a \<noteq> slot d i) \<longrightarrow> mem' a = mem a)"
  using assms
proof (induction n arbitrary: d mem)
  case 0
  then show ?case by (simp add: zero_bss.simps slot_0)
next
  case (Suc n)
  have d4: "unat (d + 4) = unat d + 4"
    using slot_unat [of d 1] Suc.prems(1) by (simp add: slot_def)
  have lt: "d < slot d (Suc n)"
    using slot_unat [of d "Suc n"] Suc.prems(1) by (simp add: word_less_nat_alt)
  have "unat (d + 4) + 4 * n < 2 ^ 32" using Suc.prems(1) d4 by simp
  then obtain mem' where mem':
    "zero_bss (d + 4) (slot (d + 4) n) (mem(d := 0)) = Some mem'"
    "\<forall>i<n. mem' (slot (d + 4) i) = 0"
    "\<forall>a. (\<forall>i<n. a \<noteq> slot (d + 4) i) \<longrightarrow> mem' a = (mem(d := 0)) a"
    using Suc.IH [of "d + 4" "mem(d := 0)"] by blast
  have run: "zero_bss d (slot d (Suc n)) mem = Some mem'"
    using mem'(1) lt by (simp add: zero_bss.simps [of d] slot_shift)
  have dn: "d \<noteq> slot (d + 4) i" if "i < n" for i
    using slot_unat [of d "Suc i"] Suc.prems(1) that by (auto simp: slot_shift dest: arg_cong [of _ _ unat])
  have "mem' (slot d i) = 0" if i: "i < Suc n" for i
    using i mem'(2,3) dn by (cases i) (simp_all add: slot_shift slot_0)
  moreover have "mem' a = mem a" if a: "\<forall>i<Suc n. a \<noteq> slot d i" for a
    using a mem'(3) by (auto simp: slot_shift slot_0 dest: spec [of _ 0])
  ultimately show ?case using run by blast
qed

lemma vector_faults:
  "length isr_vector = 256" "isr_vector ! 1 = ResetHandler"
  "isr_vector ! 4 = MpuHandler" "isr_vector ! 5 = MpuHandler" "isr_vector ! 6 = MpuHandler"
  by (simp_all add: isr_vector_def)

subsection \<open>Properties\<close>

text \<open>C16: the reset handler ends and establishes the C environment. For word-aligned sections of
  \<open>n\<close> and \<open>k\<close> words that do not wrap around the address space and do not overlap, both loops
  end, \<^verbatim>\<open>.data\<close> holds its initial image, \<^verbatim>\<open>.bss\<close> is zero, and no other word has changed.\<close>

theorem reset_establishes_sections:
  assumes "data_end l = slot (data_start l) n" and "unat (data_start l) + 4 * n < 2 ^ 32"
    and "bss_end l = slot (bss_start l) k" and "unat (bss_start l) + 4 * k < 2 ^ 32"
    and "\<forall>i<n. \<forall>j<n. slot (data_init_start l) i \<noteq> slot (data_start l) j"
    and "\<forall>i<n. \<forall>j<k. slot (data_start l) i \<noteq> slot (bss_start l) j"
  shows "\<exists>mem' log'. box_reset_handler fpu hw l mem log = Some (mem', log') \<and>
    (\<forall>i<n. mem' (slot (data_start l) i) = mem (slot (data_init_start l) i)) \<and>
    (\<forall>i<k. mem' (slot (bss_start l) i) = 0) \<and>
    (\<forall>a. (\<forall>i<n. a \<noteq> slot (data_start l) i) \<longrightarrow> (\<forall>i<k. a \<noteq> slot (bss_start l) i) \<longrightarrow> mem' a = mem a)"
proof -
  obtain mem1 where m1: "copy_data (data_init_start l) (data_start l) (data_end l) mem = Some mem1"
      "\<forall>i<n. mem1 (slot (data_start l) i) = mem (slot (data_init_start l) i)"
      "\<forall>a. (\<forall>i<n. a \<noteq> slot (data_start l) i) \<longrightarrow> mem1 a = mem a"
    using copy_data_ok [OF assms(2,5), of mem] assms(1) by auto
  obtain mem2 where m2: "zero_bss (bss_start l) (bss_end l) mem1 = Some mem2"
      "\<forall>i<k. mem2 (slot (bss_start l) i) = 0"
      "\<forall>a. (\<forall>i<k. a \<noteq> slot (bss_start l) i) \<longrightarrow> mem2 a = mem1 a"
    using zero_bss_ok [OF assms(4), of mem1] assms(3) by auto
  show ?thesis
    using m1 m2 assms(6) by (simp add: box_reset_handler_def)
qed

definition demo_sections :: sections where
  "demo_sections = \<lparr>data_init_start = 0x1000, data_start = 0x20000000, data_end = 0x20000004,
     bss_start = 0x20000008, bss_end = 0x2000000c\<rparr>"

theorem reset_establishes_sections_witness:
  "\<exists>mem' log'. box_reset_handler True (\<lambda>_ _. 0) demo_sections (\<lambda>a. a + 1) [] = Some (mem', log') \<and>
    mem' 0x20000000 = 0x1001 \<and> mem' 0x20000008 = 0 \<and> mem' 0x20000010 = 0x20000011"
proof -
  obtain mem' log' where m: "box_reset_handler True (\<lambda>_ _. 0) demo_sections (\<lambda>a. a + 1) [] = Some (mem', log')"
    and d: "\<forall>i<1. mem' (slot (data_start demo_sections) i) = slot (data_init_start demo_sections) i + 1"
    and z: "\<forall>i<1. mem' (slot (bss_start demo_sections) i) = 0"
    and o: "\<forall>a. (\<forall>i<1. a \<noteq> slot (data_start demo_sections) i) \<longrightarrow>
      (\<forall>i<1. a \<noteq> slot (bss_start demo_sections) i) \<longrightarrow> mem' a = a + 1"
    using reset_establishes_sections [of demo_sections 1 1 True "\<lambda>_ _. 0" "\<lambda>a. a + 1" "[]"]
    by (auto simp: demo_sections_def slot_def)
  show ?thesis
    using m d z o [rule_format, of "0x20000010"] by (simp add: demo_sections_def slot_0)
qed

text \<open>The heap never passes its end. Whatever the increment, even one that wraps,
  \<^verbatim>\<open>_sbrk\<close> leaves the break at most at \<open>heap_end\<close>, and either fails with -1 and moves nothing or
  returns the old break and moves it by the increment. (There is no lower check: the witness
  shrinks the heap below its start.)\<close>

theorem sbrk_bounded:
  assumes "heap_start \<noteq> 0" and "brk = 0 \<or> brk \<le> heap_end" and "heap_start \<le> heap_end"
    and "sbrk heap_start heap_end diff brk = (r, brk')"
  shows "brk' \<le> heap_end \<and>
    (r = -1 \<and> brk' = (if brk = 0 then heap_start else brk) \<or>
     r = (if brk = 0 then heap_start else brk) \<and> brk' = r + diff)"
  using assms by (auto simp: sbrk_def Let_def not_less split: if_splits)

theorem sbrk_bounded_witness:
  "sbrk 0x20001000 0x20002000 (-0x100) 0 = (0x20001000, 0x20000f00) \<and> (0x20000f00 :: u32) \<le> 0x20002000"
  using sbrk_bounded [of "0x20001000" 0 "0x20002000" "-0x100" "0x20001000" "0x20000f00"]
  by (simp add: sbrk_def)

end
