(* ===== verification/BoxLifecycle.thy ===== *)
theory BoxLifecycle
  imports BoxCall
begin

text \<open>
  The life of a box on the Armv7-M runtime (examples/armv7m-mpu-hello/bb.c): lazy
  initialisation by the export wrappers, \<^verbatim>\<open>__box_box1_init\<close>, \<^verbatim>\<open>__box_box1_clobber\<close>, and the
  data stack \<^verbatim>\<open>__box_box1_push\<close>, \<^verbatim>\<open>__box_box1_pop\<close>.

  \<open>box_sys\<close> is the state of one box seen from the system, with the rest of the machine as
  \<open>'w\<close>. The loader and the calls into the box (which go through the call gateway) are
  parameters: functions of \<open>'w\<close> that give a result or halt.
\<close>

record 'w box_sys =
  s_state :: box_state
  s_mmio :: mmio
  s_world :: 'w

type_synonym 'w box_op = "'w box_sys \<Rightarrow> (box_stop + int) \<times> 'w box_sys"

text \<open>Running a call of the rest of the system on its part of the state.\<close>

definition in_world :: "('w \<Rightarrow> (box_stop + int) \<times> 'w) \<Rightarrow> 'w box_op" where
  "in_world f s = (case f (s_world s) of (r, w) \<Rightarrow> (r, s\<lparr>s_world := w\<rparr>))"

definition box1_load :: "'w \<Rightarrow> (box_stop + int) \<times> 'w" where
  "box1_load w = (Inr 0, w)"

definition box1_init ::
  "mmio_load \<Rightarrow> u32 \<Rightarrow> u32 \<Rightarrow> ('w \<Rightarrow> (box_stop + int) \<times> 'w) \<Rightarrow> 'w box_op \<Rightarrow> 'w box_op" where
  "box1_init hw callregion jt load postinit s =
     (if bs_initialized (s_state s) then (Inr 0, s)
      else case box_mpu_init hw callregion (s_mmio s) of
        (Inl e, log) \<Rightarrow> (Inl e, s\<lparr>s_mmio := log\<rparr>)
      | (Inr err, log) \<Rightarrow>
          if err \<noteq> 0 then (Inr err, s\<lparr>s_mmio := log\<rparr>)
          else
            let s1 = s\<lparr>s_mmio := log,
                  s_state := (s_state s)\<lparr>bs_lr := 0xfffffffd, bs_sp := jt\<rparr>\<rparr>
            in case in_world load s1 of
              (Inl e, s2) \<Rightarrow> (Inl e, s2)
            | (Inr err, s2) \<Rightarrow>
                if err \<noteq> 0 then (Inr err, s2)
                else case postinit s2 of
                  (Inl e, s3) \<Rightarrow> (Inl e, s3)
                | (Inr err, s3) \<Rightarrow>
                    if err \<noteq> 0 then (Inr err, s3)
                    else (Inr 0, s3\<lparr>s_state := (s_state s3)\<lparr>bs_initialized := True\<rparr>\<rparr>))"

definition box1_clobber :: "'w box_op" where
  "box1_clobber s = (Inr 0, s\<lparr>s_state := (s_state s)\<lparr>bs_initialized := False\<rparr>\<rparr>)"

text \<open>An export: \<open>init\<close> is the box's init, \<open>imp\<close> the call through the import address.\<close>

definition box1_export :: "'w box_op \<Rightarrow> 'w box_op \<Rightarrow> 'w box_op" where
  "box1_export init imp s =
     (if \<not> bs_initialized (s_state s)
      then case init s of
          (Inl e, s1) \<Rightarrow> (Inl e, s1)
        | (Inr err, s1) \<Rightarrow> if err \<noteq> 0 then (Inr err, s1) else imp s1
      else imp s)"

definition box1_hello :: "'w box_op \<Rightarrow> 'w box_op \<Rightarrow> 'w box_op" where
  "box1_hello init import_hello = box1_export init import_hello"

definition box1_ping :: "'w box_op \<Rightarrow> (int \<Rightarrow> 'w box_op) \<Rightarrow> int \<Rightarrow> 'w box_op" where
  "box1_ping init import_ping a0 = box1_export init (import_ping a0)"

definition box1_ping_abort :: "'w box_op \<Rightarrow> (int \<Rightarrow> 'w box_op) \<Rightarrow> int \<Rightarrow> 'w box_op" where
  "box1_ping_abort init import_ping_abort a0 = box1_export init (import_ping_abort a0)"

definition box1_ping_import :: "'w box_op \<Rightarrow> (int \<Rightarrow> 'w box_op) \<Rightarrow> int \<Rightarrow> 'w box_op" where
  "box1_ping_import init import_ping_import a0 = box1_export init (import_ping_import a0)"

subsection \<open>The data stack\<close>

text \<open>A pointer is its address; \<^verbatim>\<open>NULL\<close> is 0. Sizes in bytes are rounded up to words, and the
  arithmetic on word pointers wraps.\<close>

definition size_words :: "u32 \<Rightarrow> u32" where
  "size_words sz = (sz + 3) div 4"

definition box1_push :: "u32 \<Rightarrow> u32 \<Rightarrow> box_state \<Rightarrow> u32 \<times> box_state" where
  "box1_push ram_start sz st =
     (let n = size_words sz in
      if bs_sp st - 4 * n < ram_start then (0, st)
      else (bs_sp st - 4 * n, st\<lparr>bs_sp := bs_sp st - 4 * n\<rparr>))"

definition box1_pop :: "u32 \<Rightarrow> u32 \<Rightarrow> box_state \<Rightarrow> box_stop + box_state" where
  "box1_pop ram_end sz st =
     (let n = size_words sz in
      if \<not> bs_sp st + 4 * n \<le> ram_end then Inl (Halted (-1))
      else Inr (st\<lparr>bs_sp := bs_sp st + 4 * n\<rparr>))"

subsection \<open>The interface of a box's life\<close>

text \<open>What the callers of a box rely on, shared by the runtimes: \<open>up\<close> tells an initialised box,
  \<open>init\<close> reports success only for a box that is up and does nothing on one that already is,
  and after \<open>clobber\<close> the box is down.\<close>

locale box_life =
  fixes up :: "'s \<Rightarrow> bool" and init :: "'s \<Rightarrow> (box_stop + int) \<times> 's"
    and clobber :: "'s \<Rightarrow> (box_stop + int) \<times> 's"
  assumes init_up: "init s = (Inr 0, s') \<Longrightarrow> up s'"
    and init_again: "up s \<Longrightarrow> init s = (Inr 0, s)"
    and clobber_down: "clobber s = (r, s') \<Longrightarrow> r = Inr 0 \<and> \<not> up s'"
begin

text \<open>A wrapper that initialises a box that is down and then calls it.\<close>

lemma lazy_call:
  assumes "call s = (if \<not> up s then case init s of
      (Inl e, s1) \<Rightarrow> (Inl e, s1)
    | (Inr err, s1) \<Rightarrow> if err \<noteq> 0 then (Inr err, s1) else imp s1 else imp s)"
  shows "(\<exists>s1. up s1 \<and> init s = (Inr 0, s1) \<and> call s = imp s1) \<or>
    (\<not> up s \<and> call s = init s \<and> fst (call s) \<noteq> Inr 0)"
  using assms init_up [of s] init_again [of s] by (auto split: prod.splits sum.splits)

lemma init_twice: "init s = (Inr 0, s') \<Longrightarrow> init s' = (Inr 0, s')"
  using init_up init_again by blast

end

interpretation v7_life: box_life "\<lambda>s. bs_initialized (s_state s)"
    "box1_init hw callregion jt load postinit" box1_clobber
  by unfold_locales
    (auto simp: box1_init_def box1_clobber_def Let_def split: if_splits prod.splits sum.splits)

subsection \<open>The interface of a data stack\<close>

text \<open>Pushes of several sizes, and pops of the same sizes in reverse order.\<close>

fun pushes :: "(u32 \<Rightarrow> 's \<Rightarrow> u32 \<times> 's) \<Rightarrow> u32 list \<Rightarrow> 's \<Rightarrow> 's option" where
  "pushes push [] s = Some s"
| "pushes push (n # ns) s = (case push n s of (p, s') \<Rightarrow> if p = 0 then None else pushes push ns s')"

fun pops :: "(u32 \<Rightarrow> 's \<Rightarrow> box_stop + 's) \<Rightarrow> u32 list \<Rightarrow> 's \<Rightarrow> box_stop + 's" where
  "pops pop [] s = Inr s"
| "pops pop (n # ns) s = (case pops pop ns s of Inl e \<Rightarrow> Inl e | Inr s' \<Rightarrow> pop n s')"

locale data_stack =
  fixes push :: "u32 \<Rightarrow> 's \<Rightarrow> u32 \<times> 's" and pop :: "u32 \<Rightarrow> 's \<Rightarrow> box_stop + 's"
    and top :: "'s \<Rightarrow> u32" and inv :: "'s \<Rightarrow> bool" and words :: "u32 \<Rightarrow> nat"
  assumes push_full: "inv s \<Longrightarrow> push sz s = (0, s') \<Longrightarrow> s' = s"
    and push_top: "inv s \<Longrightarrow> push sz s = (p, s') \<Longrightarrow> p \<noteq> 0 \<Longrightarrow> words sz \<le> unat (top s) \<Longrightarrow>
      inv s' \<and> p = top s' \<and> unat (top s') + words sz = unat (top s)"
    and pop_push: "inv s \<Longrightarrow> push sz s = (p, s') \<Longrightarrow> p \<noteq> 0 \<Longrightarrow> pop sz s' = Inr s"
begin

text \<open>Any sequence of successful pushes is undone by the pops, and used up exactly the words it
  asked for.\<close>

lemma balanced:
  "inv s \<Longrightarrow> pushes push ns s = Some s' \<Longrightarrow> (\<Sum>n\<leftarrow>ns. words n) \<le> unat (top s) \<Longrightarrow>
    pops pop ns s' = Inr s \<and> inv s' \<and> unat (top s') + (\<Sum>n\<leftarrow>ns. words n) = unat (top s)"
proof (induction ns arbitrary: s)
  case (Cons n ns)
  obtain p s1 where p: "push n s = (p, s1)" "p \<noteq> 0" "pushes push ns s1 = Some s'"
    using Cons.prems(2) by (auto split: prod.splits if_splits)
  have "words n \<le> unat (top s)" using Cons.prems(3) by simp
  note top1 = push_top [OF Cons.prems(1) p(1,2) this]
  then have "(\<Sum>n\<leftarrow>ns. words n) \<le> unat (top s1)" using Cons.prems(3) by simp
  then show ?case
    using Cons.IH [OF _ p(3)] top1 pop_push [OF Cons.prems(1) p(1,2)] by simp
qed simp

end

definition size_bytes :: "u32 \<Rightarrow> nat" where
  "size_bytes sz = 4 * unat (size_words sz)"

lemma unat_size_words4: "unat (4 * size_words sz) = size_bytes sz"
proof -
  have "unat (size_words sz) < 2 ^ 30"
    using unat_u32_less [of "sz + 3"] by (simp add: size_words_def unat_div)
  then show ?thesis unfolding size_bytes_def by (subst unat_mult_nat) simp_all
qed

lemma unat_sub_size: "size_bytes sz \<le> unat sp \<Longrightarrow> unat (sp - 4 * size_words sz) + size_bytes sz = unat sp"
  by (subst unat_sub) (simp_all add: word_le_nat_alt unat_size_words4)

interpretation v7_stack: data_stack "box1_push ram_start" "box1_pop ram_end" bs_sp
    "\<lambda>st. 0 < ram_start \<and> ram_start \<le> bs_sp st \<and> bs_sp st \<le> ram_end" size_bytes
proof
  fix s s' :: box_state and sz p
  assume inv: "0 < ram_start \<and> ram_start \<le> bs_sp s \<and> bs_sp s \<le> ram_end"
  show "box1_push ram_start sz s = (0, s') \<Longrightarrow> s' = s"
    using inv by (auto simp: box1_push_def Let_def split: if_splits)
  assume p: "box1_push ram_start sz s = (p, s')" "p \<noteq> 0"
  then show "box1_pop ram_end sz s' = Inr s"
    using inv by (auto simp: box1_push_def box1_pop_def Let_def split: if_splits)
  assume "size_bytes sz \<le> unat (bs_sp s)"
  then show "(0 < ram_start \<and> ram_start \<le> bs_sp s' \<and> bs_sp s' \<le> ram_end) \<and> p = bs_sp s' \<and>
      unat (bs_sp s') + size_bytes sz = unat (bs_sp s)"
    using inv p unat_sub_size [of sz "bs_sp s"]
    by (auto simp: box1_push_def Let_def word_le_nat_alt not_less split: if_splits)
qed

subsection \<open>Properties\<close>

text \<open>an export reaches its box only when the box is up. Either initialisation succeeds (at once
  if the box is up already) and the export is the call in the resulting state, where the box is
  marked initialised; or the box was down, the export gives the failure of the initialisation
  and the box is not called.\<close>

theorem box1_export_lazy:
  "(\<exists>s1. bs_initialized (s_state s1) \<and>
      box1_init hw callregion jt load postinit s = (Inr 0, s1) \<and>
      box1_export (box1_init hw callregion jt load postinit) imp s = imp s1) \<or>
   (bs_initialized (s_state s) = False \<and>
      box1_export (box1_init hw callregion jt load postinit) imp s =
        box1_init hw callregion jt load postinit s \<and>
      fst (box1_export (box1_init hw callregion jt load postinit) imp s) \<noteq> Inr 0)"
  using v7_life.lazy_call [where call = "box1_export (box1_init hw callregion jt load postinit) imp"
      and imp = imp and s = s and hw = hw and callregion = callregion and jt = jt
      and load = load and postinit = postinit]
  by (auto simp: box1_export_def)

text \<open>C15: the data stack of a box is balanced. Starting within the box's RAM, any sequence of
  successful pushes that fits below the stack pointer, followed by pops of the same sizes in
  reverse order, trips no assertion and restores the state; in between, the stack pointer
  stayed within the RAM and moved by the rounded sizes.\<close>

theorem box1_push_pop_balanced:
  assumes "0 < ram_start" and "ram_start \<le> bs_sp st" and "bs_sp st \<le> ram_end"
    and "pushes (box1_push ram_start) ns st = Some st'"
    and "(\<Sum>n\<leftarrow>ns. size_bytes n) \<le> unat (bs_sp st)"
  shows "pops (box1_pop ram_end) ns st' = Inr st \<and> ram_start \<le> bs_sp st' \<and> bs_sp st' \<le> ram_end \<and>
    unat (bs_sp st') + (\<Sum>n\<leftarrow>ns. size_bytes n) = unat (bs_sp st)"
  using v7_stack.balanced [OF _ assms(4,5)] assms(1-3) by auto

theorem box1_push_pop_balanced_witness:
  "pops (box1_pop 0x20040000) [5, 8]
     \<lparr>bs_initialized = True, bs_caller = 0, bs_lr = 0, bs_sp = 0x2003fff0\<rparr> =
   Inr \<lparr>bs_initialized = True, bs_caller = 0, bs_lr = 0, bs_sp = 0x20040000\<rparr>"
proof -
  let ?st = "\<lparr>bs_initialized = True, bs_caller = 0, bs_lr = 0, bs_sp = 0x20040000\<rparr>"
  have "pushes (box1_push 0x2003e000) [5, 8] ?st = Some (?st\<lparr>bs_sp := 0x2003fff0\<rparr>)"
    by code_simp
  from box1_push_pop_balanced [OF _ _ _ this, of "0x20040000"] show ?thesis
    by (simp add: size_bytes_def size_words_def)
qed

text \<open>The check of the data stack wraps. A push of three quarters of the address space
  succeeds and leaves the stack pointer outside of the box's RAM.\<close>

theorem box1_push_wraps:
  "box1_push 0x2003e000 0xc0000000 \<lparr>bs_initialized = True, bs_caller = 0, bs_lr = 0, bs_sp = 0x20040000\<rparr> =
    (0x60040000, \<lparr>bs_initialized = True, bs_caller = 0, bs_lr = 0, bs_sp = 0x60040000\<rparr>)"
  by code_simp

end
