(* ===== verification/JumptableRuntime.thy ===== *)
theory JumptableRuntime
  imports BoxLifecycle
begin

text \<open>
  The jumptable runtime (examples/jumptable-hello/bb.c): a box is ordinary code called through
  its table, and its abort is a \<^verbatim>\<open>longjmp\<close> to the innermost export wrapper.

  \<^item> The state of the glue is whether the box is initialised and \<^verbatim>\<open>__box_box1_jmpbuf\<close>. A
    \<^verbatim>\<open>jmp_buf\<close> on the stack of a wrapper is a frame number, fresh for each call.
  \<^item> Code ends in an \<open>outcome\<close>: it returns, it jumps to a frame with a value, or it halts.
  \<^item> The functions of the box are parameters of the wrappers. \<open>jt_box\<close> describes what a box may
    do: return, abort, or call the system, which may call an export of the same box again
    before it returns.
\<close>

record jt_state =
  jt_initialized :: bool
  jt_jmpbuf :: "nat option"
  jt_next :: nat

datatype outcome = OReturn int | OJump nat int | OHalt box_stop

type_synonym jt_run = "jt_state \<Rightarrow> outcome \<times> jt_state"

subsection \<open>The wrappers\<close>

text \<open>The \<^verbatim>\<open>setjmp\<close> frame of every call into the box. A \<^verbatim>\<open>longjmp\<close> with 0 makes \<^verbatim>\<open>setjmp\<close> return 1.\<close>

definition jt_protect :: "jt_run \<Rightarrow> jt_run" where
  "jt_protect fn s =
     (let pjmpbuf = jt_jmpbuf s; frame = jt_next s in
      case fn (s\<lparr>jt_jmpbuf := Some frame, jt_next := Suc frame\<rparr>) of
        (OReturn r0, s') \<Rightarrow> (OReturn r0, s'\<lparr>jt_jmpbuf := pjmpbuf\<rparr>)
      | (OJump f err, s') \<Rightarrow>
          if f = frame then (OReturn (if err = 0 then 1 else err), s'\<lparr>jt_jmpbuf := pjmpbuf\<rparr>)
          else (OJump f err, s')
      | (OHalt e, s') \<Rightarrow> (OHalt e, s'))"

definition jt_load :: "jt_state \<Rightarrow> int \<times> jt_state" where
  "jt_load s = (0, s)"

definition jt_postinit :: "jt_run \<Rightarrow> jt_run" where
  "jt_postinit fn0 = jt_protect fn0"

definition jt_init :: "jt_run \<Rightarrow> jt_run" where
  "jt_init fn0 s =
     (if jt_initialized s then (OReturn 0, s)
      else case jt_load s of
        (err, s1) \<Rightarrow>
          if err \<noteq> 0 then (OReturn err, s1)
          else case jt_postinit fn0 s1 of
            (OReturn err, s2) \<Rightarrow>
              if err \<noteq> 0 then (OReturn err, s2) else (OReturn 0, s2\<lparr>jt_initialized := True\<rparr>)
          | (out, s2) \<Rightarrow> (out, s2))"

definition jt_export :: "jt_run \<Rightarrow> jt_run \<Rightarrow> jt_run" where
  "jt_export fn0 fn s =
     (if \<not> jt_initialized s
      then case jt_init fn0 s of
          (OReturn err, s1) \<Rightarrow> if err \<noteq> 0 then (OReturn err, s1) else jt_protect fn s1
        | (out, s1) \<Rightarrow> (out, s1)
      else jt_protect fn s)"

definition jt_box1_hello :: "(nat \<Rightarrow> int \<Rightarrow> jt_run) \<Rightarrow> jt_run" where
  "jt_box1_hello table = jt_export (table 0 0) (table 1 0)"

definition jt_box1_ping :: "(nat \<Rightarrow> int \<Rightarrow> jt_run) \<Rightarrow> int \<Rightarrow> jt_run" where
  "jt_box1_ping table a0 = jt_export (table 0 0) (table 2 a0)"

definition jt_box1_ping_abort :: "(nat \<Rightarrow> int \<Rightarrow> jt_run) \<Rightarrow> int \<Rightarrow> jt_run" where
  "jt_box1_ping_abort table a0 = jt_export (table 0 0) (table 3 a0)"

definition jt_box1_ping_import :: "(nat \<Rightarrow> int \<Rightarrow> jt_run) \<Rightarrow> int \<Rightarrow> jt_run" where
  "jt_box1_ping_import table a0 = jt_export (table 0 0) (table 4 a0)"

definition jt_abort :: "int \<Rightarrow> jt_run" where
  "jt_abort err s0 =
     (let s = s0\<lparr>jt_initialized := False\<rparr> in
      case jt_jmpbuf s of
        Some frame \<Rightarrow> (OJump frame err, s)
      | None \<Rightarrow> (OHalt (Halted err), s))"

definition jt_clobber :: jt_run where
  "jt_clobber s = (OReturn 0, s\<lparr>jt_initialized := False\<rparr>)"

definition jt_push :: "u32 \<Rightarrow> u32" where
  "jt_push sz = 0"

definition jt_pop :: "u32 \<Rightarrow> box_stop" where
  "jt_pop sz = Halted (-1)"

subsection \<open>What a box may do\<close>

datatype jt_box = Returns int | Aborts int | Reenters jt_box "int \<Rightarrow> jt_box"

primrec jt_exec :: "jt_run \<Rightarrow> jt_box \<Rightarrow> jt_run" where
  "jt_exec fn0 (Returns r) = (\<lambda>s. (OReturn r, s))"
| "jt_exec fn0 (Aborts err) = jt_abort err"
| "jt_exec fn0 (Reenters b k) = (\<lambda>s.
     case jt_export fn0 (jt_exec fn0 b) s of
       (OReturn r, s') \<Rightarrow> jt_exec fn0 (k r) s'
     | (out, s') \<Rightarrow> (out, s'))"

text \<open>The init function of a box, which calls nothing: it returns or aborts with a value.\<close>

definition jt_boot :: "int + int \<Rightarrow> jt_run" where
  "jt_boot b = (case b of Inl err \<Rightarrow> jt_abort err | Inr r \<Rightarrow> (\<lambda>s. (OReturn r, s)))"

subsection \<open>Jumps stay within their wrapper\<close>

text \<open>Code called by a wrapper either returns with the jump target it was given, or jumps to
  it.\<close>

definition contained :: "jt_run \<Rightarrow> bool" where
  "contained fn \<longleftrightarrow> (\<forall>s f. jt_jmpbuf s = Some f \<longrightarrow> f < jt_next s \<longrightarrow>
     (\<exists>s'. jt_next s \<le> jt_next s' \<and>
        ((\<exists>r. fn s = (OReturn r, s') \<and> jt_jmpbuf s' = Some f) \<or> (\<exists>e. fn s = (OJump f e, s')))))"

lemma containedD:
  assumes "contained fn" and "jt_jmpbuf s = Some f" and "f < jt_next s"
  obtains (ret) r s' where "fn s = (OReturn r, s')" "jt_jmpbuf s' = Some f" "jt_next s \<le> jt_next s'"
  | (jump) e s' where "fn s = (OJump f e, s')" "jt_next s \<le> jt_next s'"
  using assms unfolding contained_def by blast

lemma protect_returns:
  assumes "contained fn"
  shows "\<exists>r s'. jt_protect fn s = (OReturn r, s') \<and> jt_jmpbuf s' = jt_jmpbuf s \<and> jt_next s \<le> jt_next s'"
  using assms
  by (rule containedD [where s = "s\<lparr>jt_jmpbuf := Some (jt_next s), jt_next := Suc (jt_next s)\<rparr>"
        and f = "jt_next s"]) (auto simp: jt_protect_def Let_def)

lemma init_returns:
  assumes "contained fn0"
  shows "\<exists>r s'. jt_init fn0 s = (OReturn r, s') \<and> jt_jmpbuf s' = jt_jmpbuf s \<and>
    jt_next s \<le> jt_next s' \<and> (r = 0 \<longrightarrow> jt_initialized s')"
  using protect_returns [OF assms, of s]
  by (auto simp: jt_init_def jt_load_def jt_postinit_def)

lemma export_returns:
  assumes "contained fn0" and "contained fn"
  shows "\<exists>r s'. jt_export fn0 fn s = (OReturn r, s') \<and> jt_jmpbuf s' = jt_jmpbuf s \<and> jt_next s \<le> jt_next s'"
proof -
  obtain r s1 where i: "jt_init fn0 s = (OReturn r, s1)" "jt_jmpbuf s1 = jt_jmpbuf s" "jt_next s \<le> jt_next s1"
    using init_returns [OF assms(1)] by blast
  show ?thesis
    using protect_returns [OF assms(2), of s] protect_returns [OF assms(2), of s1] i
    by (auto simp: jt_export_def)
qed

lemma contained_boot: "contained (jt_boot b)"
  by (auto simp: contained_def jt_boot_def jt_abort_def split: sum.splits)

lemma contained_exec:
  assumes "contained fn0"
  shows "contained (jt_exec fn0 b)"
proof (induction b)
  case (Reenters b k)
  show ?case
    unfolding contained_def
  proof (intro allI impI)
    fix s :: jt_state and f
    assume s: "jt_jmpbuf s = Some f" "f < jt_next s"
    obtain r s1 where e: "jt_export fn0 (jt_exec fn0 b) s = (OReturn r, s1)"
        "jt_jmpbuf s1 = Some f" "jt_next s \<le> jt_next s1"
      using export_returns [OF assms Reenters(1), of s] s by auto
    have "contained (jt_exec fn0 (k r))" using Reenters(2) by simp
    then show "\<exists>s'. jt_next s \<le> jt_next s' \<and>
        ((\<exists>r. jt_exec fn0 (Reenters b k) s = (OReturn r, s') \<and> jt_jmpbuf s' = Some f) \<or>
         (\<exists>e. jt_exec fn0 (Reenters b k) s = (OJump f e, s')))"
      using e s by (elim containedD [where s = s1 and f = f]) auto
  qed
qed (auto simp: contained_def jt_abort_def)

interpretation jt_life: box_life jt_initialized
    "\<lambda>s. case jt_init (jt_boot b) s of (OReturn r, s') \<Rightarrow> (Inr r, s') | (OJump f e, s') \<Rightarrow> (Inl OutOfBounds, s')
       | (OHalt e, s') \<Rightarrow> (Inl e, s')"
    "\<lambda>s. (Inr 0, snd (jt_clobber s))"
proof
  fix s s' :: jt_state
  obtain r s1 where i: "jt_init (jt_boot b) s = (OReturn r, s1)" "r = 0 \<longrightarrow> jt_initialized s1"
    using init_returns [OF contained_boot] by blast
  then show "(case jt_init (jt_boot b) s of (OReturn r, s') \<Rightarrow> (Inr r, s')
      | (OJump f e, s') \<Rightarrow> (Inl OutOfBounds, s') | (OHalt e, s') \<Rightarrow> (Inl e, s')) = (Inr 0, s') \<Longrightarrow> jt_initialized s'"
    by auto
  show "jt_initialized s \<Longrightarrow> (case jt_init (jt_boot b) s of (OReturn r, s') \<Rightarrow> (Inr r, s')
      | (OJump f e, s') \<Rightarrow> (Inl OutOfBounds, s') | (OHalt e, s') \<Rightarrow> (Inl e, s')) = (Inr 0, s)"
    by (simp add: jt_init_def)
qed (simp add: jt_clobber_def)

subsection \<open>Properties\<close>

text \<open>C12: an abort in a jumptable box ends its call and nothing else. Whatever the box does,
  including aborting inside a call of the system that it made itself and that called it again,
  an export returns to its caller and leaves the jump target of the enclosing call as it
  was; it never jumps past its caller nor halts.\<close>

theorem jt_export_contained:
  "\<exists>r s'. jt_export (jt_boot b0) (jt_exec (jt_boot b0) b) s = (OReturn r, s') \<and>
     jt_jmpbuf s' = jt_jmpbuf s"
  using export_returns [OF contained_boot contained_exec [OF contained_boot]] by blast

text \<open>An abort is reported and takes the box down. A direct abort of an initialised box with a
  nonzero \<open>err\<close> makes the export return \<open>err\<close>; the box is then uninitialised and the next
  export runs its init again.\<close>

theorem jt_abort_reported:
  assumes "jt_initialized s" and "err \<noteq> 0"
    and "jt_export fn0 (jt_exec fn0 (Aborts err)) s = (out, s')"
  shows "out = OReturn err \<and> \<not> jt_initialized s' \<and>
    jt_init fn0 s' = (case jt_postinit fn0 s' of
      (OReturn e, s2) \<Rightarrow> if e \<noteq> 0 then (OReturn e, s2) else (OReturn 0, s2\<lparr>jt_initialized := True\<rparr>)
    | (out, s2) \<Rightarrow> (out, s2))"
  using assms by (auto simp: jt_export_def jt_protect_def jt_abort_def jt_init_def jt_load_def Let_def)

theorem jt_abort_reported_witness:
  "fst (jt_export (jt_boot (Inr 0)) (jt_exec (jt_boot (Inr 0)) (Aborts (-5)))
     \<lparr>jt_initialized = True, jt_jmpbuf = None, jt_next = 0\<rparr>) = OReturn (-5)"
  using jt_abort_reported [OF _ _ prod.collapse [symmetric],
      of "\<lparr>jt_initialized = True, jt_jmpbuf = None, jt_next = 0\<rparr>" "-5" "jt_boot (Inr 0)"]
  by simp

end
