(* ===== verification/BoxWrite.thy ===== *)
theory BoxWrite
  imports BoxErrors
begin

text \<open>
  The host's output hook and clock (examples/armv7m-mpu-hello/main.c): \<^verbatim>\<open>__box_write\<close> sends a
  buffer to the UART and turns every newline into a carriage return and a newline, with the
  benchmark clock stopped meanwhile. The vendored driver is two parameters: \<open>tx\<close> is
  \<^verbatim>\<open>nrfx_uarte_tx\<close> (did it succeed, and the device after it), \<open>capture\<close> is
  \<^verbatim>\<open>nrfx_timer_capture\<close>. A failed assertion ends the program: \<open>Inl\<close>.
\<close>

record 'd hooks =
  dev :: 'd
  timer_hi :: u64
  bench_value :: u64
  bench_startedyet :: int

type_synonym 'd uart_tx = "u8 list \<Rightarrow> 'd \<Rightarrow> bool \<times> 'd"
type_synonym 'd timer_capture = "'d \<Rightarrow> u32 \<times> 'd"

subsection \<open>The clock\<close>

definition timer0_handler :: "'d hooks \<Rightarrow> 'd hooks" where
  "timer0_handler s = s\<lparr>timer_hi := timer_hi s + 1000000\<rparr>"

definition timer_getns :: "'d timer_capture \<Rightarrow> 'd hooks \<Rightarrow> u64 \<times> 'd hooks" where
  "timer_getns capture s =
     (let (t, d) = capture (dev s) in (timer_hi s + ucast t, s\<lparr>dev := d\<rparr>))"

definition bench_start :: "'d timer_capture \<Rightarrow> 'd hooks \<Rightarrow> 'd hooks" where
  "bench_start capture s =
     (let s = s\<lparr>bench_startedyet := bench_startedyet s + 1\<rparr>
      in if bench_startedyet s > 0
         then (let (t, s) = timer_getns capture s in s\<lparr>bench_value := bench_value s - t\<rparr>)
         else s)"

definition bench_stop :: "'d timer_capture \<Rightarrow> 'd hooks \<Rightarrow> 'd hooks" where
  "bench_stop capture s =
     (let s = (if bench_startedyet s > 0
               then (let (t, s) = timer_getns capture s in s\<lparr>bench_value := bench_value s + t\<rparr>)
               else s)
      in s\<lparr>bench_startedyet := bench_startedyet s - 1\<rparr>)"

subsection \<open>The output hook\<close>

definition uart_send :: "'d uart_tx \<Rightarrow> u8 list \<Rightarrow> 'd hooks \<Rightarrow> 'd hooks + 'd hooks" where
  "uart_send tx cs s =
     (let (ok, d) = tx cs (dev s) in (if ok then Inr else Inl) (s\<lparr>dev := d\<rparr>))"

text \<open>A buffer in flash is sent byte by byte.\<close>

primrec uart_send_flash :: "'d uart_tx \<Rightarrow> u8 list \<Rightarrow> 'd hooks \<Rightarrow> 'd hooks + 'd hooks" where
  "uart_send_flash tx [] s = Inr s"
| "uart_send_flash tx (c # cs) s =
     (case uart_send tx [c] s of Inl s \<Rightarrow> Inl s | Inr s \<Rightarrow> uart_send_flash tx cs s)"

definition uart_send_span :: "'d uart_tx \<Rightarrow> u32 \<Rightarrow> u8 list \<Rightarrow> 'd hooks \<Rightarrow> 'd hooks + 'd hooks" where
  "uart_send_span tx p span s =
     (if span = [] then Inr s
      else if p < 0x2000000 then uart_send_flash tx span s
      else uart_send tx span s)"

text \<open>The loop: \<open>rest\<close> is the buffer from \<^verbatim>\<open>i\<close> on. With no newline in it the span is all of it
  and the loop ends; otherwise the newline is replaced and skipped.\<close>

function write_lines :: "'d uart_tx \<Rightarrow> u32 \<Rightarrow> u8 list \<Rightarrow> 'd hooks \<Rightarrow> 'd hooks + 'd hooks" where
  "write_lines tx p rest s =
     (case uart_send_span tx p (takeWhile (\<lambda>c. c \<noteq> 0x0a) rest) s of
        Inl s \<Rightarrow> Inl s
      | Inr s \<Rightarrow>
          (case dropWhile (\<lambda>c. c \<noteq> 0x0a) rest of
             [] \<Rightarrow> Inr s
           | nl # rest \<Rightarrow>
               (case uart_send tx [0x0d, 0x0a] s of
                  Inl s \<Rightarrow> Inl s
                | Inr s \<Rightarrow> write_lines tx p rest s)))"
  by auto
termination
  by (relation "measure (\<lambda>(tx, p, rest, s). length rest)")
    (auto dest: dropWhile_length_less)

declare write_lines.simps [simp del]

definition box_write :: "'d uart_tx \<Rightarrow> 'd timer_capture \<Rightarrow> u32 \<Rightarrow> int \<Rightarrow> u8 list \<Rightarrow> 'd hooks \<Rightarrow>
    'd hooks + int \<times> 'd hooks" where
  "box_write tx capture p handle buf s =
     (let s = bench_stop capture s
      in if \<not> (handle = 1 \<or> handle = 2) then Inl s
         else (case write_lines tx p buf s of
                 Inl s \<Rightarrow> Inl s
               | Inr s \<Rightarrow> Inr (int (length buf), bench_start capture s)))"

subsection \<open>What is sent\<close>

definition crlf :: "u8 list \<Rightarrow> u8 list" where
  "crlf buf = concat (map (\<lambda>c. if c = 0x0a then [0x0d, 0x0a] else [c]) buf)"

text \<open>What the code relies on: every transmission succeeds and the clock sends nothing.\<close>

definition uart_sends :: "'d uart_tx \<Rightarrow> 'd timer_capture \<Rightarrow> ('d \<Rightarrow> u8 list) \<Rightarrow> bool" where
  "uart_sends tx capture sent \<longleftrightarrow>
     (\<forall>cs d. fst (tx cs d) \<and> sent (snd (tx cs d)) = sent d @ cs) \<and>
     (\<forall>d. sent (snd (capture d)) = sent d)"

lemma crlf_Nil [simp]: "crlf [] = []"
  and crlf_append [simp]: "crlf (a @ b) = crlf a @ crlf b"
  and crlf_newline: "crlf (0x0a # b) = 0x0d # 0x0a # crlf b"
  by (simp_all add: crlf_def)

lemma crlf_span: "\<forall>c\<in>set cs. c \<noteq> 0x0a \<Longrightarrow> crlf cs = cs"
  by (induction cs) (simp_all add: crlf_def)

lemma uart_send_ok:
  assumes "uart_sends tx capture sent"
  shows "\<exists>d. uart_send tx cs s = Inr (s\<lparr>dev := d\<rparr>) \<and> sent d = sent (dev s) @ cs"
  using assms by (auto simp: uart_sends_def uart_send_def split: prod.splits)
    (metis fst_conv snd_conv)+

lemma uart_send_flash_ok:
  assumes "uart_sends tx capture sent"
  shows "\<exists>d. uart_send_flash tx cs s = Inr (s\<lparr>dev := d\<rparr>) \<and> sent d = sent (dev s) @ cs"
proof (induction cs arbitrary: s)
  case Nil
  show ?case by (rule exI [of _ "dev s"]) simp
next
  case (Cons c cs)
  obtain d where d: "uart_send tx [c] s = Inr (s\<lparr>dev := d\<rparr>)" "sent d = sent (dev s) @ [c]"
    using uart_send_ok [OF assms] by blast
  from Cons [of "s\<lparr>dev := d\<rparr>"] d show ?case by auto
qed

lemma uart_send_span_ok:
  assumes "uart_sends tx capture sent"
  shows "\<exists>d. uart_send_span tx p cs s = Inr (s\<lparr>dev := d\<rparr>) \<and> sent d = sent (dev s) @ cs"
proof (cases "cs = []")
  case True
  then show ?thesis by (auto simp: uart_send_span_def intro: exI [of _ "dev s"])
next
  case False
  then show ?thesis
    using uart_send_ok [OF assms, of cs s] uart_send_flash_ok [OF assms, of cs s]
    by (cases "p < 0x2000000") (simp_all add: uart_send_span_def)
qed

lemma write_lines_ok:
  assumes "uart_sends tx capture sent"
  shows "\<exists>d. write_lines tx p rest s = Inr (s\<lparr>dev := d\<rparr>) \<and> sent d = sent (dev s) @ crlf rest"
proof (induction "length rest" arbitrary: rest s rule: less_induct)
  case less
  let ?span = "takeWhile (\<lambda>c. c \<noteq> 0x0a) rest"
  obtain d where d: "uart_send_span tx p ?span s = Inr (s\<lparr>dev := d\<rparr>)"
      "sent d = sent (dev s) @ ?span"
    using uart_send_span_ok [OF assms] by blast
  have span: "crlf ?span = ?span" by (rule crlf_span) (auto dest: set_takeWhileD)
  show ?case
  proof (cases "dropWhile (\<lambda>c. c \<noteq> 0x0a) rest")
    case Nil
    then have "rest = ?span" by (metis append_Nil2 takeWhile_dropWhile_id)
    then have "crlf rest = ?span" using span by metis
    with d show ?thesis by (subst write_lines.simps) (simp only: Nil, intro exI [of _ d], simp)
  next
    case (Cons c rest')
    then have c: "c = 0x0a" by (metis (full_types) dropWhile_eq_Cons_conv)
    have rest: "rest = ?span @ 0x0a # rest'"
      using Cons c by (metis takeWhile_dropWhile_id)
    then have "crlf rest = crlf (?span @ 0x0a # rest')" by (rule arg_cong)
    then have crlf: "crlf rest = ?span @ [0x0d, 0x0a] @ crlf rest'"
      by (simp add: crlf_newline span)
    obtain e where e: "uart_send tx [0x0d, 0x0a] (s\<lparr>dev := d\<rparr>) = Inr (s\<lparr>dev := e\<rparr>)"
        "sent e = sent d @ [0x0d, 0x0a]"
      using uart_send_ok [OF assms, of "[0x0d, 0x0a]" "s\<lparr>dev := d\<rparr>"] by auto
    have "length rest' < length rest" by (subst rest) simp
    from less [OF this, of "s\<lparr>dev := e\<rparr>"] d e Cons crlf show ?thesis
      by (subst write_lines.simps) auto
  qed
qed

lemma bench_start_sent:
  "uart_sends tx capture sent \<Longrightarrow> sent (dev (bench_start capture s)) = sent (dev s)"
  by (auto simp: bench_start_def Let_def timer_getns_def uart_sends_def split: prod.splits)
    (metis snd_conv)

lemma bench_stop_sent:
  "uart_sends tx capture sent \<Longrightarrow> sent (dev (bench_stop capture s)) = sent (dev s)"
  by (auto simp: bench_stop_def Let_def timer_getns_def uart_sends_def split: prod.splits)
    (metis snd_conv)

lemma bench_started [simp]:
  "bench_startedyet (bench_start capture s) = bench_startedyet s + 1"
  "bench_startedyet (bench_stop capture s) = bench_startedyet s - 1"
  by (simp_all add: bench_start_def bench_stop_def timer_getns_def Let_def split: prod.splits)

lemma box_write_sends:
  assumes "uart_sends tx capture sent" and "handle = 1 \<or> handle = 2"
  shows "\<exists>s'. box_write tx capture p handle buf s = Inr (int (length buf), s') \<and>
     sent (dev s') = sent (dev s) @ crlf buf \<and> bench_startedyet s' = bench_startedyet s"
proof -
  let ?s = "bench_stop capture s"
  obtain d where d: "write_lines tx p buf ?s = Inr (?s\<lparr>dev := d\<rparr>)"
      "sent d = sent (dev ?s) @ crlf buf"
    using write_lines_ok [OF assms(1)] by blast
  have "sent (dev (bench_start capture (?s\<lparr>dev := d\<rparr>))) = sent (dev s) @ crlf buf"
    by (simp add: bench_start_sent [OF assms(1)] bench_stop_sent [OF assms(1)] d)
  then show ?thesis using assms(2) d(1) by (simp add: box_write_def Let_def)
qed

end
