(* ===== verification/BoxPrintf.thy ===== *)
theory BoxPrintf
  imports BoxWrite
begin

text \<open>
  The formatter of the glue, \<^verbatim>\<open>__box_cbprintf\<close> (examples/armv7m-mpu-hello/bb.c and box1/bb.c,
  the same text in both), and the wrappers that send \<^verbatim>\<open>printf\<close> to \<^verbatim>\<open>__box_write\<close>.

  A C string is the list of its bytes with the terminating NUL as an element, so that reading
  past the NUL is visible: \<open>None\<close> as a result is a read outside the format string, outside the
  argument list or an endless scan, which C leaves undefined. The callback \<^verbatim>\<open>write\<close> takes the
  bytes to be written and the state behind \<^verbatim>\<open>ctx\<close>. A part of the loop body yields \<open>Inr\<close> of
  the running \<^verbatim>\<open>res\<close> or \<open>Inl\<close> of the value of an early \<^verbatim>\<open>return\<close>.
\<close>

subsection \<open>The format parser\<close>

datatype fmt_mode = ModeChar | ModeStr | ModeHex | ModeSigned | ModeUnsigned

record fmt_spec =
  zero_justify :: bool
  left_justify :: bool
  precision_mode :: bool
  width :: u32
  precision :: u32
  mode :: fmt_mode
  fvalue :: u32
  fsize :: u32

definition fmt_start :: fmt_spec where
  "fmt_start = \<lparr>zero_justify = False, left_justify = False, precision_mode = False,
     width = 0, precision = 0, mode = ModeChar, fvalue = 0, fsize = 0\<rparr>"

function dec_len :: "u32 \<Rightarrow> nat" where
  "dec_len t = (if t > 0 then Suc (dec_len (t div 10)) else 0)"
  by auto
termination by (relation "measure unat") (auto intro: unat_div_less)

function hex_len :: "u32 \<Rightarrow> nat" where
  "hex_len t = (if t > 0 then Suc (hex_len (t div 16)) else 0)"
  by auto
termination by (relation "measure unat") (auto intro: unat_div_less)

declare dec_len.simps [simp del] hex_len.simps [simp del]

text \<open>The length scan of \<^verbatim>\<open>%s\<close>; a string that fills the address space without a NUL has no
  length.\<close>

function str_len :: "(u32 \<Rightarrow> u8) \<Rightarrow> u32 \<Rightarrow> u32 \<Rightarrow> nat \<Rightarrow> nat option" where
  "str_len m s prec n =
     (if n \<ge> 2 ^ 32 then None
      else if m (s + of_nat n) \<noteq> 0 \<and> (prec = 0 \<or> n < unat prec) then str_len m s prec (Suc n)
      else Some n)"
  by auto
termination by (relation "measure (\<lambda>(m, s, p, n). 2 ^ 32 - n)") auto

declare str_len.simps [simp del]

text \<open>The value and the printed size of a conversion.\<close>

definition fmt_char :: "u32 \<Rightarrow> fmt_spec \<Rightarrow> fmt_spec" where
  "fmt_char v sp = sp\<lparr>mode := ModeChar, fvalue := v, fsize := 1\<rparr>"

definition fmt_str :: "(u32 \<Rightarrow> u8) \<Rightarrow> u32 \<Rightarrow> fmt_spec \<Rightarrow> fmt_spec option" where
  "fmt_str m s sp =
     map_option (\<lambda>n. sp\<lparr>mode := ModeStr, fvalue := s, fsize := of_nat n\<rparr>)
       (str_len m s (precision sp) 0)"

definition fmt_signed :: "u32 \<Rightarrow> fmt_spec \<Rightarrow> fmt_spec" where
  "fmt_signed v sp =
     (let sz = 0;
          (sz, d) = (if sint v < 0 then (sz + 1, - v) else (sz, v));
          sz = sz + dec_len d;
          sz = (if sz = 0 then sz + 1 else sz)
      in sp\<lparr>mode := ModeSigned, fvalue := v, fsize := of_nat sz\<rparr>)"

definition fmt_unsigned :: "u32 \<Rightarrow> fmt_spec \<Rightarrow> fmt_spec" where
  "fmt_unsigned v sp =
     (let sz = dec_len v; sz = (if sz = 0 then sz + 1 else sz)
      in sp\<lparr>mode := ModeUnsigned, fvalue := v, fsize := of_nat sz\<rparr>)"

definition fmt_hex :: "u8 \<Rightarrow> u32 \<Rightarrow> fmt_spec \<Rightarrow> fmt_spec" where
  "fmt_hex c v sp =
     (let sp = (if c = 0x78 \<or> c = 0x58 then sp else sp\<lparr>zero_justify := True, width := 2 * 4\<rparr>);
          sz = hex_len v; sz = (if sz = 0 then sz + 1 else sz)
      in sp\<lparr>mode := ModeHex, fvalue := v, fsize := of_nat sz\<rparr>)"

text \<open>The digits of a width or a precision.\<close>

definition fmt_digit :: "u8 \<Rightarrow> fmt_spec \<Rightarrow> fmt_spec" where
  "fmt_digit c sp =
     (if precision_mode sp then sp\<lparr>precision := precision sp * 10 + (ucast c - 0x30)\<rparr>
      else if c > 0x30 \<or> width sp > 0 then sp\<lparr>width := width sp * 10 + (ucast c - 0x30)\<rparr>
      else sp\<lparr>zero_justify := True\<rparr>)"

text \<open>The loop over \<^verbatim>\<open>p[1]\<close>: the list is the string from \<^verbatim>\<open>p+1\<close> on, \<open>va\<close> the arguments that are
  left. The result has the string from the final \<^verbatim>\<open>p+2\<close> on.\<close>

fun fmt_parse :: "(u32 \<Rightarrow> u8) \<Rightarrow> u8 list \<Rightarrow> fmt_spec \<Rightarrow> u32 list \<Rightarrow>
    (fmt_spec \<times> u8 list \<times> u32 list) option" where
  "fmt_parse m [] sp va = None"
| "fmt_parse m (c # q) sp va =
     (if 0x30 \<le> c \<and> c \<le> 0x39 then fmt_parse m q (fmt_digit c sp) va
      else if c = 0x2a then
        (case va of [] \<Rightarrow> None
         | a # va \<Rightarrow>
             fmt_parse m q (if precision_mode sp then sp\<lparr>precision := a\<rparr> else sp\<lparr>width := a\<rparr>) va)
      else if c = 0x2e then fmt_parse m q (sp\<lparr>precision_mode := True\<rparr>) va
      else if c = 0x2d then fmt_parse m q (sp\<lparr>left_justify := True\<rparr>) va
      else if c = 0x25 then Some (fmt_char 0x25 sp, q, va)
      else if c = 0x63 then
        (case va of [] \<Rightarrow> None | a # va \<Rightarrow> Some (fmt_char a sp, q, va))
      else if c = 0x73 then
        (case va of [] \<Rightarrow> None | a # va \<Rightarrow> map_option (\<lambda>sp. (sp, q, va)) (fmt_str m a sp))
      else if c = 0x64 \<or> c = 0x69 then
        (case va of [] \<Rightarrow> None | a # va \<Rightarrow> Some (fmt_signed a sp, q, va))
      else if c = 0x75 then
        (case va of [] \<Rightarrow> None | a # va \<Rightarrow> Some (fmt_unsigned a sp, q, va))
      else if 0x20 \<le> c \<and> c \<le> 0x3f then fmt_parse m q sp va
      else (case va of [] \<Rightarrow> None | a # va \<Rightarrow> Some (fmt_hex c a sp, q, va)))"

subsection \<open>The printer\<close>

text \<open>The callback ends the program (\<open>Inl\<close>) or returns a number (\<open>Inr\<close>). A part of the printer
  stops, with what \<^verbatim>\<open>__box_cbprintf\<close> does then, or goes on with the running \<^verbatim>\<open>res\<close>.\<close>

type_synonym 's writer = "u8 list \<Rightarrow> 's \<Rightarrow> 's + int \<times> 's"

datatype 's outcome = Stop "'s + int \<times> 's" | Go int 's

definition emit :: "'s writer \<Rightarrow> u8 list \<Rightarrow> int \<Rightarrow> 's \<Rightarrow> 's outcome" where
  "emit write buf res s =
     (case write buf s of
        Inl s \<Rightarrow> Stop (Inl s)
      | Inr (nres, s) \<Rightarrow> if nres < 0 then Stop (Inr (nres, s)) else Go (res + nres) s)"

primrec and_then :: "'s outcome \<Rightarrow> (int \<Rightarrow> 's \<Rightarrow> 's outcome) \<Rightarrow> 's outcome" where
  "and_then (Stop r) k = Stop r"
| "and_then (Go res s) k = k res s"

primrec emit_pad :: "'s writer \<Rightarrow> u8 \<Rightarrow> nat \<Rightarrow> int \<Rightarrow> 's \<Rightarrow> 's outcome" where
  "emit_pad write c 0 res s = Go res s"
| "emit_pad write c (Suc n) res s = and_then (emit write [c] res s) (emit_pad write c n)"

definition pad_count :: "fmt_spec \<Rightarrow> nat" where
  "pad_count sp = nat (sint (width sp) - sint (fsize sp))"

definition hex_char :: "u32 \<Rightarrow> u8" where
  "hex_char digit = ucast ((if digit \<ge> 10 then 0x61 - 10 else 0x30) + digit)"

text \<open>The loops over \<^verbatim>\<open>i\<close> from \<open>n - 1\<close> down to 0.\<close>

primrec emit_hex :: "'s writer \<Rightarrow> u32 \<Rightarrow> nat \<Rightarrow> int \<Rightarrow> 's \<Rightarrow> 's outcome" where
  "emit_hex write v 0 res s = Go res s"
| "emit_hex write v (Suc i) res s =
     (let digit = drop_bit (4 * i) v AND 0xf
      in and_then (emit write [hex_char digit] res s) (emit_hex write v i))"

primrec shift_dec :: "nat \<Rightarrow> u32 \<Rightarrow> u32" where
  "shift_dec 0 temp = temp"
| "shift_dec (Suc j) temp = shift_dec j (temp div 10)"

primrec emit_dec :: "'s writer \<Rightarrow> u32 \<Rightarrow> nat \<Rightarrow> int \<Rightarrow> 's \<Rightarrow> 's outcome" where
  "emit_dec write v 0 res s = Go res s"
| "emit_dec write v (Suc i) res s =
     (let digit = shift_dec i v mod 10
      in and_then (emit write [0x30 + ucast digit] res s) (emit_dec write v i))"

fun emit_body :: "'s writer \<Rightarrow> (u32 \<Rightarrow> u8) \<Rightarrow> fmt_spec \<Rightarrow> int \<Rightarrow> 's \<Rightarrow> 's outcome" where
  "emit_body write m sp res s =
     (case mode sp of
        ModeChar \<Rightarrow> emit write [byte_of (fvalue sp) 0] res s
      | ModeStr \<Rightarrow> emit write (map (\<lambda>i. m (fvalue sp + of_nat i)) [0..<unat (fsize sp)]) res s
      | ModeHex \<Rightarrow> emit_hex write (fvalue sp) (unat (fsize sp)) res s
      | ModeUnsigned \<Rightarrow> emit_dec write (fvalue sp) (unat (fsize sp)) res s
      | ModeSigned \<Rightarrow>
          (if sint (fvalue sp) < 0
           then and_then (emit write [0x2d] res s)
                  (emit_dec write (- fvalue sp) (unat (fsize sp) - 1))
           else emit_dec write (fvalue sp) (unat (fsize sp)) res s))"

definition emit_spec :: "'s writer \<Rightarrow> (u32 \<Rightarrow> u8) \<Rightarrow> fmt_spec \<Rightarrow> int \<Rightarrow> 's \<Rightarrow> 's outcome" where
  "emit_spec write m sp res s =
     and_then
       (if \<not> left_justify sp
        then emit_pad write (if zero_justify sp then 0x30 else 0x20) (pad_count sp) res s
        else Go res s)
       (\<lambda>res s. and_then (emit_body write m sp res s)
         (\<lambda>res s. if left_justify sp then emit_pad write 0x20 (pad_count sp) res s else Go res s))"

text \<open>\<^verbatim>\<open>strcspn(p, "%")\<close> as the text it skips; it stops at the NUL too.\<close>

definition plain :: "u8 \<Rightarrow> bool" where
  "plain c \<longleftrightarrow> c \<noteq> 0 \<and> c \<noteq> 0x25"

lemma fmt_parse_length: "fmt_parse m q sp va = Some (sp', q', va') \<Longrightarrow> length q' < length q"
  by (induction m q sp va rule: fmt_parse.induct)
    (auto split: if_splits list.splits option.splits)

function box_cbprintf ::
  "'s writer \<Rightarrow> (u32 \<Rightarrow> u8) \<Rightarrow> u8 list \<Rightarrow> u32 list \<Rightarrow> int \<Rightarrow> 's \<Rightarrow> ('s + int \<times> 's) option" where
  "box_cbprintf write m p va res s =
     (let skip = takeWhile plain p
      in case (if skip \<noteq> [] then emit write skip res s else Go res s) of
           Stop r \<Rightarrow> Some r
         | Go res s \<Rightarrow>
             (case dropWhile plain p of
                [] \<Rightarrow> None
              | c # q \<Rightarrow>
                  if c = 0 then Some (Inr (res, s))
                  else (case fmt_parse m q fmt_start va of
                          None \<Rightarrow> None
                        | Some (sp, p, va) \<Rightarrow>
                            (case emit_spec write m sp res s of
                               Stop r \<Rightarrow> Some r
                             | Go res s \<Rightarrow> box_cbprintf write m p va res s))))"
  by auto
termination
  by (relation "measure (\<lambda>(write, m, p, va, res, s). length p)")
    (auto dest!: fmt_parse_length dropWhile_length_less)

declare box_cbprintf.simps [simp del]

subsection \<open>The wrappers\<close>

text \<open>\<open>at\<close> says where a buffer lies: a piece of the format, a string, or a variable of
  \<^verbatim>\<open>__box_cbprintf\<close> on the stack.\<close>

definition vprintf_write ::
  "'d uart_tx \<Rightarrow> 'd timer_capture \<Rightarrow> (u8 list \<Rightarrow> u32) \<Rightarrow> int \<Rightarrow> 'd hooks writer" where
  "vprintf_write tx capture at ctx buf s = box_write tx capture (at buf) ctx buf s"

definition wrap_vprintf where
  "wrap_vprintf tx capture at m format args s =
     box_cbprintf (vprintf_write tx capture at 1) m format args 0 s"

definition wrap_printf where
  "wrap_printf tx capture at m format args s = wrap_vprintf tx capture at m format args s"

text \<open>A stream is \<^verbatim>\<open>stdout\<close> or another one.\<close>

definition wrap_vfprintf where
  "wrap_vfprintf tx capture at m is_stdout format args s =
     (let fd = (if is_stdout then 1 else 2)
      in box_cbprintf (vprintf_write tx capture at fd) m format args 0 s)"

definition wrap_fprintf where
  "wrap_fprintf tx capture at m is_stdout format args s =
     wrap_vfprintf tx capture at m is_stdout format args s"

definition write_syscall where
  "write_syscall tx capture p handle buffer s = box_write tx capture p handle buffer s"

end
