(* ===== verification/BoxPrintfProps.thy ===== *)
theory BoxPrintfProps
  imports BoxPrintf
begin

text \<open>
  What \<^verbatim>\<open>__box_cbprintf\<close> prints. Its output is first a list of chunks that does not depend on
  the callback; then, for a callback that accepts everything (the locale \<open>full_writer\<close>, met by
  the UART hook), it is the text a reference formatter gives, with numbers written by
  division in the naturals.
\<close>

subsection \<open>The output as a list of chunks\<close>

primrec write_all :: "'s writer \<Rightarrow> u8 list list \<Rightarrow> int \<Rightarrow> 's \<Rightarrow> 's outcome" where
  "write_all write [] res s = Go res s"
| "write_all write (b # bs) res s = and_then (emit write b res s) (write_all write bs)"

lemma and_then_assoc: "and_then (and_then r f) g = and_then r (\<lambda>a s. and_then (f a s) g)"
  by (cases r) simp_all

lemma and_then_Go [simp]: "and_then r Go = r"
  by (cases r) simp_all

lemma write_all_Nil_fun [simp]: "write_all write [] = Go"
  by (intro ext) simp

lemma write_all_append:
  "write_all write (a @ b) res s = and_then (write_all write a res s) (write_all write b)"
proof (induction a arbitrary: res s)
  case (Cons c a)
  then show ?case by (cases "emit write c res s") simp_all
qed simp

lemma write_all_single: "write_all write [b] res s = emit write b res s"
  by simp

definition hex_chunks :: "u32 \<Rightarrow> nat \<Rightarrow> u8 list list" where
  "hex_chunks v n = map (\<lambda>i. [hex_char (drop_bit (4 * i) v AND 0xf)]) (rev [0..<n])"

definition dec_chunks :: "u32 \<Rightarrow> nat \<Rightarrow> u8 list list" where
  "dec_chunks v n = map (\<lambda>i. [0x30 + ucast (shift_dec i v mod 10)]) (rev [0..<n])"

definition body_chunks :: "(u32 \<Rightarrow> u8) \<Rightarrow> fmt_spec \<Rightarrow> u8 list list" where
  "body_chunks m sp =
     (case mode sp of
        ModeChar \<Rightarrow> [[byte_of (fvalue sp) 0]]
      | ModeStr \<Rightarrow> [map (\<lambda>i. m (fvalue sp + of_nat i)) [0..<unat (fsize sp)]]
      | ModeHex \<Rightarrow> hex_chunks (fvalue sp) (unat (fsize sp))
      | ModeUnsigned \<Rightarrow> dec_chunks (fvalue sp) (unat (fsize sp))
      | ModeSigned \<Rightarrow>
          (if sint (fvalue sp) < 0
           then [0x2d] # dec_chunks (- fvalue sp) (unat (fsize sp) - 1)
           else dec_chunks (fvalue sp) (unat (fsize sp))))"

definition spec_chunks :: "(u32 \<Rightarrow> u8) \<Rightarrow> fmt_spec \<Rightarrow> u8 list list" where
  "spec_chunks m sp =
     (if left_justify sp then body_chunks m sp @ replicate (pad_count sp) [0x20]
      else replicate (pad_count sp) [if zero_justify sp then 0x30 else 0x20] @ body_chunks m sp)"

lemma emit_pad_chunks: "emit_pad write c n = write_all write (replicate n [c])"
  by (induction n) (auto intro!: ext)

lemma emit_hex_chunks: "emit_hex write v n = write_all write (hex_chunks v n)"
  by (induction n) (auto intro!: ext simp: hex_chunks_def Let_def)

lemma emit_dec_chunks: "emit_dec write v n = write_all write (dec_chunks v n)"
  by (induction n) (auto intro!: ext simp: dec_chunks_def Let_def)

lemma emit_body_chunks: "emit_body write m sp res s = write_all write (body_chunks m sp) res s"
  by (simp add: body_chunks_def emit_hex_chunks emit_dec_chunks split: fmt_mode.split)

lemma emit_spec_chunks: "emit_spec write m sp res s = write_all write (spec_chunks m sp) res s"
  by (simp add: emit_spec_def spec_chunks_def write_all_append emit_pad_chunks emit_body_chunks
      del: emit_body.simps cong: if_cong)

text \<open>All chunks up to the end of the string (\<open>True\<close>) or to undefined behaviour (\<open>False\<close>).\<close>

function fmt_chunks :: "(u32 \<Rightarrow> u8) \<Rightarrow> u8 list \<Rightarrow> u32 list \<Rightarrow> u8 list list \<times> bool" where
  "fmt_chunks m p va =
     (let skip = (if takeWhile plain p = [] then [] else [takeWhile plain p])
      in case dropWhile plain p of
           [] \<Rightarrow> (skip, False)
         | c # q \<Rightarrow>
             if c = 0 then (skip, True)
             else (case fmt_parse m q fmt_start va of
                     None \<Rightarrow> (skip, False)
                   | Some (sp, p, va) \<Rightarrow>
                       apfst ((@) (skip @ spec_chunks m sp)) (fmt_chunks m p va)))"
  by auto
termination
  by (relation "measure (\<lambda>(m, p, va). length p)")
    (auto dest!: fmt_parse_length dropWhile_length_less)

declare fmt_chunks.simps [simp del]

definition finish :: "bool \<Rightarrow> 's outcome \<Rightarrow> ('s + int \<times> 's) option" where
  "finish ended r =
     (case r of Stop r \<Rightarrow> Some r | Go res s \<Rightarrow> if ended then Some (Inr (res, s)) else None)"

lemma finish_simps [simp]:
  "finish ended (Stop r) = Some r" "finish True (Go res s) = Some (Inr (res, s))"
  "finish False (Go res s) = None"
  by (simp_all add: finish_def)

lemma finish_and_then:
  "finish ended (and_then r f) =
     (case r of Stop r \<Rightarrow> Some r | Go res s \<Rightarrow> finish ended (f res s))"
  by (cases r) simp_all

lemma box_cbprintf_chunks:
  "box_cbprintf write m p va res s =
     finish (snd (fmt_chunks m p va)) (write_all write (fst (fmt_chunks m p va)) res s)"
proof (induction "length p" arbitrary: p va res s rule: less_induct)
  case less
  show ?case
  proof (cases "dropWhile plain p")
    case Nil
    then show ?thesis
      by (subst box_cbprintf.simps, subst (1 2) fmt_chunks.simps)
        (simp add: Let_def Nil del: dropWhile_eq_Nil_conv split: outcome.split)
  next
    case (Cons c q)
    show ?thesis
    proof (cases "c = 0 \<or> fmt_parse m q fmt_start va = None")
      case True
      then show ?thesis
        by (subst box_cbprintf.simps, subst (1 2) fmt_chunks.simps)
          (elim disjE; simp add: Let_def Cons split: outcome.split)
    next
      case False
      then obtain sp p' va' where c: "c \<noteq> 0" and parse: "fmt_parse m q fmt_start va = Some (sp, p', va')"
        by auto
      have "length p' < length p"
        using dropWhile_length_less [OF Cons] fmt_parse_length [OF parse] by simp
      note IH = less [OF this]
      show ?thesis
        by (subst box_cbprintf.simps, subst (1 2) fmt_chunks.simps)
          (simp add: Let_def Cons c parse IH write_all_append emit_spec_chunks finish_and_then
            split: outcome.split)
    qed
  qed
qed

subsection \<open>Numbers\<close>

fun digits :: "nat \<Rightarrow> nat \<Rightarrow> nat list" where
  "digits b n = (if n < b \<or> b < 2 then [n] else digits b (n div b) @ [n mod b])"

declare digits.simps [simp del]

definition undigits :: "nat \<Rightarrow> nat list \<Rightarrow> nat" where
  "undigits b = foldl (\<lambda>a d. a * b + d) 0"

lemma undigits_digits: "undigits b (digits b n) = n"
proof (induction b n rule: digits.induct)
  case (1 b n)
  then show ?case by (subst digits.simps) (auto simp: undigits_def)
qed

lemma digits_position:
  assumes "2 \<le> b"
  shows "digits b n = map (\<lambda>i. n div b ^ i mod b) (rev [0..<length (digits b n)])"
  using assms
proof (induction b n rule: digits.induct)
  case (1 b n)
  show ?case
  proof (cases "n < b")
    case True
    then show ?thesis by (simp add: digits.simps [of b n])
  next
    case False
    have up: "rev [0..<Suc k] = map Suc (rev [0..<k]) @ [0]" for k
      by (simp only: rev_map [symmetric] map_Suc_upt upt_conv_Cons [OF zero_less_Suc] rev.simps)
    have digs: "digits b n = digits b (n div b) @ [n mod b]"
      using False 1(2) by (subst digits.simps) simp
    have "digits b (n div b) = map (\<lambda>i. n div b ^ Suc i mod b) (rev [0..<length (digits b (n div b))])"
      using 1 False by (simp add: div_mult2_eq)
    then show ?thesis
      by (simp only: digs length_append list.size add_0_right add_Suc_right up map_append map_map comp_def)
        (simp)
  qed
qed

lemma length_digits_le: "2 \<le> b \<Longrightarrow> n < b ^ k \<Longrightarrow> 0 < k \<Longrightarrow> length (digits b n) \<le> k"
proof (induction k arbitrary: n)
  case (Suc k)
  show ?case
  proof (cases "n < b")
    case True
    then show ?thesis by (subst digits.simps) simp
  next
    case False
    then have "n div b < b ^ k" using Suc.prems by (simp add: less_mult_imp_div_less mult.commute)
    moreover have "0 < k" using False Suc.prems by (cases k) auto
    ultimately have "length (digits b (n div b)) \<le> k" using Suc by simp
    then show ?thesis using False Suc.prems by (subst digits.simps) simp
  qed
qed simp

lemma length_digits_pos: "0 < length (digits b n)"
  by (subst digits.simps) simp

lemma unat_shift_dec: "unat (shift_dec i v) = unat v div 10 ^ i"
  by (induction i arbitrary: v) (simp_all add: unat_div div_mult2_eq)

lemma unat_dec_digit: "unat (shift_dec i v mod 10) = unat v div 10 ^ i mod 10"
  by (simp add: unat_mod unat_shift_dec)

lemma unat_hex_digit: "unat (drop_bit (4 * i) v AND 15) = unat v div 16 ^ i mod 16" for v :: u32
  by (simp only: unat_and_15 unat_drop_bit_eq) (simp add: drop_bit_eq_div power_mult)

lemma dec_len_digits: "v \<noteq> 0 \<Longrightarrow> dec_len v = length (digits 10 (unat v))"
proof (induction v rule: dec_len.induct)
  case (1 v)
  have v: "0 < v" using 1(2) by (simp add: word_gt_0)
  show ?case
  proof (cases "v div 10 = 0")
    case True
    then have "unat v < 10" using unat_div [of v 10] by (simp add: div_eq_0_iff)
    with v True show ?thesis
      by (subst dec_len.simps, subst digits.simps) (simp add: dec_len.simps)
  next
    case False
    then have "unat v div 10 \<noteq> 0" by (simp only: word_unat_eq_iff unat_div) simp
    then have "\<not> unat v < 10" by auto
    then show ?thesis using v 1(1) [OF v False]
      by (subst dec_len.simps, subst digits.simps) (simp add: unat_div)
  qed
qed

lemma hex_len_digits: "v \<noteq> 0 \<Longrightarrow> hex_len v = length (digits 16 (unat v))"
proof (induction v rule: hex_len.induct)
  case (1 v)
  have v: "0 < v" using 1(2) by (simp add: word_gt_0)
  show ?case
  proof (cases "v div 16 = 0")
    case True
    then have "unat v < 16" using unat_div [of v 16] by (simp add: div_eq_0_iff)
    with v True show ?thesis
      by (subst hex_len.simps, subst digits.simps) (simp add: hex_len.simps)
  next
    case False
    then have "unat v div 16 \<noteq> 0" by (simp only: word_unat_eq_iff unat_div) simp
    then have "\<not> unat v < 16" by auto
    then show ?thesis using v 1(1) [OF v False]
      by (subst hex_len.simps, subst digits.simps) (simp add: unat_div)
  qed
qed

lemma dec_size:
  "(if dec_len v = 0 then Suc 0 else dec_len v) = length (digits 10 (unat v))"
proof (cases "v = 0")
  case True
  then show ?thesis by (simp add: dec_len.simps digits.simps)
next
  case False
  then show ?thesis using length_digits_pos [of 10 "unat v"] by (simp add: dec_len_digits)
qed

lemma hex_size:
  "(if hex_len v = 0 then Suc 0 else hex_len v) = length (digits 16 (unat v))"
proof (cases "v = 0")
  case True
  then show ?thesis by (simp add: hex_len.simps digits.simps)
next
  case False
  then show ?thesis using length_digits_pos [of 16 "unat v"] by (simp add: hex_len_digits)
qed

lemma dec_size_le: "length (digits 10 (unat v)) \<le> 10" for v :: u32
  using unat_u32_less [of v] by (intro length_digits_le) auto

lemma hex_size_le: "length (digits 16 (unat v)) \<le> 8" for v :: u32
  using unat_u32_less [of v] by (intro length_digits_le) auto

text \<open>The text of a number.\<close>

definition dec_text :: "nat \<Rightarrow> u8 list" where
  "dec_text n = map (\<lambda>d. 0x30 + of_nat d) (digits 10 n)"

definition hex_text :: "nat \<Rightarrow> u8 list" where
  "hex_text n = map (\<lambda>d. if d \<ge> 10 then 0x61 + of_nat (d - 10) else 0x30 + of_nat d) (digits 16 n)"

definition int_text :: "int \<Rightarrow> u8 list" where
  "int_text i = (if i < 0 then 0x2d # dec_text (nat (- i)) else dec_text (nat i))"

lemma concat_map_single: "concat (map (\<lambda>x. [f x]) xs) = map f xs"
  by (induction xs) simp_all

lemma concat_dec_chunks: "concat (dec_chunks v (length (digits 10 (unat v)))) = dec_text (unat v)"
proof -
  have "(ucast (shift_dec i v mod 10) :: u8) = of_nat (unat v div 10 ^ i mod 10)" for i
    unfolding unat_dec_digit [symmetric] by simp
  then show ?thesis
    unfolding dec_text_def dec_chunks_def concat_map_single
    by (subst (2) digits_position) simp_all
qed

lemma hex_char_digit:
  assumes "unat d = n" and "n < 16"
  shows "hex_char d = (if n \<ge> 10 then 0x61 + of_nat (n - 10) else 0x30 + of_nat n)"
proof -
  have "\<forall>n\<in>set [0..<16]. hex_char (of_nat n) =
      (if n \<ge> 10 then 0x61 + of_nat (n - 10) else 0x30 + of_nat n)"
    by code_simp
  moreover have "d = of_nat n" using assms(1) by auto
  ultimately show ?thesis using assms(2) by (metis atLeastLessThan_iff le0 set_upt)
qed

lemma concat_hex_chunks: "concat (hex_chunks v (length (digits 16 (unat v)))) = hex_text (unat v)"
proof -
  have "hex_char (drop_bit (4 * i) v AND 15) =
      (let n = unat v div 16 ^ i mod 16
       in if n \<ge> 10 then 0x61 + of_nat (n - 10) else 0x30 + of_nat n)" for i
    unfolding Let_def by (rule hex_char_digit [OF unat_hex_digit]) simp
  then show ?thesis
    unfolding hex_text_def hex_chunks_def concat_map_single
    by (subst (2) digits_position) (simp_all add: Let_def)
qed

subsection \<open>The text of a field\<close>

definition body_text :: "(u32 \<Rightarrow> u8) \<Rightarrow> fmt_spec \<Rightarrow> u8 list" where
  "body_text m sp =
     (case mode sp of
        ModeChar \<Rightarrow> [byte_of (fvalue sp) 0]
      | ModeStr \<Rightarrow> map (\<lambda>i. m (fvalue sp + of_nat i)) [0..<unat (fsize sp)]
      | ModeHex \<Rightarrow> hex_text (unat (fvalue sp))
      | ModeUnsigned \<Rightarrow> dec_text (unat (fvalue sp))
      | ModeSigned \<Rightarrow> int_text (sint (fvalue sp)))"

text \<open>What the parser promises the printer: the size of a field is the length of its text.\<close>

definition sized :: "(u32 \<Rightarrow> u8) \<Rightarrow> fmt_spec \<Rightarrow> bool" where
  "sized m sp \<longleftrightarrow>
     concat (body_chunks m sp) = body_text m sp \<and> unat (fsize sp) = length (body_text m sp)"

lemma unat_of_nat_small: "n \<le> 11 \<Longrightarrow> unat (of_nat n :: u32) = n"
  by (simp add: unat_of_nat)

lemma nat_sint_neg:
  fixes v :: u32
  assumes "sint v < 0"
  shows "nat (- sint v) = unat (- v)"
proof -
  have "- v = word_of_int (- sint v)" by simp
  then have "uint (- v) = (- sint v) mod 2 ^ 32"
    by (simp only: uint_word_of_int) simp
  moreover have "- sint v \<le> 2 ^ 31" using sint_ge [of v] by simp
  ultimately have "uint (- v) = - sint v" using assms by (simp add: mod_pos_pos_trivial)
  then show ?thesis by (metis unat_eq_nat_uint)
qed

lemma nat_sint_nonneg:
  fixes v :: u32
  assumes "\<not> sint v < 0"
  shows "nat (sint v) = unat v"
proof -
  have "uint v = uint (word_of_int (sint v) :: u32)" by simp
  then have "uint v = sint v mod 2 ^ 32"
    by (simp only: uint_word_of_int) simp
  moreover have "sint v < 2 ^ 31" using sint_lt [of v] by simp
  ultimately have "uint v = sint v" using assms by (simp add: mod_pos_pos_trivial)
  then show ?thesis by (metis unat_eq_nat_uint)
qed

lemma fsize_signed_neg:
  "sint v < 0 \<Longrightarrow> unat (fsize (fmt_signed v sp)) = Suc (length (digits 10 (unat (- v))))"
proof -
  assume v: "sint v < 0"
  then have "dec_len (- v) = length (digits 10 (unat (- v)))"
    by (intro dec_len_digits) auto
  with v have "fsize (fmt_signed v sp) = of_nat (Suc (length (digits 10 (unat (- v)))))"
    by (simp add: fmt_signed_def)
  then show ?thesis using dec_size_le [of "- v"] by (simp only: unat_of_nat_small)
qed

lemma fsize_signed: "\<not> sint v < 0 \<Longrightarrow> unat (fsize (fmt_signed v sp)) = length (digits 10 (unat v))"
proof -
  assume v: "\<not> sint v < 0"
  then have "fsize (fmt_signed v sp) = of_nat (if dec_len v = 0 then Suc 0 else dec_len v)"
    by (simp add: fmt_signed_def)
  also note dec_size
  finally show ?thesis using dec_size_le [of v] by (simp only: unat_of_nat_small)
qed

lemma fsize_unsigned: "unat (fsize (fmt_unsigned v sp)) = length (digits 10 (unat v))"
proof -
  have "fsize (fmt_unsigned v sp) = of_nat (if dec_len v = 0 then Suc 0 else dec_len v)"
    by (simp add: fmt_unsigned_def)
  also note dec_size
  finally show ?thesis using dec_size_le [of v] by (simp only: unat_of_nat_small)
qed

lemma fsize_hex: "unat (fsize (fmt_hex c v sp)) = length (digits 16 (unat v))"
proof -
  have "fsize (fmt_hex c v sp) = of_nat (if hex_len v = 0 then Suc 0 else hex_len v)"
    by (simp add: fmt_hex_def Let_def)
  also note hex_size
  finally show ?thesis using hex_size_le [of v] by (simp only: unat_of_nat_small)
qed

lemma sized_signed: "sized m (fmt_signed v sp)"
proof -
  have sp: "mode (fmt_signed v sp) = ModeSigned" "fvalue (fmt_signed v sp) = v"
    by (simp_all add: fmt_signed_def Let_def split: prod.split)
  show ?thesis
    by (cases "sint v < 0")
      (simp_all add: sized_def body_chunks_def body_text_def sp int_text_def fsize_signed_neg
        fsize_signed nat_sint_neg nat_sint_nonneg concat_dec_chunks, simp_all add: dec_text_def)
qed

lemma sized_unsigned: "sized m (fmt_unsigned v sp)"
proof -
  have sp: "mode (fmt_unsigned v sp) = ModeUnsigned" "fvalue (fmt_unsigned v sp) = v"
    by (simp_all add: fmt_unsigned_def Let_def)
  show ?thesis
    by (simp add: sized_def body_chunks_def body_text_def sp fsize_unsigned concat_dec_chunks)
      (simp add: dec_text_def)
qed

lemma sized_hex: "sized m (fmt_hex c v sp)"
proof -
  have sp: "mode (fmt_hex c v sp) = ModeHex" "fvalue (fmt_hex c v sp) = v"
    by (simp_all add: fmt_hex_def Let_def)
  show ?thesis
    by (simp add: sized_def body_chunks_def body_text_def sp fsize_hex concat_hex_chunks)
      (simp add: hex_text_def)
qed

lemma sized_char: "sized m (fmt_char v sp)"
  by (simp add: sized_def body_chunks_def body_text_def fmt_char_def)

lemma sized_str: "fmt_str m s sp = Some sp' \<Longrightarrow> sized m sp'"
  by (auto simp: sized_def body_chunks_def body_text_def fmt_str_def)

lemma fmt_parse_sized: "fmt_parse m q sp va = Some (sp', q', va') \<Longrightarrow> sized m sp'"
  by (induction m q sp va rule: fmt_parse.induct)
    (auto simp: sized_signed sized_unsigned sized_hex sized_char sized_str
      split: if_splits list.splits)

text \<open>A field: the text, padded to the width on the side the flags choose.\<close>

definition field_text :: "(u32 \<Rightarrow> u8) \<Rightarrow> fmt_spec \<Rightarrow> u8 list" where
  "field_text m sp =
     (let body = body_text m sp;
          pad = replicate (pad_count sp) (if zero_justify sp \<and> \<not> left_justify sp then 0x30 else 0x20)
      in if left_justify sp then body @ pad else pad @ body)"

lemma pad_count_eq:
  assumes "sized m sp" and "length (body_text m sp) < 2 ^ 31" and "unat (width sp) < 2 ^ 31"
  shows "pad_count sp = unat (width sp) - length (body_text m sp)"
  using assms by (simp add: pad_count_def sized_def sint_eq_unat nat_diff_distrib')

lemma concat_replicate_single: "concat (replicate n [c]) = replicate n c"
  by (induction n) simp_all

lemma concat_spec_chunks: "sized m sp \<Longrightarrow> concat (spec_chunks m sp) = field_text m sp"
  by (simp add: spec_chunks_def field_text_def sized_def concat_replicate_single Let_def)

subsection \<open>A callback that accepts everything\<close>

text \<open>The callback returns the length it was given and adds the bytes, encoded by \<open>enc\<close>, to
  what \<open>out\<close> sees of its state.\<close>

locale full_writer =
  fixes wr :: "'s writer"
    and out :: "'s \<Rightarrow> u8 list"
    and enc :: "u8 list \<Rightarrow> u8 list"
    and good :: bool
  assumes accepts: "good \<Longrightarrow> \<exists>s'. wr buf s = Inr (int (length buf), s') \<and> out s' = out s @ enc buf"
    and enc_Nil: "enc [] = []"
    and enc_append: "enc (a @ b) = enc a @ enc b"
begin

lemma write_all_full:
  "good \<Longrightarrow> \<exists>s'. write_all wr bs res s = Go (res + int (length (concat bs))) s' \<and>
     out s' = out s @ enc (concat bs)"
proof (induction bs arbitrary: res s)
  case Nil
  show ?case by (simp add: enc_Nil)
next
  case (Cons b bs)
  obtain s' where s': "wr b s = Inr (int (length b), s')" "out s' = out s @ enc b"
    using accepts [OF Cons.prems] by blast
  from Cons.IH [OF Cons.prems, of "res + int (length b)" s'] s' show ?case
    by (auto simp: emit_def enc_append)
qed

lemma cbprintf_full:
  assumes "good" and "fmt_chunks m p va = (bs, True)"
  shows "\<exists>s'. box_cbprintf wr m p va res s = Some (Inr (res + int (length (concat bs)), s')) \<and>
    out s' = out s @ enc (concat bs)"
  using write_all_full [OF assms(1), of bs res s] assms(2)
  by (auto simp: box_cbprintf_chunks)

end

interpretation uart: full_writer "vprintf_write tx capture at fd" "\<lambda>s. sent (dev s)" crlf
  "uart_sends tx capture sent \<and> (fd = 1 \<or> fd = 2)" for tx capture "at" fd sent
  by unfold_locales (use box_write_sends in \<open>fastforce simp: vprintf_write_def\<close>, simp_all)

text \<open>The text of a format with its arguments: the reference the code is compared with.\<close>

function printf_text :: "(u32 \<Rightarrow> u8) \<Rightarrow> u8 list \<Rightarrow> u32 list \<Rightarrow> u8 list option" where
  "printf_text m p va =
     (case dropWhile plain p of
        [] \<Rightarrow> None
      | c # q \<Rightarrow>
          if c = 0 then Some (takeWhile plain p)
          else (case fmt_parse m q fmt_start va of
                  None \<Rightarrow> None
                | Some (sp, p', va') \<Rightarrow>
                    map_option (\<lambda>t. takeWhile plain p @ field_text m sp @ t) (printf_text m p' va')))"
  by auto
termination
  by (relation "measure (\<lambda>(m, p, va). length p)")
    (auto dest!: fmt_parse_length dropWhile_length_less)

declare printf_text.simps [simp del]

lemma printf_text_chunks:
  "printf_text m p va =
     (if snd (fmt_chunks m p va) then Some (concat (fst (fmt_chunks m p va))) else None)"
proof (induction "length p" arbitrary: p va rule: less_induct)
  case less
  show ?case
  proof (cases "dropWhile plain p")
    case Nil
    then show ?thesis
      by (subst printf_text.simps, subst (1 2) fmt_chunks.simps)
        (simp add: Let_def Nil del: dropWhile_eq_Nil_conv)
  next
    case (Cons c q)
    show ?thesis
    proof (cases "c = 0 \<or> fmt_parse m q fmt_start va = None")
      case True
      then show ?thesis
        by (subst printf_text.simps, subst (1 2) fmt_chunks.simps)
          (elim disjE; simp add: Let_def Cons)
    next
      case False
      then obtain sp p' va' where c: "c \<noteq> 0" and parse: "fmt_parse m q fmt_start va = Some (sp, p', va')"
        by auto
      have "length p' < length p"
        using dropWhile_length_less [OF Cons] fmt_parse_length [OF parse] by simp
      note IH = less [OF this]
      show ?thesis
        by (subst printf_text.simps, subst (1 2) fmt_chunks.simps)
          (simp add: Let_def Cons c parse IH concat_spec_chunks [OF fmt_parse_sized [OF parse]])
    qed
  qed
qed

lemma printf_text_Some:
  "printf_text m p va = Some t \<Longrightarrow> \<exists>bs. fmt_chunks m p va = (bs, True) \<and> concat bs = t"
  by (cases "fmt_chunks m p va") (simp add: printf_text_chunks split: if_splits)

subsection \<open>What printf prints\<close>

lemma plain_takeWhile:
  assumes "\<forall>c\<in>set t. plain c" and "\<not> plain d"
  shows "takeWhile plain (t @ d # q) = t" and "dropWhile plain (t @ d # q) = d # q"
  using assms by (simp_all add: takeWhile_append dropWhile_append)

lemma printf_text_literal:
  assumes "\<forall>c\<in>set t. plain c"
  shows "printf_text m (t @ [0]) va = Some t"
  using assms by (subst printf_text.simps) (simp add: plain_takeWhile plain_def)

lemma printf_text_field:
  assumes "\<forall>c\<in>set t. plain c" and "fmt_parse m q fmt_start va = Some (sp, p', va')"
  shows "printf_text m (t @ 0x25 # q) va =
     map_option (\<lambda>u. t @ field_text m sp @ u) (printf_text m p' va')"
  using assms by (subst printf_text.simps) (simp add: plain_takeWhile plain_def)

lemma field_text_no_width:
  assumes "sized m sp" and "width sp = 0" and "length (body_text m sp) < 2 ^ 31"
  shows "field_text m sp = body_text m sp"
  using pad_count_eq [OF assms(1,3)] assms(2) by (simp add: field_text_def Let_def)

lemma field_signed: "field_text m (fmt_signed v fmt_start) = int_text (sint v)"
proof -
  have "length (body_text m (fmt_signed v fmt_start)) < 2 ^ 31"
    using sized_signed [of m v fmt_start] dec_size_le [of v] dec_size_le [of "- v"]
    by (cases "sint v < 0") (simp_all add: sized_def fsize_signed fsize_signed_neg)
  then show ?thesis
    by (subst field_text_no_width [OF sized_signed])
      (simp_all add: fmt_signed_def fmt_start_def Let_def body_text_def split: prod.split)
qed

lemma field_unsigned: "field_text m (fmt_unsigned v fmt_start) = dec_text (unat v)"
proof -
  have "length (body_text m (fmt_unsigned v fmt_start)) < 2 ^ 31"
    using sized_unsigned [of m v fmt_start] dec_size_le [of v]
    by (simp add: sized_def fsize_unsigned)
  then show ?thesis
    by (subst field_text_no_width [OF sized_unsigned])
      (simp_all add: fmt_unsigned_def fmt_start_def Let_def body_text_def)
qed


text \<open>A decimal text read back.\<close>

definition read_dec :: "u8 list \<Rightarrow> nat" where
  "read_dec = foldl (\<lambda>a c. a * 10 + unat (c - 0x30)) 0"

lemma read_digits:
  "\<forall>d\<in>set ds. d < 10 \<Longrightarrow>
     foldl (\<lambda>a c. a * 10 + unat (c - 0x30 :: u8)) a (map (\<lambda>d. 0x30 + of_nat d) ds) =
     foldl (\<lambda>a d. a * 10 + d) a ds"
  by (induction ds arbitrary: a) (simp_all add: unat_of_nat)

lemma digits_less: "2 \<le> b \<Longrightarrow> \<forall>d\<in>set (digits b n). d < b"
  by (induction b n rule: digits.induct) (subst digits.simps, auto)

lemma read_dec_text: "read_dec (dec_text n) = n"
  using undigits_digits [of 10 n]
  by (simp add: read_dec_def dec_text_def undigits_def read_digits digits_less)

text \<open>C24: the digits that \<^verbatim>\<open>%u\<close> sends between two literal texts, read as a decimal number, are the
  argument.\<close>

theorem printf_unsigned_roundtrip:
  assumes "uart_sends tx capture sent" and "\<forall>c\<in>set t. plain c" and "\<forall>c\<in>set t'. plain c"
  shows "\<exists>ds s'. wrap_printf tx capture at m (t @ [0x25, 0x75] @ t' @ [0]) [v] s =
       Some (Inr (int (length (t @ ds @ t')), s')) \<and>
     sent (dev s') = sent (dev s) @ crlf (t @ ds @ t') \<and> read_dec ds = unat v"
proof -
  have "fmt_parse m (0x75 # t' @ [0]) fmt_start [v] = Some (fmt_unsigned v fmt_start, t' @ [0], [])"
    by simp
  then have "printf_text m (t @ 0x25 # 0x75 # t' @ [0]) [v] = Some (t @ dec_text (unat v) @ t')"
    by (simp only: printf_text_field [OF assms(2)] printf_text_literal [OF assms(3)] field_unsigned) simp
  then have rendered: "printf_text m (t @ [0x25, 0x75] @ t' @ [0]) [v] = Some (t @ dec_text (unat v) @ t')"
    by simp
  obtain bs where bs: "fmt_chunks m (t @ [0x25, 0x75] @ t' @ [0]) [v] = (bs, True)"
      "concat bs = t @ dec_text (unat v) @ t'"
    using printf_text_Some [OF rendered] by blast
  obtain s' where "box_cbprintf (vprintf_write tx capture at 1) m (t @ [0x25, 0x75] @ t' @ [0]) [v] 0 s =
        Some (Inr (0 + int (length (concat bs)), s'))" "sent (dev s') = sent (dev s) @ crlf (concat bs)"
    using uart.cbprintf_full [OF _ bs(1), of tx capture sent 1 "at" 0 s] assms(1) by blast
  then show ?thesis
    by (intro exI [of _ "dec_text (unat v)"] exI [of _ s'])
      (simp add: wrap_printf_def wrap_vprintf_def bs(2) read_dec_text)
qed

text \<open>The first failure of the callback is the result, and the callback is not called again.\<close>

lemma cbprintf_first_error:
  assumes "fmt_chunks m format args = (pre @ b # post, ended)"
    and "write_all wr pre 0 s = Go res s1" and "wr b s1 = Inr (e, s2)" and "e < 0"
  shows "box_cbprintf wr m format args 0 s = Some (Inr (e, s2))"
  using assms by (simp add: box_cbprintf_chunks write_all_append emit_def)

text \<open>A format that ends in a percent sign makes the parser step over the terminating NUL
  and read on behind the string.\<close>

lemma printf_lone_percent:
  assumes "uart_sends tx capture sent" and "\<forall>c\<in>set t. plain c"
  shows "wrap_printf tx capture at m (t @ [0x25, 0]) args s = None"
proof -
  have parse: "fmt_parse m [0] fmt_start args =
      (case args of [] \<Rightarrow> None | a # va \<Rightarrow> Some (fmt_hex 0 a fmt_start, [], va))"
    by (cases args) simp_all
  have empty: "fmt_chunks m [] va = ([], False)" for va
    by (subst fmt_chunks.simps) simp
  have ended: "\<not> snd (fmt_chunks m (t @ [0x25, 0]) args)"
    using assms(2) by (subst fmt_chunks.simps)
      (simp add: plain_takeWhile plain_def parse empty Let_def split: list.split)
  obtain bs where bs: "fmt_chunks m (t @ [0x25, 0]) args = (bs, False)"
    using ended by (cases "fmt_chunks m (t @ [0x25, 0]) args") simp
  obtain s' where "write_all (vprintf_write tx capture at 1) bs 0 s = Go (0 + int (length (concat bs))) s'"
    using uart.write_all_full [of tx capture sent 1 "at" bs 0 s] assms(1) by blast
  then show ?thesis
    by (simp add: wrap_printf_def wrap_vprintf_def box_cbprintf_chunks bs)
qed

text \<open>Zeros go before the sign: \<^verbatim>\<open>%05d\<close> of -42 is \<^verbatim>\<open>00-42\<close>, where C prints \<^verbatim>\<open>-0042\<close>.\<close>

lemma printf_zeros_before_sign:
  "printf_text (\<lambda>_. 0) [0x25, 0x30, 0x35, 0x64, 0] [- 42] = Some [0x30, 0x30, 0x2d, 0x34, 0x32]"
  by code_simp

subsection \<open>At concrete inputs\<close>

text \<open>A device that records what it sends, with a stopped clock.\<close>

definition log_tx :: "u8 list uart_tx" where
  "log_tx cs d = (True, d @ cs)"

definition log_capture :: "u8 list timer_capture" where
  "log_capture d = (0, d)"

definition log_start :: "u8 list hooks" where
  "log_start = \<lparr>dev = [], timer_hi = 0, bench_value = 0, bench_startedyet = 0\<rparr>"

lemma log_sends: "uart_sends log_tx log_capture (\<lambda>d. d)"
  by (simp add: uart_sends_def log_tx_def log_capture_def)


lemma printf_unsigned_roundtrip_witness:
  "\<exists>ds s'. wrap_printf log_tx log_capture (\<lambda>_. 0) (\<lambda>_. 0) [0x3d, 0x25, 0x75, 0x3b, 0] [4000000000] log_start =
       Some (Inr (2 + int (length ds), s')) \<and>
     dev s' = crlf (0x3d # ds @ [0x3b]) \<and> read_dec ds = 4000000000"
  using printf_unsigned_roundtrip [OF log_sends, of "[0x3d]" "[0x3b]" "\<lambda>_. 0" "\<lambda>_. 0" 4000000000 log_start]
  by (simp add: plain_def log_start_def)

lemma cbprintf_first_error_witness:
  "box_cbprintf (\<lambda>b n. Inr (if n = (1 :: nat) then -5 else 1, Suc n)) (\<lambda>_. 0)
     [0x61, 0x25, 0x64, 0] [12] 0 0 = Some (Inr (-5, 2))"
proof -
  have chunks: "fmt_chunks (\<lambda>_. 0) [0x61, 0x25, 0x64, 0] [12] = ([[0x61]] @ [0x31] # [[0x32]], True)"
    by code_simp
  show ?thesis
    by (rule cbprintf_first_error [OF chunks, where res = 1 and ?s1.0 = 1]) (simp_all add: emit_def)
qed

lemma printf_lone_percent_witness:
  "wrap_printf log_tx log_capture (\<lambda>_. 0) (\<lambda>_. 0) [0x61, 0x25, 0] [12] log_start = None"
  using printf_lone_percent [OF log_sends, of "[0x61]"] by (simp add: plain_def)

end
