(* ===== verification/BoxOverlap.thy ===== *)
theory BoxOverlap
  imports BoxCall
begin

text \<open>
  Boxes that share their RAM (examples/bd, bdcompression, fs, fscompression, compression and
  ramsharing): initialising one box brings the two others down, then loads the image of the
  box into the shared RAM. The generated text is the same for every box but for the numbers;
  it is translated once, with the box \<open>i\<close>, the overlapping boxes \<open>j\<close> and \<open>k\<close> and the loader as
  arguments, and each copy is an instance in the theory of its loader.

  \<open>sh_ram\<close> holds the bytes from \<^verbatim>\<open>__box_boxN_ram_start\<close> to \<^verbatim>\<open>__box_boxN_ram_end\<close>, which the
  linker makes the same for the three boxes; \<open>sh_world\<close> is the medium the images are on. A loader
  maps RAM and medium to its result, or to \<open>None\<close> when it leaves the bounds of an array or
  does not return.
\<close>

record 'w shared_sys =
  sh_state :: "nat \<Rightarrow> box_state"
  sh_mmio :: mmio
  sh_ram :: "u8 list"
  sh_world :: 'w

type_synonym 'w shared_res = "((box_stop + int) \<times> 'w shared_sys) option"
type_synonym 'w shared_op = "'w shared_sys \<Rightarrow> 'w shared_res"
type_synonym 'w loader = "u8 list \<Rightarrow> 'w \<Rightarrow> (int \<times> u8 list \<times> 'w) option"

text \<open>\<^verbatim>\<open>if (err) return err;\<close> after a call.\<close>

definition then_ok :: "'w shared_res \<Rightarrow> 'w shared_op \<Rightarrow> 'w shared_res" where
  "then_ok r k =
     (case r of
        Some (Inr err, s) \<Rightarrow> if err \<noteq> 0 then Some (Inr err, s) else k s
      | r \<Rightarrow> r)"

definition upd_state :: "nat \<Rightarrow> (box_state \<Rightarrow> box_state) \<Rightarrow> 'w shared_sys \<Rightarrow> 'w shared_sys" where
  "upd_state i f s = s\<lparr>sh_state := (sh_state s)(i := f (sh_state s i))\<rparr>"

definition shared_clobber :: "nat \<Rightarrow> 'w shared_op" where
  "shared_clobber i s = Some (Inr 0, upd_state i (\<lambda>st. st\<lparr>bs_initialized := False\<rparr>) s)"

definition shared_mpu_init :: "mmio_load \<Rightarrow> u32 \<Rightarrow> 'w shared_op" where
  "shared_mpu_init hw callregion s =
     (case box_mpu_init hw callregion (sh_mmio s) of (r, log) \<Rightarrow> Some (r, s\<lparr>sh_mmio := log\<rparr>))"

definition shared_load :: "'w loader \<Rightarrow> 'w shared_op" where
  "shared_load load s =
     (case load (sh_ram s) (sh_world s) of
        None \<Rightarrow> None
      | Some (err, ram, w) \<Rightarrow> Some (Inr err, s\<lparr>sh_ram := ram, sh_world := w\<rparr>))"

definition shared_init ::
  "mmio_load \<Rightarrow> u32 \<Rightarrow> u32 \<Rightarrow> nat \<Rightarrow> nat \<Rightarrow> nat \<Rightarrow> 'w loader \<Rightarrow> 'w shared_op \<Rightarrow> 'w shared_op" where
  "shared_init hw callregion jt i j k load postinit s =
     (if bs_initialized (sh_state s i) then Some (Inr 0, s)
      else
        then_ok (shared_clobber j s) (\<lambda>s.
        then_ok (shared_clobber k s) (\<lambda>s.
        then_ok (shared_mpu_init hw callregion s) (\<lambda>s.
        let s = upd_state i (\<lambda>st. st\<lparr>bs_lr := 0xfffffffd, bs_sp := jt\<rparr>) s in
        then_ok (shared_load load s) (\<lambda>s.
        then_ok (postinit s) (\<lambda>s.
          Some (Inr 0, upd_state i (\<lambda>st. st\<lparr>bs_initialized := True\<rparr>) s)))))))"

text \<open>An export: \<open>imp\<close> is the call through the import address.\<close>

definition shared_export :: "nat \<Rightarrow> 'w shared_op \<Rightarrow> 'w shared_op \<Rightarrow> 'w shared_op" where
  "shared_export i init imp s =
     (if \<not> bs_initialized (sh_state s i) then then_ok (init s) imp else imp s)"

subsection \<open>At most one box is up\<close>

definition up :: "nat \<Rightarrow> 'w shared_sys \<Rightarrow> bool" where
  "up i s \<longleftrightarrow> bs_initialized (sh_state s i)"

definition exclusive :: "'w shared_sys \<Rightarrow> bool" where
  "exclusive s \<longleftrightarrow> \<not> (up 1 s \<and> up 2 s) \<and> \<not> (up 1 s \<and> up 3 s) \<and> \<not> (up 2 s \<and> up 3 s)"

text \<open>Code that runs in a box may fault, which brings its box down, but no box comes up while
  it runs: the boxes of these examples import \<^verbatim>\<open>write\<close> and \<^verbatim>\<open>flush\<close> only.\<close>

definition brings_none_up :: "'w shared_op \<Rightarrow> bool" where
  "brings_none_up f \<longleftrightarrow> (\<forall>s r s' i. f s = Some (r, s') \<longrightarrow> up i s' \<longrightarrow> up i s)"

lemma up_upd_state [simp]:
  "up j (upd_state i f s) = (if j = i then bs_initialized (f (sh_state s i)) else up j s)"
  by (simp add: up_def upd_state_def)

lemma up_fields [simp]:
  "up i (s\<lparr>sh_mmio := log\<rparr>) = up i s" "up i (s\<lparr>sh_ram := ram, sh_world := w\<rparr>) = up i s"
  by (auto simp: up_def)

lemma then_ok_Some:
  "then_ok r k = Some z \<Longrightarrow> (r = Some z \<and> fst z \<noteq> Inr 0) \<or> (\<exists>s. r = Some (Inr 0, s) \<and> k s = Some z)"
  by (auto simp: then_ok_def split: option.splits sum.splits if_splits)

lemma then_ok_simps [simp]:
  "then_ok (Some (Inr 0, s)) k = k s" "then_ok None k = None"
  "then_ok (Some (Inl e, s)) k = Some (Inl e, s)"
  "err \<noteq> 0 \<Longrightarrow> then_ok (Some (Inr err, s)) k = Some (Inr err, s)"
  by (simp_all add: then_ok_def)

lemma then_ok_keeps:
  assumes "then_ok r0 k = Some (r, s')"
    and "\<And>r s'. r0 = Some (r, s') \<Longrightarrow> P s'"
    and "\<And>s r s'. P s \<Longrightarrow> k s = Some (r, s') \<Longrightarrow> P s'"
  shows "P s'"
  using assms(1) assms(2) assms(3) by (auto dest!: then_ok_Some)

text \<open>What one operation does to the boxes: those in \<open>A\<close> end up down, and none but \<open>i\<close> comes up.\<close>

definition ups_below :: "nat \<Rightarrow> nat set \<Rightarrow> 'w shared_sys \<Rightarrow> 'w shared_sys \<Rightarrow> bool" where
  "ups_below i A s s' \<longleftrightarrow> (\<forall>l. l \<noteq> i \<longrightarrow> up l s' \<longrightarrow> l \<notin> A \<and> up l s)"

lemma mpu_ups: "shared_mpu_init hw callregion s = Some (r, s') \<Longrightarrow> up l s' = up l s"
  by (auto simp: shared_mpu_init_def split: prod.splits)

lemma load_ups: "shared_load load s = Some (r, s') \<Longrightarrow> up l s' = up l s"
  by (auto simp: shared_load_def split: option.splits prod.splits)

lemma shared_init_ups:
  assumes init: "shared_init hw callregion jt i j k load postinit s = Some (r, s')"
    and "\<not> up i s" and none: "brings_none_up postinit"
  shows "ups_below i {j, k} s s'"
proof -
  let ?P = "ups_below i {j, k} s"
  let ?s = "upd_state k (\<lambda>st. st\<lparr>bs_initialized := False\<rparr>)
    (upd_state j (\<lambda>st. st\<lparr>bs_initialized := False\<rparr>) s)"
  let ?sp = "upd_state i (\<lambda>st. st\<lparr>bs_lr := 0xfffffffd, bs_sp := jt\<rparr>)"
  let ?done = "upd_state i (\<lambda>st. st\<lparr>bs_initialized := True\<rparr>)"
  have start: "?P ?s" by (auto simp: ups_below_def)
  have sp: "?P (?sp t)" if "?P t" for t using that by (auto simp: ups_below_def)
  have marked: "?P (?done t)" if "?P t" for t using that by (auto simp: ups_below_def)
  have mpu: "?P t'" if "?P t" "shared_mpu_init hw callregion t = Some (r, t')" for t t' r
    using that by (auto simp: ups_below_def mpu_ups)
  have load: "?P t'" if "?P t" "shared_load load t = Some (r, t')" for t t' r
    using that by (auto simp: ups_below_def load_ups)
  have post: "?P t'" if "?P t" "postinit t = Some (r, t')" for t t' r
    using that none unfolding ups_below_def brings_none_up_def by blast
  have "then_ok (shared_mpu_init hw callregion ?s) (\<lambda>s.
      then_ok (shared_load load (?sp s)) (\<lambda>s. then_ok (postinit s) (\<lambda>s. Some (Inr 0, ?done s)))) =
    Some (r, s')"
    using init \<open>\<not> up i s\<close> by (simp add: shared_init_def up_def shared_clobber_def Let_def)
  then show ?thesis
  proof (rule then_ok_keeps [where P = ?P, OF _ mpu [OF start]])
    fix t r t'
    assume t: "?P t" and loaded: "then_ok (shared_load load (?sp t))
      (\<lambda>s. then_ok (postinit s) (\<lambda>s. Some (Inr 0, ?done s))) = Some (r, t')"
    show "?P t'"
    proof (rule then_ok_keeps [where P = ?P, OF loaded load [OF sp [OF t]]])
      fix t r t'
      assume t: "?P t" and called: "then_ok (postinit t) (\<lambda>s. Some (Inr 0, ?done s)) = Some (r, t')"
      show "?P t'"
        by (rule then_ok_keeps [where P = ?P, OF called post [OF t]]) (auto intro: marked)
    qed
  qed
qed

lemma shared_init_again: "up i s \<Longrightarrow> shared_init hw callregion jt i j k load postinit s = Some (Inr 0, s)"
  by (simp add: shared_init_def up_def)

text \<open>The operations of the three boxes, and their runs from a state with all boxes down.\<close>

inductive shared_run :: "('w shared_sys \<Rightarrow> 'w shared_res) set \<Rightarrow> 'w shared_sys \<Rightarrow> bool" for ops where
  run_start: "(\<And>i. \<not> up i s) \<Longrightarrow> shared_run ops s"
| run_op: "shared_run ops s \<Longrightarrow> f \<in> ops \<Longrightarrow> f s = Some (r, s') \<Longrightarrow> shared_run ops s'"

definition keeps_exclusive :: "'w shared_op \<Rightarrow> bool" where
  "keeps_exclusive f \<longleftrightarrow> (\<forall>s r s'. exclusive s \<longrightarrow> f s = Some (r, s') \<longrightarrow> exclusive s')"

lemma shared_run_exclusive:
  assumes "\<And>f. f \<in> ops \<Longrightarrow> keeps_exclusive f" and "shared_run ops s"
  shows "exclusive s"
  using assms(2)
proof (induction rule: shared_run.induct)
  case (run_start s)
  then show ?case by (simp add: exclusive_def)
next
  case (run_op s f r s')
  then show ?case using assms(1) unfolding keeps_exclusive_def by blast
qed

lemma exclusive_none_up: "brings_none_up f \<Longrightarrow> keeps_exclusive f"
  unfolding keeps_exclusive_def brings_none_up_def exclusive_def by blast

lemma exclusive_clobber: "keeps_exclusive (shared_clobber i)"
  by (auto simp: keeps_exclusive_def shared_clobber_def exclusive_def split: if_splits)

lemma exclusive_init:
  assumes "brings_none_up postinit"
    and "(i, j, k) = (1, 2, 3) \<or> (i, j, k) = (2, 1, 3) \<or> (i, j, k) = (3, 1, 2)"
  shows "keeps_exclusive (shared_init hw callregion jt i j k load postinit)"
  unfolding keeps_exclusive_def
proof (intro allI impI)
  fix s s' :: "'a shared_sys" and r
  assume ex: "exclusive s" and init: "shared_init hw callregion jt i j k load postinit s = Some (r, s')"
  have ij: "j \<noteq> i" "k \<noteq> i" using assms(2) by auto
  show "exclusive s'"
  proof (cases "up i s")
    case True
    then show ?thesis using init ex by (simp add: shared_init_again)
  next
    case False
    have "\<not> up j s'" "\<not> up k s'"
      using shared_init_ups [OF init False assms(1)] ij unfolding ups_below_def by blast+
    then show ?thesis
      using assms(2) by (elim disjE) (auto simp: exclusive_def)
  qed
qed

lemma exclusive_export:
  assumes "keeps_exclusive init" and "brings_none_up imp"
  shows "keeps_exclusive (shared_export i init imp)"
  unfolding keeps_exclusive_def
proof (intro allI impI)
  fix s s' :: "'a shared_sys" and r
  assume ex: "exclusive s" and call: "shared_export i init imp s = Some (r, s')"
  show "exclusive s'"
  proof (cases "bs_initialized (sh_state s i)")
    case True
    then show ?thesis using call ex exclusive_none_up [OF assms(2)]
      by (auto simp: shared_export_def keeps_exclusive_def)
  next
    case False
    then have "then_ok (init s) imp = Some (r, s')" using call by (simp add: shared_export_def)
    from then_ok_Some [OF this] have "init s = Some (r, s') \<or>
        (\<exists>s1. init s = Some (Inr 0, s1) \<and> imp s1 = Some (r, s'))" by blast
    then show ?thesis
      using ex assms(1) exclusive_none_up [OF assms(2)] unfolding keeps_exclusive_def by blast
  qed
qed

subsection \<open>The contract of a loader\<close>

text \<open>\<open>image w bs\<close>: the medium \<open>w\<close> holds a well-formed image with contents \<open>bs\<close>. A loader puts the
  contents at the start of the RAM and leaves the rest alone, or refuses an image that is
  larger than the RAM.\<close>

locale image_loader =
  fixes load :: "'w loader" and image :: "'w \<Rightarrow> u8 list \<Rightarrow> bool"
  assumes load_fits: "image w bs \<Longrightarrow> 4 \<le> length ram \<Longrightarrow> length ram < 2 ^ 31 \<Longrightarrow>
      length bs \<le> length ram \<Longrightarrow> \<exists>w'. load ram w = Some (0, bs @ drop (length bs) ram, w')"
    and load_refuses: "image w bs \<Longrightarrow> 4 \<le> length ram \<Longrightarrow> length ram < 2 ^ 31 \<Longrightarrow>
      length ram < length bs \<Longrightarrow> \<exists>ram' w'. load ram w = Some (fail_with ENOEXEC, ram', w')"
begin

text \<open>A box whose image is on the medium is entered with the image in its RAM, its own stack
  and the overlapping boxes down.\<close>

lemma init_enters_image:
  assumes "\<not> up i s" and "i \<noteq> j" and "i \<noteq> k"
    and "fst (box_mpu_init hw callregion (sh_mmio s)) = Inr 0"
    and "image (sh_world s) bs" and "length bs \<le> length (sh_ram s)"
    and "4 \<le> length (sh_ram s)" and "length (sh_ram s) < 2 ^ 31"
  shows "\<exists>s1. shared_init hw callregion jt i j k load postinit s =
      then_ok (postinit s1) (\<lambda>s. Some (Inr 0, upd_state i (\<lambda>st. st\<lparr>bs_initialized := True\<rparr>) s)) \<and>
    sh_ram s1 = bs @ drop (length bs) (sh_ram s) \<and> bs_sp (sh_state s1 i) = jt \<and>
    \<not> up j s1 \<and> \<not> up k s1"
proof -
  obtain log where mpu: "box_mpu_init hw callregion (sh_mmio s) = (Inr 0, log)"
    using assms(4) by (cases "box_mpu_init hw callregion (sh_mmio s)") simp
  obtain w' where load: "load (sh_ram s) (sh_world s) = Some (0, bs @ drop (length bs) (sh_ram s), w')"
    using load_fits [OF assms(5,7,8,6)] by blast
  show ?thesis
    using assms(1-3)
    by (intro exI [of _ "(upd_state i (\<lambda>st. st\<lparr>bs_lr := 0xfffffffd, bs_sp := jt\<rparr>)
        (upd_state k (\<lambda>st. st\<lparr>bs_initialized := False\<rparr>)
          (upd_state j (\<lambda>st. st\<lparr>bs_initialized := False\<rparr>) s)\<lparr>sh_mmio := log\<rparr>))
        \<lparr>sh_ram := bs @ drop (length bs) (sh_ram s), sh_world := w'\<rparr>"])
      (simp add: shared_init_def shared_clobber_def shared_mpu_init_def shared_load_def
        up_def upd_state_def mpu load Let_def)
qed

lemma init_refuses:
  assumes "\<not> up i s" and "i \<noteq> j" and "i \<noteq> k"
    and "fst (box_mpu_init hw callregion (sh_mmio s)) = Inr 0"
    and "image (sh_world s) bs" and "length (sh_ram s) < length bs"
    and "4 \<le> length (sh_ram s)" and "length (sh_ram s) < 2 ^ 31"
  shows "\<exists>s'. shared_init hw callregion jt i j k load postinit s = Some (Inr (fail_with ENOEXEC), s') \<and>
    \<not> up i s' \<and> \<not> up j s' \<and> \<not> up k s'"
proof -
  obtain log where mpu: "box_mpu_init hw callregion (sh_mmio s) = (Inr 0, log)"
    using assms(4) by (cases "box_mpu_init hw callregion (sh_mmio s)") simp
  obtain ram' w' where load: "load (sh_ram s) (sh_world s) = Some (fail_with ENOEXEC, ram', w')"
    using load_refuses [OF assms(5,7,8,6)] by blast
  show ?thesis
    using assms(1-3)
    by (simp add: shared_init_def shared_clobber_def shared_mpu_init_def shared_load_def
        up_def upd_state_def mpu load Let_def fail_with_def)
qed

end

end
