(* ===== verification/BdLoader.thy ===== *)
theory BdLoader
  imports BoxOverlap
begin

text \<open>
  Boxes loaded from a block device (examples/bd/bb.c): the alignment helpers, the loader of
  each box, and the boxes' initialisation, ends and exports, for three boxes that share their
  RAM. The driver \<^verbatim>\<open>__box_bdread\<close> is the parameter \<open>bdread\<close>: given block, offset and size it
  yields a result, the bytes it put at the start of the buffer, and the new medium.
\<close>

type_synonym 'w bdread = "u32 \<Rightarrow> u32 \<Rightarrow> u32 \<Rightarrow> 'w \<Rightarrow> (int \<times> u8 list) \<times> 'w"

subsection \<open>Alignment\<close>

definition bd_max :: "u32 \<Rightarrow> u32 \<Rightarrow> u32" where
  "bd_max a b = (if a > b then a else b)"

definition bd_min :: "u32 \<Rightarrow> u32 \<Rightarrow> u32" where
  "bd_min a b = (if a < b then a else b)"

definition bd_aligndown :: "u32 \<Rightarrow> u32 \<Rightarrow> u32" where
  "bd_aligndown a alignment = a - a mod alignment"

definition bd_alignup :: "u32 \<Rightarrow> u32 \<Rightarrow> u32" where
  "bd_alignup a alignment = bd_aligndown (a + alignment - 1) alignment"

lemma unat_aligndown: "unat (bd_aligndown a n) = unat a - unat a mod unat n"
  unfolding bd_aligndown_def
  by (subst unat_sub) (simp_all add: word_le_nat_alt unat_mod)

lemma aligndown_dvd: "unat n dvd unat (bd_aligndown a n)"
  by (simp add: unat_aligndown minus_mod_eq_mult_div)


subsection \<open>The loader\<close>

text \<open>A write to the start of the RAM, which must fit.\<close>

definition ram_store :: "u8 list \<Rightarrow> u8 list \<Rightarrow> u8 list option" where
  "ram_store ram bs = (if length bs \<le> length ram then Some (bs @ drop (length bs) ram) else None)"

definition ram_size :: "u8 list \<Rightarrow> u32" where
  "ram_size ram = word_of_nat (length ram)"

definition BD_READ_SIZE :: u32 where
  "BD_READ_SIZE = 1"

definition bd_load :: "'w bdread \<Rightarrow> u32 \<Rightarrow> 'w loader" where
  "bd_load bdread block ram w =
     (let ((err, bs), w) = bdread block 0 (bd_max 4 BD_READ_SIZE) w in
      Option.bind (ram_store ram bs) (\<lambda>ram.
        if err \<noteq> 0 then Some (err, ram, w)
        else if length ram < 4 then None
        else
          let sz = le32 (ram ! 0) (ram ! 1) (ram ! 2) (ram ! 3);
              sz = bd_alignup sz BD_READ_SIZE
          in if sz > ram_size ram then Some (fail_with ENOEXEC, ram, w)
             else
               let ((err, bs), w) = bdread block 0 sz w in
               Option.bind (ram_store ram bs) (\<lambda>ram.
                 if err \<noteq> 0 then Some (err, ram, w) else Some (0, ram, w))))"

definition bd_box1_load :: "'w bdread \<Rightarrow> 'w loader" where
  "bd_box1_load bdread = bd_load bdread 0"

definition bd_box2_load :: "'w bdread \<Rightarrow> 'w loader" where
  "bd_box2_load bdread = bd_load bdread 2"

definition bd_box3_load :: "'w bdread \<Rightarrow> 'w loader" where
  "bd_box3_load bdread = bd_load bdread 4"

subsection \<open>The boxes\<close>

definition bd_box1_init ::
  "mmio_load \<Rightarrow> u32 \<Rightarrow> u32 \<Rightarrow> 'w bdread \<Rightarrow> 'w shared_op \<Rightarrow> 'w shared_op" where
  "bd_box1_init hw callregion jt bdread = shared_init hw callregion jt 1 2 3 (bd_box1_load bdread)"

definition bd_box2_init ::
  "mmio_load \<Rightarrow> u32 \<Rightarrow> u32 \<Rightarrow> 'w bdread \<Rightarrow> 'w shared_op \<Rightarrow> 'w shared_op" where
  "bd_box2_init hw callregion jt bdread = shared_init hw callregion jt 2 1 3 (bd_box2_load bdread)"

definition bd_box3_init ::
  "mmio_load \<Rightarrow> u32 \<Rightarrow> u32 \<Rightarrow> 'w bdread \<Rightarrow> 'w shared_op \<Rightarrow> 'w shared_op" where
  "bd_box3_init hw callregion jt bdread = shared_init hw callregion jt 3 1 2 (bd_box3_load bdread)"

definition bd_box1_clobber :: "'w shared_op" where
  "bd_box1_clobber = shared_clobber 1"

definition bd_box2_clobber :: "'w shared_op" where
  "bd_box2_clobber = shared_clobber 2"

definition bd_box3_clobber :: "'w shared_op" where
  "bd_box3_clobber = shared_clobber 3"

definition bd_box1_add2 :: "'w shared_op \<Rightarrow> (int \<Rightarrow> int \<Rightarrow> 'w shared_op) \<Rightarrow> int \<Rightarrow> int \<Rightarrow> 'w shared_op" where
  "bd_box1_add2 init import_add2 a0 a1 = shared_export 1 init (import_add2 a0 a1)"

definition bd_box2_add2 :: "'w shared_op \<Rightarrow> (int \<Rightarrow> int \<Rightarrow> 'w shared_op) \<Rightarrow> int \<Rightarrow> int \<Rightarrow> 'w shared_op" where
  "bd_box2_add2 init import_add2 a0 a1 = shared_export 2 init (import_add2 a0 a1)"

definition bd_box3_add2 :: "'w shared_op \<Rightarrow> (int \<Rightarrow> int \<Rightarrow> 'w shared_op) \<Rightarrow> int \<Rightarrow> int \<Rightarrow> 'w shared_op" where
  "bd_box3_add2 init import_add2 a0 a1 = shared_export 3 init (import_add2 a0 a1)"

definition bd_box1_hello :: "'w shared_op \<Rightarrow> 'w shared_op \<Rightarrow> 'w shared_op" where
  "bd_box1_hello init import_hello = shared_export 1 init import_hello"

definition bd_box2_hello :: "'w shared_op \<Rightarrow> 'w shared_op \<Rightarrow> 'w shared_op" where
  "bd_box2_hello init import_hello = shared_export 2 init import_hello"

definition bd_box3_hello :: "'w shared_op \<Rightarrow> 'w shared_op \<Rightarrow> 'w shared_op" where
  "bd_box3_hello init import_hello = shared_export 3 init import_hello"

subsection \<open>A device that holds an image\<close>



lemma unat_ram_size: "length ram < 2 ^ 31 \<Longrightarrow> unat (ram_size ram) = length ram"
  unfolding ram_size_def by (simp only: unat_of_nat) simp

lemma ram_store_fits [simp]: "length bs \<le> length ram \<Longrightarrow> ram_store ram bs = Some (bs @ drop (length bs) ram)"
  by (simp add: ram_store_def)


subsection \<open>Properties\<close>

lemma unat_alignup:
  assumes "0 < n" and "unat a + unat n \<le> 2 ^ 32"
  shows "unat (bd_alignup a n) = unat n * ((unat a + unat n - 1) div unat n)"
proof -
  have n: "1 \<le> unat n" using assms(1) by (simp add: word_less_nat_alt)
  have "unat (a + (n - 1)) = unat a + (unat n - 1)"
    using assms n by (subst unat_add_nat) (auto simp: unat_sub word_le_nat_alt)
  then have "unat (a + n - 1) = unat a + unat n - 1" using n by (simp add: algebra_simps)
  then show ?thesis by (simp add: bd_alignup_def unat_aligndown minus_mod_eq_mult_div)
qed

text \<open>C20: a driver that never stores more than it is asked for cannot make the loader write outside
  of the box's RAM, whatever the device holds; the loader always returns, with the RAM at its
  size.\<close>

theorem bd_load_memory_safe:
  assumes "\<And>off n v. length (snd (fst (bdread block off n v))) \<le> unat n"
    and "4 \<le> length ram" and "length ram < 2 ^ 31"
  shows "\<exists>err ram' w'. bd_load bdread block ram w = Some (err, ram', w') \<and> length ram' = length ram"
proof -
  obtain err bs w1 where r1: "bdread block 0 (bd_max 4 BD_READ_SIZE) w = ((err, bs), w1)"
    by (metis surj_pair)
  have "length bs \<le> 4"
    using assms(1) [of 0 "bd_max 4 BD_READ_SIZE" w] r1 by (simp add: bd_max_def BD_READ_SIZE_def)
  then have bs: "length bs \<le> length ram" using assms(2) by simp
  define ram1 where "ram1 = bs @ drop (length bs) ram"
  have len: "length ram1 = length ram" using bs by (simp add: ram1_def)
  define sz where "sz = bd_alignup (le32 (ram1 ! 0) (ram1 ! 1) (ram1 ! 2) (ram1 ! 3)) BD_READ_SIZE"
  obtain err2 bs2 w2 where r2: "bdread block 0 sz w1 = ((err2, bs2), w2)"
    by (metis surj_pair)
  have bs2: "\<not> sz > ram_size ram1 \<Longrightarrow> length bs2 \<le> length ram1"
    using assms(1) [of 0 sz w1] assms(3) r2 len
    by (simp add: word_less_nat_alt unat_ram_size)
  have load: "bd_load bdread block ram w =
      (if err \<noteq> 0 then Some (err, ram1, w1)
       else if sz > ram_size ram1 then Some (fail_with ENOEXEC, ram1, w1)
       else Option.bind (ram_store ram1 bs2) (\<lambda>ram.
         if err2 \<noteq> 0 then Some (err2, ram, w2) else Some (0, ram, w2)))"
    using assms(2) len
    unfolding bd_load_def r1 Let_def case_prod_conv ram_store_fits [OF bs] Option.bind.simps
      ram1_def [symmetric] sz_def [symmetric] r2
    by simp
  show ?thesis
    using bs2 len by (auto simp: load)
qed


text \<open>The operations of the example's three boxes; the arguments are the stack tops, the boxes'
  init routines and the calls through the import addresses.\<close>

definition bd_ops ::
  "mmio_load \<Rightarrow> u32 \<Rightarrow> (nat \<Rightarrow> u32) \<Rightarrow> 'w bdread \<Rightarrow> (nat \<Rightarrow> 'w shared_op) \<Rightarrow>
   (nat \<Rightarrow> int \<Rightarrow> int \<Rightarrow> 'w shared_op) \<Rightarrow> (nat \<Rightarrow> 'w shared_op) \<Rightarrow> 'w shared_op set" where
  "bd_ops hw callregion jt bdread post add2 hello =
     (let init1 = bd_box1_init hw callregion (jt 1) bdread (post 1);
          init2 = bd_box2_init hw callregion (jt 2) bdread (post 2);
          init3 = bd_box3_init hw callregion (jt 3) bdread (post 3)
      in {init1, init2, init3, bd_box1_clobber, bd_box2_clobber, bd_box3_clobber,
          bd_box1_hello init1 (hello 1), bd_box2_hello init2 (hello 2), bd_box3_hello init3 (hello 3)} \<union>
         (\<Union>a b. {bd_box1_add2 init1 (add2 1) a b, bd_box2_add2 init2 (add2 2) a b,
            bd_box3_add2 init3 (add2 3) a b}))"

text \<open>C17: the boxes that share RAM are never up together. Starting with all boxes down, after any
  sequence of initialisations, clobbers and exported calls of the three boxes, failed ones
  included, at most one box is marked initialised.\<close>

theorem bd_one_box_up:
  assumes "\<And>i. brings_none_up (post i)" and "\<And>i a b. brings_none_up (add2 i a b)"
    and "\<And>i. brings_none_up (hello i)"
    and "shared_run (bd_ops hw callregion jt bdread post add2 hello) s"
  shows "exclusive s"
proof -
  have init: "keeps_exclusive (bd_box1_init hw callregion (jt 1) bdread (post 1))"
      "keeps_exclusive (bd_box2_init hw callregion (jt 2) bdread (post 2))"
      "keeps_exclusive (bd_box3_init hw callregion (jt 3) bdread (post 3))"
    unfolding bd_box1_init_def bd_box2_init_def bd_box3_init_def
    by (rule exclusive_init; simp add: assms(1))+
  show ?thesis
    by (rule shared_run_exclusive [OF _ assms(4)])
      (auto simp: bd_ops_def Let_def init bd_box1_clobber_def bd_box2_clobber_def bd_box3_clobber_def
        bd_box1_hello_def bd_box2_hello_def bd_box3_hello_def bd_box1_add2_def bd_box2_add2_def
        bd_box3_add2_def exclusive_clobber intro!: exclusive_export assms simp del: One_nat_def)
qed

subsection \<open>At concrete inputs\<close>

text \<open>A device of equal blocks; reads give what there is.\<close>

definition demo_bdread :: "u8 list bdread" where
  "demo_bdread block off n w = ((0, take (unat n) (drop (unat off) w)), w)"

definition demo_content :: "u8 list" where
  "demo_content = [6, 0, 0, 0, 0xaa, 0xbb, 0xcc, 0xdd]"

definition demo_sys :: "u8 list shared_sys" where
  "demo_sys = \<lparr>sh_state = (\<lambda>_. \<lparr>bs_initialized = False, bs_caller = 0, bs_lr = 0, bs_sp = 0\<rparr>),
     sh_mmio = [], sh_ram = replicate 10 1, sh_world = demo_content\<rparr>"



lemma bd_load_memory_safe_witness:
  "\<exists>err ram' w'. bd_load demo_bdread 2 (replicate 10 1) demo_content = Some (err, ram', w') \<and>
    length ram' = 10"
  using bd_load_memory_safe [of demo_bdread 2 "replicate 10 1" demo_content]
  by (simp add: demo_bdread_def)


lemma run_op_Some: "shared_run ops s \<Longrightarrow> f \<in> ops \<Longrightarrow> f s \<noteq> None \<Longrightarrow> shared_run ops (snd (the (f s)))"
  by (cases "f s") (auto intro: run_op)

definition demo_init1 :: "u8 list shared_op" where
  "demo_init1 = bd_box1_init (\<lambda>_ _. 1) 0 0 demo_bdread (\<lambda>s. Some (Inr 0, s))"

definition demo_init2 :: "u8 list shared_op" where
  "demo_init2 = bd_box2_init (\<lambda>_ _. 1) 0 0 demo_bdread (\<lambda>s. Some (Inr 0, s))"

lemma bd_one_box_up_witness:
  "exclusive (snd (the (demo_init2 (snd (the (demo_init1 demo_sys))))))"
proof -
  let ?ops = "bd_ops (\<lambda>_ _. 1) 0 (\<lambda>_. 0) demo_bdread (\<lambda>_ s. Some (Inr 0, s)) (\<lambda>_ _ _ s. Some (Inr 0, s))
    (\<lambda>_ s. Some (Inr 0, s))"
  have load: "\<exists>err ram' w'. bd_load demo_bdread b ram w = Some (err, ram', w') \<and> length ram' = 10"
    if "length ram = 10" for b ram w
    using bd_load_memory_safe [of demo_bdread b ram w] that by (simp add: demo_bdread_def)
  have total: "\<exists>r s'. shared_init (\<lambda>_ _. 1) 0 0 i j k (bd_load demo_bdread b)
      (\<lambda>s. Some (Inr 0, s)) s = Some (r, s') \<and> length (sh_ram s') = 10"
    if "length (sh_ram s) = 10" for i j k b and s :: "u8 list shared_sys"
    using load [of "sh_ram s" b "sh_world s"] that
    by (auto simp: shared_init_def shared_clobber_def shared_mpu_init_def box_mpu_init_def
        shared_load_def upd_state_def then_ok_def Let_def)
  have "length (sh_ram demo_sys) = 10" by (simp add: demo_sys_def)
  then obtain r1 s1 where s1: "demo_init1 demo_sys = Some (r1, s1)" "length (sh_ram s1) = 10"
    using total unfolding demo_init1_def bd_box1_init_def bd_box1_load_def by blast
  then obtain r2 s2 where s2: "demo_init2 s1 = Some (r2, s2)"
    using total unfolding demo_init2_def bd_box2_init_def bd_box2_load_def by blast
  have "demo_init1 demo_sys \<noteq> None" using s1 by simp
  moreover have "demo_init2 (snd (the (demo_init1 demo_sys))) \<noteq> None" using s1 s2 by simp
  moreover have "demo_init1 \<in> ?ops" "demo_init2 \<in> ?ops"
    by (simp_all add: bd_ops_def demo_init1_def demo_init2_def Let_def)
  moreover have "shared_run ?ops demo_sys" by (rule run_start) (simp add: up_def demo_sys_def)
  ultimately have "shared_run ?ops (snd (the (demo_init2 (snd (the (demo_init1 demo_sys))))))"
    by (intro run_op_Some)
  then show ?thesis
    by (rule bd_one_box_up [rotated 3]) (simp_all add: brings_none_up_def)
qed

end
