(* ===== verification/GlzLoader.thy ===== *)
theory GlzLoader
  imports BdLoader GlzDecoder
begin

text \<open>
  Boxes stored as GLZ blobs in flash (examples/compression/bb.c): the generated decoder, the
  loader that decompresses a box into the shared RAM, and the boxes' initialisation. The blob
  (from \<^verbatim>\<open>__box_boxN_blob_start\<close> to \<^verbatim>\<open>__box_boxN_blob_end\<close>, linked into the host) is a list of bytes.
\<close>

subsection \<open>Metadata words\<close>

text \<open>The first word of a blob is the bit offset of the stream and, in its top byte, \<open>k\<close>.\<close>

definition meta_k :: "u32 \<Rightarrow> u8" where
  "meta_k x = ucast (0xf AND drop_bit 24 x)"

definition meta_off :: "u32 \<Rightarrow> u32" where
  "meta_off x = 0x00ffffff AND x"

definition header_word :: "u32 \<Rightarrow> u8 \<Rightarrow> u32" where
  "header_word off k = le32 (byte_of off 0) (byte_of off 1) (byte_of off 2) (0x10 OR k)"

lemma bit_small: "w < 2 ^ n \<Longrightarrow> n \<le> i \<Longrightarrow> \<not> bit w i" for w :: "'a::len word"
proof
  assume w: "w < 2 ^ n" and i: "n \<le> i" "bit w i"
  have "take_bit n w = w"
    using w by (cases "n < LENGTH('a)")
      (auto simp: take_bit_word_eq_self take_bit_eq_mod mod_word_less not_less)
  then show False using i by (metis bit_take_bit_iff not_le)
qed

lemma meta_masks: "(0x00ffffff :: u32) = mask 24" "(0xf :: u32) = mask 4"
  by (simp_all add: mask_eq_exp_minus_1)

lemma bit_format: "bit (0x10 :: u8) i \<longleftrightarrow> i = 4"
proof -
  have "\<forall>i\<in>set [0..<8]. bit (0x10 :: u8) i = (i = 4)" by code_simp
  then show ?thesis
    using bit_u8_ge [of i "0x10"] by (cases "i < 8") auto
qed

lemma meta_off_header: "off < 2 ^ 24 \<Longrightarrow> meta_off (header_word off k) = off"
proof -
  assume off: "off < 2 ^ 24"
  have noff: "24 \<le> i \<Longrightarrow> \<not> bit off i" for i using off bit_small [of off 24 i] by simp
  show ?thesis
    unfolding meta_off_def header_word_def meta_masks
    by (rule bit_word_eqI)
      (auto simp: bit_and_iff bit_mask_iff bit_le32 bit_byte_of noff not_less)
qed

lemma meta_k_header: "k < 16 \<Longrightarrow> meta_k (header_word off k) = k"
proof -
  assume k: "k < 16"
  have nk: "4 \<le> i \<Longrightarrow> \<not> bit k i" for i using k bit_small [of k 4 i] by simp
  have format: "bit (0x10 OR k) i \<longleftrightarrow> i = 4 \<or> bit k i" for i
    by (simp only: bit_or_iff bit_format)
  show ?thesis
    unfolding meta_k_def header_word_def meta_masks
    by (rule bit_word_eqI)
      (auto simp: bit_and_iff bit_mask_iff bit_le32 bit_byte_of bit_ucast_iff bit_drop_bit_eq
        format nk not_less intro: ccontr)
qed

subsection \<open>The loader\<close>

definition box_glz_decode ::
  "u8 \<Rightarrow> u8 list \<Rightarrow> u32 \<Rightarrow> u32 \<Rightarrow> nat \<Rightarrow> u32 \<Rightarrow> (glz_stop \<times> u8 list) option" where
  "box_glz_decode k blob blob_size off cap sz =
     glz_core (blob_rd1 blob blob_size) (blob_rd2 blob blob_size) (buf_emit cap) k off sz []"

definition blob_load :: "u8 list \<Rightarrow> 'w loader" where
  "blob_load blob ram w =
     (if length blob < 8 then None
      else
        let x = le32 (blob ! 0) (blob ! 1) (blob ! 2) (blob ! 3);
            k = meta_k x;
            off = meta_off x;
            sz = le32 (blob ! 4) (blob ! 5) (blob ! 6) (blob ! 7)
        in if sz > ram_size ram then Some (fail_with ENOEXEC, ram, w)
           else (case box_glz_decode k (drop 8 blob) (word_of_nat (length blob - 8)) off (length ram) sz of
                   Some (GlzRet err, out) \<Rightarrow> Some (err, out @ drop (length out) ram, w)
                 | _ \<Rightarrow> None))"

definition blob_box1_load :: "u8 list \<Rightarrow> 'w loader" where
  "blob_box1_load blob1 = blob_load blob1"

definition blob_box2_load :: "u8 list \<Rightarrow> 'w loader" where
  "blob_box2_load blob2 = blob_load blob2"

definition blob_box3_load :: "u8 list \<Rightarrow> 'w loader" where
  "blob_box3_load blob3 = blob_load blob3"

definition blob_box1_init ::
  "mmio_load \<Rightarrow> u32 \<Rightarrow> u32 \<Rightarrow> u8 list \<Rightarrow> 'w shared_op \<Rightarrow> 'w shared_op" where
  "blob_box1_init hw callregion jt blob1 = shared_init hw callregion jt 1 2 3 (blob_box1_load blob1)"

definition blob_box2_init ::
  "mmio_load \<Rightarrow> u32 \<Rightarrow> u32 \<Rightarrow> u8 list \<Rightarrow> 'w shared_op \<Rightarrow> 'w shared_op" where
  "blob_box2_init hw callregion jt blob2 = shared_init hw callregion jt 2 1 3 (blob_box2_load blob2)"

definition blob_box3_init ::
  "mmio_load \<Rightarrow> u32 \<Rightarrow> u32 \<Rightarrow> u8 list \<Rightarrow> 'w shared_op \<Rightarrow> 'w shared_op" where
  "blob_box3_init hw callregion jt blob3 = shared_init hw callregion jt 3 1 2 (blob_box3_load blob3)"

subsection \<open>A well-formed blob\<close>

text \<open>Metadata and a body whose meaning is \<open>bs\<close>, below 512 MiB, with references nested at most
  once.\<close>

definition glz_image :: "u8 list \<Rightarrow> u8 list \<Rightarrow> bool" where
  "glz_image blob bs \<longleftrightarrow>
     (\<exists>off k body d. blob = glz_header off k (word_of_nat (length bs)) @ body \<and>
        off < 2 ^ 24 \<and> k < 16 \<and> 8 * (8 + length body) < 2 ^ 32 \<and> length bs < 2 ^ 32 \<and> d \<le> 1 \<and>
        glz_sem body (unat k) d (unat off) (length bs) bs)"

lemma header_words:
  assumes "blob = glz_header off k n @ body"
  shows "le32 (blob ! 0) (blob ! 1) (blob ! 2) (blob ! 3) = header_word off k"
    and "le32 (blob ! 4) (blob ! 5) (blob ! 6) (blob ! 7) = n"
  using le32_bytes [of n] by (simp_all add: assms glz_header_def header_word_def)

interpretation blobs: image_loader "blob_load blob :: 'w loader" "\<lambda>w. glz_image blob" for blob
proof
  fix w :: 'w and bs and ram :: "u8 list"
  assume img: "glz_image blob bs" and ram: "4 \<le> length ram" "length ram < 2 ^ 31"
  then obtain off k body d where blob: "blob = glz_header off k (word_of_nat (length bs)) @ body"
    and fields: "off < 2 ^ 24" "k < 16" "8 * (8 + length body) < 2 ^ 32" "length bs < 2 ^ 32" "d \<le> 1"
    and sem: "glz_sem body (unat k) d (unat off) (length bs) bs"
    unfolding glz_image_def by blast
  have n: "unat (word_of_nat (length bs) :: u32) = length bs"
    using fields(4) by (simp add: unat_of_nat)
  have m: "unat (word_of_nat (length body) :: u32) = length body"
    using fields(3) by (simp only: unat_of_nat) simp
  have len: "\<not> length blob < 8" "length blob - 8 = length body" "drop 8 blob = body"
    by (simp_all add: blob)
  have big: "(word_of_nat (length bs) > ram_size ram) = (length ram < length bs)"
    by (simp only: word_less_nat_alt n unat_ram_size [OF ram(2)])
  have load: "blob_load blob ram w =
      (if length ram < length bs then Some (fail_with ENOEXEC, ram, w)
       else (case box_glz_decode k body (word_of_nat (length body)) off (length ram)
               (word_of_nat (length bs)) of
               Some (GlzRet err, out) \<Rightarrow> Some (err, out @ drop (length out) ram, w)
             | _ \<Rightarrow> None))"
    unfolding blob_load_def header_words [OF blob] Let_def meta_k_header [OF fields(2)]
      meta_off_header [OF fields(1)] big len
    using len by simp
  show "\<exists>ram' w'. blob_load blob ram w = Some (fail_with ENOEXEC, ram', w')" if "length ram < length bs"
    using that by (simp add: load)
  show "\<exists>w'. blob_load blob ram w = Some (0, bs @ drop (length bs) ram, w')" if "length bs \<le> length ram"
  proof -
    have "glz_decode k body (word_of_nat (length body)) off (length ram) (word_of_nat (length bs)) =
        Some (GlzRet 0, bs)"
      using decode_refines [OF m, of k d off "word_of_nat (length bs)" bs "length ram"] fields sem that
      by (simp add: n glz_small_def)
    then show ?thesis using that by (simp add: load box_glz_decode_def glz_decode_def)
  qed
qed

subsection \<open>Properties\<close>

text \<open>Initialising a box stored as a GLZ blob that fits enters the box with the meaning of the
  blob in the shared RAM, the box's stack set up and the two other boxes down.\<close>

theorem blob_init_enters_image:
  assumes "\<not> up 1 s" and "fst (box_mpu_init hw callregion (sh_mmio s)) = Inr 0"
    and "glz_image blob bs" and "length bs \<le> length (sh_ram s)"
    and "4 \<le> length (sh_ram s)" and "length (sh_ram s) < 2 ^ 31"
  shows "\<exists>s1. blob_box1_init hw callregion jt blob postinit s =
      then_ok (postinit s1) (\<lambda>s. Some (Inr 0, upd_state 1 (\<lambda>st. st\<lparr>bs_initialized := True\<rparr>) s)) \<and>
    sh_ram s1 = bs @ drop (length bs) (sh_ram s) \<and> bs_sp (sh_state s1 1) = jt \<and>
    \<not> up 2 s1 \<and> \<not> up 3 s1"
  unfolding blob_box1_init_def blob_box1_load_def
  by (intro blobs.init_enters_image) (use assms in auto)

lemma demo_glz_image: "glz_image (glz_header 18 0 4 @ demo_body) [65, 65, 65, 65]"
proof -
  have four: "length [65, 65, 65, 65 :: u8] = 4" by simp
  show ?thesis
    unfolding glz_image_def four
    by (rule exI [of _ 18], rule exI [of _ 0], rule exI [of _ demo_body], rule exI [of _ 1])
      (use demo_meaning in \<open>simp add: demo_body_def\<close>)
qed

lemma blob_init_enters_image_witness:
  "\<exists>s1. blob_box1_init (\<lambda>_ _. 1) 0 0x20001000 (glz_header 18 0 4 @ demo_body)
      (\<lambda>s. Some (Inr 0, s)) demo_sys =
      Some (Inr 0, upd_state 1 (\<lambda>st. st\<lparr>bs_initialized := True\<rparr>) s1) \<and>
    sh_ram s1 = [65, 65, 65, 65] @ replicate 6 1 \<and> bs_sp (sh_state s1 1) = 0x20001000 \<and>
    \<not> up 2 s1 \<and> \<not> up 3 s1"
proof -
  have "glz_image (glz_header 18 0 4 @ demo_body) [65, 65, 65, 65]" by (rule demo_glz_image)
  moreover have "\<not> up 1 demo_sys" "fst (box_mpu_init (\<lambda>_ _. 1) 0 (sh_mmio demo_sys)) = Inr 0"
    by (simp_all add: up_def demo_sys_def box_mpu_init_def)
  ultimately show ?thesis
    using blob_init_enters_image [of demo_sys "\<lambda>_ _. 1" 0 "glz_header 18 0 4 @ demo_body"
        "[65, 65, 65, 65]" "0x20001000" "\<lambda>s. Some (Inr 0, s)"]
    by (simp add: demo_sys_def)
qed

end
