(* ===== verification/FsLoader.thy ===== *)
theory FsLoader
  imports BdLoader
begin

text \<open>
  Boxes loaded from a file (examples/fs/bb.c). The file system calls \<^verbatim>\<open>__box_open\<close>,
  \<^verbatim>\<open>__box_read\<close> and \<^verbatim>\<open>__box_close\<close> are the fields of a record over the state of the medium: opening
  gives a result and a descriptor; reading gives a result and the bytes stored at the start of
  the buffer. Path names are strings. The local \<^verbatim>\<open>size\<close> starts with the arbitrary contents
  \<open>junk\<close>.

  \<^verbatim>\<open>res < sizeof(size)\<close> compares an \<^verbatim>\<open>ssize_t\<close> with a \<^verbatim>\<open>size_t\<close>: on the 32-bit targets both
  become unsigned, so a negative \<^verbatim>\<open>res\<close> is not smaller.
\<close>

record 'w fs_ops =
  fs_open :: "string \<Rightarrow> u32 \<Rightarrow> 'w \<Rightarrow> (int \<times> int) \<times> 'w"
  fs_close :: "int \<Rightarrow> 'w \<Rightarrow> int \<times> 'w"
  fs_read :: "int \<Rightarrow> u32 \<Rightarrow> 'w \<Rightarrow> (int \<times> u8 list) \<times> 'w"
  fs_seek :: "int \<Rightarrow> u32 \<Rightarrow> u32 \<Rightarrow> 'w \<Rightarrow> int \<times> 'w"

definition short :: "int \<Rightarrow> u32 \<Rightarrow> bool" where
  "short res n \<longleftrightarrow> (word_of_int res :: u32) < n"

definition fs_load :: "u8 list \<Rightarrow> 'w fs_ops \<Rightarrow> string \<Rightarrow> 'w loader" where
  "fs_load junk fs path ram w =
     (let ((err, fd), w) = fs_open fs path 0 w in
      if err \<noteq> 0 then Some (err, ram, w)
      else
        let ((res, bs), w) = fs_read fs fd 4 w in
        Option.bind (ram_store junk bs) (\<lambda>buf.
          if short res 4 then
            (if res < 0 then Some (res, ram, w) else Some (fail_with ENOEXEC, ram, w))
          else
            let sz = le32 (buf ! 0) (buf ! 1) (buf ! 2) (buf ! 3)
            in if sz > ram_size ram then Some (fail_with ENOEXEC, ram, w)
               else
                 let ((res, bs), w) = fs_read fs fd sz w in
                 Option.bind (ram_store ram bs) (\<lambda>ram.
                   if short res sz then
                     (if res < 0 then Some (res, ram, w) else Some (fail_with ENOEXEC, ram, w))
                   else
                     let (err, w) = fs_close fs fd w
                     in if err \<noteq> 0 then Some (err, ram, w) else Some (0, ram, w))))"

definition fs_box1_load :: "u8 list \<Rightarrow> 'w fs_ops \<Rightarrow> 'w loader" where
  "fs_box1_load junk fs = fs_load junk fs ''box1.bin''"

definition fs_box2_load :: "u8 list \<Rightarrow> 'w fs_ops \<Rightarrow> 'w loader" where
  "fs_box2_load junk fs = fs_load junk fs ''box2.bin''"

definition fs_box3_load :: "u8 list \<Rightarrow> 'w fs_ops \<Rightarrow> 'w loader" where
  "fs_box3_load junk fs = fs_load junk fs ''box3.bin''"

definition fs_box1_init ::
  "mmio_load \<Rightarrow> u32 \<Rightarrow> u32 \<Rightarrow> u8 list \<Rightarrow> 'w fs_ops \<Rightarrow> 'w shared_op \<Rightarrow> 'w shared_op" where
  "fs_box1_init hw callregion jt junk fs = shared_init hw callregion jt 1 2 3 (fs_box1_load junk fs)"

definition fs_box2_init ::
  "mmio_load \<Rightarrow> u32 \<Rightarrow> u32 \<Rightarrow> u8 list \<Rightarrow> 'w fs_ops \<Rightarrow> 'w shared_op \<Rightarrow> 'w shared_op" where
  "fs_box2_init hw callregion jt junk fs = shared_init hw callregion jt 2 1 3 (fs_box2_load junk fs)"

definition fs_box3_init ::
  "mmio_load \<Rightarrow> u32 \<Rightarrow> u32 \<Rightarrow> u8 list \<Rightarrow> 'w fs_ops \<Rightarrow> 'w shared_op \<Rightarrow> 'w shared_op" where
  "fs_box3_init hw callregion jt junk fs = shared_init hw callregion jt 3 1 2 (fs_box3_load junk fs)"

subsection \<open>A file system that serves a file\<close>

text \<open>\<open>pos w fd\<close> is the position of an open descriptor on a file with contents \<open>bytes\<close>. Opening starts at 0, a read gives
  what is left up to the size asked for, seeking from the start sets the position.\<close>

definition fs_serves :: "'w fs_ops \<Rightarrow> string \<Rightarrow> u8 list \<Rightarrow> ('w \<Rightarrow> int \<Rightarrow> nat option) \<Rightarrow> bool" where
  "fs_serves fs path bytes pos \<longleftrightarrow>
     (\<forall>w. \<exists>fd w'. fs_open fs path 0 w = ((0, fd), w') \<and> pos w' fd = Some 0) \<and>
     (\<forall>w fd p n. pos w fd = Some p \<longrightarrow>
        (\<exists>w'. let bs = take (unat n) (drop p bytes) in
           fs_read fs fd n w = ((int (length bs), bs), w') \<and> pos w' fd = Some (p + length bs))) \<and>
     (\<forall>w fd p off. pos w fd = Some p \<longrightarrow>
        (\<exists>w'. fs_seek fs fd off 0 w = (int (unat off), w') \<and> pos w' fd = Some (unat off))) \<and>
     (\<forall>w fd p. pos w fd = Some p \<longrightarrow> fst (fs_close fs fd w) = 0)"

text \<open>The file is the size of the image in four bytes and the image.\<close>

definition fs_image :: "u8 list \<Rightarrow> u8 list \<Rightarrow> bool" where
  "fs_image bytes bs \<longleftrightarrow>
     (let n = word_of_nat (length bs)
      in take (4 + length bs) bytes = [byte_of n 0, byte_of n 1, byte_of n 2, byte_of n 3] @ bs \<and>
         length bs < 2 ^ 31)"

lemma short_length: "n < 2 ^ 32 \<Longrightarrow> short (int n) m \<longleftrightarrow> n < unat m"
  by (simp add: short_def word_less_nat_alt unat_of_nat)

lemma fs_readD:
  assumes "fs_serves fs path bytes pos" and "pos w fd = Some p" and "unat n + p \<le> length bytes"
  shows "\<exists>w'. fs_read fs fd n w = ((int (unat n), take (unat n) (drop p bytes)), w') \<and>
    pos w' fd = Some (p + unat n)"
proof -
  have "length (take (unat n) (drop p bytes)) = unat n" using assms(3) by simp
  moreover have "\<exists>w'. fs_read fs fd n w =
      ((int (length (take (unat n) (drop p bytes))), take (unat n) (drop p bytes)), w') \<and>
    pos w' fd = Some (p + length (take (unat n) (drop p bytes)))"
    using assms(1,2) unfolding fs_serves_def Let_def by blast
  ultimately show ?thesis by (simp only:)
qed

interpretation fsimg: image_loader "fs_load junk fs path"
    "\<lambda>w bs. fs_serves fs path bytes pos \<and> fs_image bytes bs \<and> length junk = 4" for junk fs path bytes pos
proof
  fix w bs and ram :: "u8 list"
  assume img: "fs_serves fs path bytes pos \<and> fs_image bytes bs \<and> length junk = 4"
    and ram: "4 \<le> length ram" "length ram < 2 ^ 31"
  let ?n = "word_of_nat (length bs) :: u32"
  let ?hd = "[byte_of ?n 0, byte_of ?n 1, byte_of ?n 2, byte_of ?n 3]"
  have bytes: "take (4 + length bs) bytes = ?hd @ bs" and small: "length bs < 2 ^ 31"
    using img by (simp_all add: fs_image_def Let_def)
  have n: "unat ?n = length bs" using small by (simp add: unat_of_nat)
  have "length (take (4 + length bs) bytes) = 4 + length bs" unfolding bytes by simp
  then have len: "4 + length bs \<le> length bytes" by simp
  have hd4: "take 4 bytes = ?hd"
  proof -
    have "take 4 (take (4 + length bs) bytes) = take 4 (?hd @ bs)" unfolding bytes ..
    then show ?thesis by simp
  qed
  have body: "take (length bs) (drop 4 bytes) = bs"
  proof -
    have "drop 4 (take (4 + length bs) bytes) = drop 4 (?hd @ bs)" unfolding bytes ..
    then show ?thesis by (simp add: drop_take)
  qed
  obtain fd w1 where op: "fs_open fs path 0 w = ((0, fd), w1)" "pos w1 fd = Some 0"
    using img unfolding fs_serves_def by blast
  have rdok: "\<exists>w'. fs_read fs fd n v = ((int (unat n), take (unat n) (drop p bytes)), w') \<and>
      pos w' fd = Some (p + unat n)"
    if "pos v fd = Some p" "unat n + p \<le> length bytes" for v p n
    using img by (intro fs_readD [of fs path bytes pos, OF _ that]) simp
  have "unat (4 :: u32) + 0 \<le> length bytes" using len by simp
  from rdok [OF op(2) this]
  obtain w2 where rd: "fs_read fs fd 4 w1 = ((4, ?hd), w2)" "pos w2 fd = Some 4"
    by (auto simp: hd4)
  have "unat ?n + 4 \<le> length bytes" unfolding n using len by simp
  from rdok [OF rd(2) this]
  obtain w3 where rd2: "fs_read fs fd ?n w2 = ((int (length bs), bs), w3)" "pos w3 fd = Some (4 + length bs)"
    unfolding n body by blast
  obtain w4 where cl: "fs_close fs fd w3 = (0, w4)"
    using img rd2(2) unfolding fs_serves_def by (metis prod.collapse)
  have "ram_store junk ?hd = Some ?hd" using img by simp
  moreover have "\<not> short 4 4" "\<not> short (int (length bs)) ?n"
    using short_length [of 4 4] short_length [of "length bs" ?n] small n by simp_all
  moreover have "(?n > ram_size ram) = (length ram < length bs)"
    by (simp only: word_less_nat_alt n unat_ram_size [OF ram(2)])
  moreover have "le32 (?hd ! 0) (?hd ! 1) (?hd ! 2) (?hd ! 3) = ?n"
    using le32_bytes [of ?n] by simp
  ultimately have load: "fs_load junk fs path ram w =
      (if length ram < length bs then Some (fail_with ENOEXEC, ram, w2)
       else Option.bind (ram_store ram bs) (\<lambda>ram. Some (0, ram, w4)))"
    unfolding fs_load_def Let_def op(1) rd(1) case_prod_conv Option.bind.simps
    by (simp only: rd2(1) cl case_prod_conv Option.bind.simps if_False simp_thms not_True_eq_False)
  show "\<exists>ram' w'. fs_load junk fs path ram w = Some (fail_with ENOEXEC, ram', w')" if "length ram < length bs"
    using that by (simp add: load)
  show "\<exists>w'. fs_load junk fs path ram w = Some (0, bs @ drop (length bs) ram, w')" if "length bs \<le> length ram"
    using that by (simp add: load)
qed

subsection \<open>Properties\<close>

text \<open>Initialising a box stored in a file that fits enters the box with the image in the shared
  RAM, the box's stack set up and the two other boxes down.\<close>

lemma fs_init_enters_image:
  assumes "\<not> up 3 s" and "fst (box_mpu_init hw callregion (sh_mmio s)) = Inr 0"
    and "fs_serves fs ''box3.bin'' bytes pos" and "fs_image bytes bs" and "length junk = 4"
    and "length bs \<le> length (sh_ram s)"
    and "4 \<le> length (sh_ram s)" and "length (sh_ram s) < 2 ^ 31"
  shows "\<exists>s1. fs_box3_init hw callregion jt junk fs postinit s =
      then_ok (postinit s1) (\<lambda>s. Some (Inr 0, upd_state 3 (\<lambda>st. st\<lparr>bs_initialized := True\<rparr>) s)) \<and>
    sh_ram s1 = bs @ drop (length bs) (sh_ram s) \<and> bs_sp (sh_state s1 3) = jt \<and>
    \<not> up 1 s1 \<and> \<not> up 2 s1"
  unfolding fs_box3_init_def fs_box3_load_def
  by (intro fsimg.init_enters_image [where bytes = bytes and pos = pos]) (use assms in auto)

lemma short_negative:
  assumes "- (2 ^ 31) \<le> e" and "e < 0" and "unat n \<le> 2 ^ 31"
  shows "\<not> short e n"
proof -
  have "uint (word_of_int e :: u32) = e mod 2 ^ 32" by (simp only: uint_word_of_int) simp
  also have "\<dots> = (e + 2 ^ 32) mod 2 ^ 32" by simp
  also have "\<dots> = e + 2 ^ 32" using assms(1,2) by (intro mod_pos_pos_trivial) auto
  finally have "2 ^ 31 \<le> unat (word_of_int e :: u32)" using assms(1) by (simp add: unat_eq_nat_uint)
  then show ?thesis using assms(3) by (simp add: short_def word_less_nat_alt)
qed

text \<open>The loader does not notice that reading fails. When both reads return an error and store
  nothing, the loader takes the size from an uninitialised variable and, whenever that is at
  most the size of the RAM, reports success with the RAM as it was.\<close>

theorem fs_load_ignores_read_errors:
  assumes "fs_open fs path 0 w = ((0, fd), w1)"
    and "fs_read fs fd 4 w1 = ((e1, []), w2)" and "- (2 ^ 31) \<le> e1" and "e1 < 0"
    and "junk = [a, b, c, d]" and "unat (le32 a b c d) \<le> length ram" and "length ram < 2 ^ 31"
    and "fs_read fs fd (le32 a b c d) w2 = ((e2, []), w3)" and "- (2 ^ 31) \<le> e2" and "e2 < 0"
    and "fs_close fs fd w3 = (0, w4)"
  shows "fs_load junk fs path ram w = Some (0, ram, w4)"
proof -
  have "\<not> short e1 4" "\<not> short e2 (le32 a b c d)"
    using short_negative [OF assms(3,4), of 4] short_negative [OF assms(9,10), of "le32 a b c d"]
      assms(6,7) by auto
  moreover have "\<not> le32 a b c d > ram_size ram"
    using assms(6,7) by (simp add: word_less_nat_alt unat_ram_size)
  ultimately show ?thesis
    unfolding fs_load_def Let_def assms(1,2) case_prod_conv
    by (simp add: assms(5,8,11))
qed

subsection \<open>At concrete inputs\<close>

text \<open>A file system with the one file \<open>demo_file\<close>; its state is the position.\<close>

definition demo_file :: "u8 list" where
  "demo_file = [2, 0, 0, 0, 0xaa, 0xbb]"

definition demo_fs :: "nat fs_ops" where
  "demo_fs = \<lparr>fs_open = (\<lambda>path flags w. ((0, 3), 0)), fs_close = (\<lambda>fd w. (0, w)),
     fs_read = (\<lambda>fd n w. let bs = take (unat n) (drop w demo_file)
       in ((int (length bs), bs), w + length bs)),
     fs_seek = (\<lambda>fd off whence w. (int (unat off), unat off))\<rparr>"

lemma demo_fs_serves: "fs_serves demo_fs path demo_file (\<lambda>w fd. Some w)"
  by (simp add: fs_serves_def demo_fs_def Let_def)

lemma demo_fs_image: "fs_image demo_file [0xaa, 0xbb]"
  by (simp add: fs_image_def demo_file_def Let_def byte_of_def)

definition demo_fs_sys :: "nat shared_sys" where
  "demo_fs_sys = \<lparr>sh_state = (\<lambda>_. \<lparr>bs_initialized = False, bs_caller = 0, bs_lr = 0, bs_sp = 0\<rparr>),
     sh_mmio = [], sh_ram = replicate 10 1, sh_world = 0\<rparr>"

lemma fs_init_enters_image_witness:
  "\<exists>s1. fs_box3_init (\<lambda>_ _. 1) 0 0x20001000 [1, 2, 3, 4] demo_fs (\<lambda>s. Some (Inr 0, s)) demo_fs_sys =
      Some (Inr 0, upd_state 3 (\<lambda>st. st\<lparr>bs_initialized := True\<rparr>) s1) \<and>
    sh_ram s1 = [0xaa, 0xbb] @ replicate 8 1 \<and> bs_sp (sh_state s1 3) = 0x20001000 \<and>
    \<not> up 1 s1 \<and> \<not> up 2 s1"
proof -
  have "\<not> up 3 demo_fs_sys" "fst (box_mpu_init (\<lambda>_ _. 1) 0 (sh_mmio demo_fs_sys)) = Inr 0"
    by (simp_all add: up_def demo_fs_sys_def box_mpu_init_def)
  from fs_init_enters_image [OF this demo_fs_serves demo_fs_image, of "[1, 2, 3, 4]" "0x20001000"
      "\<lambda>s. Some (Inr 0, s)"]
  show ?thesis by (simp add: demo_fs_sys_def)
qed

definition broken_fs :: "nat fs_ops" where
  "broken_fs = demo_fs\<lparr>fs_read := (\<lambda>fd n w. ((fail_with EIO, []), w))\<rparr>"

lemma fs_load_ignores_read_errors_witness:
  "fs_load [4, 0, 0, 0] broken_fs ''box1.bin'' (replicate 8 1) 0 = Some (0, replicate 8 1, 0)"
  by (rule fs_load_ignores_read_errors [where fd = 3 and ?w1.0 = 0 and ?w2.0 = 0 and ?w3.0 = 0
        and ?e1.0 = "- 5" and ?e2.0 = "- 5" and a = 4 and b = 0 and c = 0 and d = 0])
    (simp_all add: broken_fs_def demo_fs_def fail_with_def le32_def)

end
