(* ===== verification/GlzCallback.thy ===== *)
theory GlzCallback
  imports GlzRefine
begin

text \<open>
  The generated decoder that fetches its input through one callback,
  \<^verbatim>\<open>__box_glz_bddecode\<close> (examples/bdcompression/bb.c) and \<^verbatim>\<open>__box_glz_fsdecode\<close>
  (examples/fscompression/bb.c), the same text under two names. The callback, with its context
  bound, gives a result and the bytes it stored at the start of the buffer it was handed; the
  local buffer \<^verbatim>\<open>x\<close> keeps its contents where nothing is stored. A callback that leaves an array
  or does not return is \<open>None\<close>; the decoder then stops with \<open>GlzOob\<close>.
\<close>

type_synonym 'w glz_fetch = "u32 \<Rightarrow> u32 \<Rightarrow> 'w \<Rightarrow> ((int \<times> u8 list) \<times> 'w) option"
type_synonym 'w glz_io = "'w \<times> u8 list \<times> u8 list"

definition over :: "u8 list \<Rightarrow> u8 list \<Rightarrow> u8 list" where
  "over buf bs = bs @ drop (length bs) buf"

definition fetch_rd1 :: "'w glz_fetch \<Rightarrow> 'w glz_io glz_rd1" where
  "fetch_rd1 fetch a st =
     (let (w, x, out) = st
      in case fetch a 1 w of
           None \<Rightarrow> (Inl GlzOob, st)
         | Some ((err, bs), w) \<Rightarrow>
             let x = over x bs
             in if err \<noteq> 0 then (Inl (GlzRet err), (w, x, out)) else (Inr (x ! 0), (w, x, out)))"

definition fetch_rd2 :: "'w glz_fetch \<Rightarrow> 'w glz_io glz_rd2" where
  "fetch_rd2 fetch a st =
     (let (w, x, out) = st
      in case fetch a 2 w of
           None \<Rightarrow> (Inl GlzOob, st)
         | Some ((err, bs), w) \<Rightarrow>
             let x = over x bs
             in if err \<noteq> 0 then (Inl (GlzRet err), (w, x, out)) else (Inr (x ! 0, x ! 1), (w, x, out)))"

definition fetch_emit :: "nat \<Rightarrow> 'w glz_io glz_emit" where
  "fetch_emit cap b st =
     (let (w, x, out) = st in
      if length out < cap then (Inr (), (w, x, out @ [b])) else (Inl GlzOob, (w, x, out)))"

definition box_glz_bddecode ::
  "u8 list \<Rightarrow> u8 \<Rightarrow> 'w glz_fetch \<Rightarrow> u32 \<Rightarrow> nat \<Rightarrow> u32 \<Rightarrow> 'w \<Rightarrow> (glz_stop \<times> 'w glz_io) option" where
  "box_glz_bddecode junk k fetch off cap sz w =
     glz_core (fetch_rd1 fetch) (fetch_rd2 fetch) (fetch_emit cap) k off sz (w, junk, [])"

definition box_glz_fsdecode ::
  "u8 list \<Rightarrow> u8 \<Rightarrow> 'w glz_fetch \<Rightarrow> u32 \<Rightarrow> nat \<Rightarrow> u32 \<Rightarrow> 'w \<Rightarrow> (glz_stop \<times> 'w glz_io) option" where
  "box_glz_fsdecode junk k fetch off cap sz w =
     glz_core (fetch_rd1 fetch) (fetch_rd2 fetch) (fetch_emit cap) k off sz (w, junk, [])"

text \<open>\<open>fetches fetch ok body\<close>: reads inside of \<open>body\<close> succeed and give its bytes.\<close>

definition fetches :: "'w glz_fetch \<Rightarrow> ('w \<Rightarrow> bool) \<Rightarrow> u8 list \<Rightarrow> bool" where
  "fetches fetch ok body \<longleftrightarrow>
     (\<forall>a n w. ok w \<longrightarrow> unat a + unat n \<le> length body \<longrightarrow> 0 < n \<longrightarrow> n \<le> 2 \<longrightarrow>
        (\<exists>w'. fetch a n w = Some ((0, take (unat n) (drop (unat a) body)), w') \<and> ok w'))"

lemma fetchesD:
  assumes "fetches fetch ok body" and "ok w" and "unat a + unat n \<le> length body" and "n = 1 \<or> n = 2"
  shows "\<exists>w'. fetch a n w = Some ((0, take (unat n) (drop (unat a) body)), w') \<and> ok w'"
proof -
  have "0 < n" "n \<le> 2" using assms(4) by (auto simp: word_less_nat_alt word_le_nat_alt)
  then show ?thesis using assms(1-3) unfolding fetches_def by blast
qed

interpretation cb: glz_source "fetch_rd1 fetch" "fetch_rd2 fetch" "fetch_emit cap" body cap
    "\<lambda>st. fetches fetch ok body \<and> ok (fst st) \<and> length (fst (snd st)) = 2" "\<lambda>st. snd (snd st)"
proof
  fix s :: "'a glz_io" and a :: u32
  assume good: "fetches fetch ok body \<and> ok (fst s) \<and> length (fst (snd s)) = 2"
  obtain w x out where s: "s = (w, x, out)" by (metis surj_pair)
  {
    assume a: "unat a < length body"
    then obtain w' where "fetch a 1 w = Some ((0, [body ! unat a]), w')" "ok w'"
      using good fetchesD [of fetch ok body w a 1] by (auto simp: s take_1_drop)
    then show "\<exists>s'. fetch_rd1 fetch a s = (Inr (body ! unat a), s') \<and>
        (fetches fetch ok body \<and> ok (fst s') \<and> length (fst (snd s')) = 2) \<and> snd (snd s') = snd (snd s)"
      using good by (simp add: fetch_rd1_def s over_def)
  }
  {
    assume a: "unat a + 1 < length body"
    then obtain w' where "fetch a 2 w = Some ((0, [body ! unat a, body ! (unat a + 1)]), w')" "ok w'"
      using good fetchesD [of fetch ok body w a 2] by (auto simp: s take_2_drop)
    then show "\<exists>s'. fetch_rd2 fetch a s = (Inr (body ! unat a, body ! (unat a + 1)), s') \<and>
        (fetches fetch ok body \<and> ok (fst s') \<and> length (fst (snd s')) = 2) \<and> snd (snd s') = snd (snd s)"
      using good by (simp add: fetch_rd2_def s over_def)
  }
qed (auto simp: fetch_emit_def)

lemma fetch_decode_refines:
  assumes "fetches fetch ok body" and "ok w" and "length junk = 2" and "glz_small body"
    and "glz_sem body (unat k) d (unat off) (unat sz) bs" and "d \<le> 1" and "unat sz \<le> cap"
  shows "\<exists>w' x. box_glz_fsdecode junk k fetch off cap sz w = Some (GlzRet 0, (w', x, bs)) \<and> ok w'"
  using cb.core_refines [OF assms(4,5,6), where fetch = fetch and ok = ok and s = "(w, junk, [])" and cap = cap]
    assms(1-3,7)
  by (force simp: box_glz_fsdecode_def)

end
