(* ===== verification/FsGlzLoader.thy ===== *)
theory FsGlzLoader
  imports FsLoader GlzLoader GlzCallback
begin

text \<open>
  Boxes stored as GLZ files (examples/fscompression/bb.c): the callback that seeks and reads,
  the loader that decompresses the file into the shared RAM, and the boxes' initialisation.
\<close>

definition fsz_seekread :: "'w fs_ops \<Rightarrow> int \<Rightarrow> u32 \<Rightarrow> 'w glz_fetch" where
  "fsz_seekread fs fd off addr n w =
     (let addr = addr + off;
          (res, w) = fs_seek fs fd addr 0 w
      in if res < 0 then Some ((res, []), w)
         else
           let ((res, bs), w) = fs_read fs fd n w
           in if short res n then
                (if res < 0 then Some ((res, bs), w) else Some ((fail_with EINVAL, bs), w))
              else Some ((0, bs), w))"

text \<open>\<open>junk\<close> and \<open>junk2\<close> are the initial contents of \<^verbatim>\<open>x\<close> here and in the decoder.\<close>

definition fsz_load :: "u8 list \<Rightarrow> u8 list \<Rightarrow> 'w fs_ops \<Rightarrow> string \<Rightarrow> 'w loader" where
  "fsz_load junk junk2 fs path ram w =
     (let ((err, fd), w) = fs_open fs path 0 w in
      if err \<noteq> 0 then Some (err, ram, w)
      else
        let ((res, bs), w) = fs_read fs fd 8 w in
        Option.bind (ram_store junk bs) (\<lambda>x.
          if short res 8 then
            (if res < 0 then Some (res, ram, w) else Some (fail_with ENOEXEC, ram, w))
          else
            let x0 = le32 (x ! 0) (x ! 1) (x ! 2) (x ! 3);
                k = meta_k x0;
                off = meta_off x0;
                sz = le32 (x ! 4) (x ! 5) (x ! 6) (x ! 7)
            in if sz > ram_size ram then Some (fail_with ENOEXEC, ram, w)
               else
                 (case box_glz_fsdecode junk2 k (fsz_seekread fs fd 8) off (length ram) sz w of
                    Some (GlzRet err, (w, x, out)) \<Rightarrow>
                      let ram = out @ drop (length out) ram
                      in if err \<noteq> 0 then Some (err, ram, w)
                         else
                           let (err, w) = fs_close fs fd w
                           in if err \<noteq> 0 then Some (err, ram, w) else Some (0, ram, w)
                  | _ \<Rightarrow> None)))"

definition fsz_box1_seekread :: "'w fs_ops \<Rightarrow> int \<Rightarrow> u32 \<Rightarrow> 'w glz_fetch" where
  "fsz_box1_seekread = fsz_seekread"

definition fsz_box2_seekread :: "'w fs_ops \<Rightarrow> int \<Rightarrow> u32 \<Rightarrow> 'w glz_fetch" where
  "fsz_box2_seekread = fsz_seekread"

definition fsz_box3_seekread :: "'w fs_ops \<Rightarrow> int \<Rightarrow> u32 \<Rightarrow> 'w glz_fetch" where
  "fsz_box3_seekread = fsz_seekread"

definition fsz_box1_load :: "u8 list \<Rightarrow> u8 list \<Rightarrow> 'w fs_ops \<Rightarrow> 'w loader" where
  "fsz_box1_load junk junk2 fs = fsz_load junk junk2 fs ''box1.glz''"


definition fsz_box3_load :: "u8 list \<Rightarrow> u8 list \<Rightarrow> 'w fs_ops \<Rightarrow> 'w loader" where
  "fsz_box3_load junk junk2 fs = fsz_load junk junk2 fs ''box3.glz''"

definition fsz_box1_init ::
  "mmio_load \<Rightarrow> u32 \<Rightarrow> u32 \<Rightarrow> u8 list \<Rightarrow> u8 list \<Rightarrow> 'w fs_ops \<Rightarrow> 'w shared_op \<Rightarrow> 'w shared_op" where
  "fsz_box1_init hw callregion jt junk junk2 fs =
     shared_init hw callregion jt 1 2 3 (fsz_box1_load junk junk2 fs)"


definition fsz_box3_init ::
  "mmio_load \<Rightarrow> u32 \<Rightarrow> u32 \<Rightarrow> u8 list \<Rightarrow> u8 list \<Rightarrow> 'w fs_ops \<Rightarrow> 'w shared_op \<Rightarrow> 'w shared_op" where
  "fsz_box3_init hw callregion jt junk junk2 fs =
     shared_init hw callregion jt 3 1 2 (fsz_box3_load junk junk2 fs)"

subsection \<open>The callback reads the body of the file\<close>



subsection \<open>Properties\<close>




end
