(* ===== verification/BdGlzLoader.thy ===== *)
theory BdGlzLoader
  imports GlzLoader GlzCallback
begin

text \<open>
  Boxes stored as GLZ blobs on a block device (examples/bdcompression/bb.c): the read callback
  with its buffer of 16 bytes, the loader, and the boxes' initialisation. The buffer variables
  of a box are a record that travels with the medium.
\<close>

record bdbuf =
  buf_block :: u32
  buf_off :: u32
  buf_bytes :: "u8 list"

definition BDZ_BLOCK_SIZE :: u32 where
  "BDZ_BLOCK_SIZE = 4096"

definition BDZ_BUFFER_SIZE :: u32 where
  "BDZ_BUFFER_SIZE = 16"

definition buf_hit :: "bdbuf \<Rightarrow> u32 \<Rightarrow> u32 \<Rightarrow> bool" where
  "buf_hit b block off \<longleftrightarrow>
     block = buf_block b \<and> off \<ge> buf_off b \<and> off < buf_off b + BDZ_BUFFER_SIZE"

definition buf_delta :: "bdbuf \<Rightarrow> u32 \<Rightarrow> u32 \<Rightarrow> u32" where
  "buf_delta b off n = bd_min (BDZ_BUFFER_SIZE - (off - buf_off b)) n"

text \<open>The loop: a pass copies from the buffer on a hit, to the start of the destination each time,
  or fills the buffer. If the buffer just filled does not hold the offset, the next pass
  would fill it again, forever: \<open>None\<close>.\<close>

lemma buf_hit_delta:
  assumes "buf_hit b block off" and "n > 0"
  shows "0 < unat (buf_delta b off n)" and "buf_delta b off n \<le> n"
proof -
  have hit: "buf_off b \<le> off" "off < buf_off b + 16" using assms(1) by (simp_all add: buf_hit_def BDZ_BUFFER_SIZE_def)
  have nowrap: "unat (buf_off b + 16) = unat (buf_off b) + 16"
  proof (rule ccontr)
    assume "unat (buf_off b + 16) \<noteq> unat (buf_off b) + 16"
    then have "unat (buf_off b) + 16 \<ge> 2 ^ 32"
      using unat_add_nat [of "buf_off b" "16"] by (cases "unat (buf_off b) + 16 < 2 ^ 32") auto
    then have "unat (buf_off b + 16) < unat (buf_off b)"
      using unat_u32_less [of "buf_off b"] by (simp add: unat_word_ariths le_mod_geq)
    then show False using hit by (simp add: word_less_nat_alt word_le_nat_alt)
  qed
  then have "unat off < unat (buf_off b) + 16" using hit(2) by (simp add: word_less_nat_alt)
  then have d: "unat (off - buf_off b) < 16" using hit(1) by (simp add: unat_sub word_le_nat_alt)
  then have "unat (16 - (off - buf_off b)) = 16 - unat (off - buf_off b)"
    by (subst unat_sub) (simp_all add: word_le_nat_alt)
  then show "0 < unat (buf_delta b off n)" "buf_delta b off n \<le> n"
    using d assms(2) by (auto simp: buf_delta_def bd_min_def BDZ_BUFFER_SIZE_def word_less_nat_alt word_le_nat_alt)
qed

function buffer_loop ::
  "'w bdread \<Rightarrow> u32 \<Rightarrow> u32 \<Rightarrow> u32 \<Rightarrow> u8 list \<Rightarrow> 'w \<times> bdbuf \<Rightarrow> ((int \<times> u8 list) \<times> 'w \<times> bdbuf) option" where
  "buffer_loop bdread block off n dest (w, b) =
     (if n > 0 then
        if buf_hit b block off then
          let delta = buf_delta b off n;
              dest = over dest (take (unat delta) (drop (unat (off - buf_off b)) (buf_bytes b)))
          in buffer_loop bdread block (off + delta) (n - delta) dest (w, b)
        else
          let noff = bd_aligndown off BDZ_BUFFER_SIZE;
              ((err, bs), w) = bdread block noff BDZ_BUFFER_SIZE w;
              b = b\<lparr>buf_bytes := over (buf_bytes b) bs\<rparr>
          in if err \<noteq> 0 then Some ((err, dest), (w, b))
             else
               let b = b\<lparr>buf_block := block, buf_off := noff\<rparr>
               in if buf_hit b block off then buffer_loop bdread block off n dest (w, b) else None
      else Some ((0, dest), (w, b)))"
  by auto
termination
proof (relation "measures [\<lambda>(r, block, off, n, dest, w, b). unat n,
    \<lambda>(r, block, off, n, dest, w, b). if buf_hit b block off then 0 else 1]", goal_cases)
  case 1
  then show ?case by simp
next
  case (2 bdread block off n dest w b delta dest')
  have "unat (n - delta) < unat n"
    using buf_hit_delta [OF 2(2,1)] 2(1,3) by (subst unat_sub) (auto simp: word_le_nat_alt)
  then show ?case by simp
next
  case (3 bdread block off n dest w b)
  then show ?case by simp
qed

declare buffer_loop.simps [simp del]

text \<open>The first part bounds the address; 8193 is a constant of the generated text.\<close>

definition BDZ_LIMIT :: u32 where
  "BDZ_LIMIT = 8193"

definition buffer_read :: "'w bdread \<Rightarrow> u32 \<Rightarrow> ('w \<times> bdbuf) glz_fetch" where
  "buffer_read bdread ctx addr n wb =
     (let off = ctx;
          addr = addr + off
      in if addr + n > BDZ_LIMIT then Some ((fail_with EINVAL, []), wb)
         else
           let block = addr div BDZ_BLOCK_SIZE;
               off = addr - block * BDZ_BLOCK_SIZE
           in buffer_loop bdread block off n [] wb)"

definition bdz_load :: "u8 list \<Rightarrow> u8 list \<Rightarrow> 'w bdread \<Rightarrow> u32 \<Rightarrow> ('w \<times> bdbuf) loader" where
  "bdz_load junk junk2 bdread base ram wb =
     (let (w, b) = wb;
          b = b\<lparr>buf_block := - 1\<rparr>
      in case buffer_read bdread 0 base 8 (w, b) of
           None \<Rightarrow> None
         | Some ((err, bs), wb) \<Rightarrow>
             if err \<noteq> 0 then Some (err, ram, wb)
             else
               let x = over junk bs;
                   x0 = le32 (x ! 0) (x ! 1) (x ! 2) (x ! 3);
                   k = meta_k x0;
                   off = meta_off x0;
                   sz = le32 (x ! 4) (x ! 5) (x ! 6) (x ! 7);
                   sz = bd_alignup sz BD_READ_SIZE
               in if sz > ram_size ram then Some (fail_with ENOEXEC, ram, wb)
                  else
                    (case box_glz_bddecode junk2 k (buffer_read bdread (base + 8)) off (length ram) sz wb of
                       Some (GlzRet err, (wb, x, out)) \<Rightarrow> Some (err, out @ drop (length out) ram, wb)
                     | _ \<Rightarrow> None))"

definition bdz_box1_load :: "u8 list \<Rightarrow> u8 list \<Rightarrow> 'w bdread \<Rightarrow> ('w \<times> bdbuf) loader" where
  "bdz_box1_load junk junk2 bdread = bdz_load junk junk2 bdread 0"

definition bdz_box2_load :: "u8 list \<Rightarrow> u8 list \<Rightarrow> 'w bdread \<Rightarrow> ('w \<times> bdbuf) loader" where
  "bdz_box2_load junk junk2 bdread = bdz_load junk junk2 bdread 8192"

definition bdz_box3_load :: "u8 list \<Rightarrow> u8 list \<Rightarrow> 'w bdread \<Rightarrow> ('w \<times> bdbuf) loader" where
  "bdz_box3_load junk junk2 bdread = bdz_load junk junk2 bdread 16384"

definition bdz_box1_init ::
  "mmio_load \<Rightarrow> u32 \<Rightarrow> u32 \<Rightarrow> u8 list \<Rightarrow> u8 list \<Rightarrow> 'w bdread \<Rightarrow> ('w \<times> bdbuf) shared_op \<Rightarrow> ('w \<times> bdbuf) shared_op"
where
  "bdz_box1_init hw callregion jt junk junk2 bdread =
     shared_init hw callregion jt 1 2 3 (bdz_box1_load junk junk2 bdread)"

definition bdz_box2_init ::
  "mmio_load \<Rightarrow> u32 \<Rightarrow> u32 \<Rightarrow> u8 list \<Rightarrow> u8 list \<Rightarrow> 'w bdread \<Rightarrow> ('w \<times> bdbuf) shared_op \<Rightarrow> ('w \<times> bdbuf) shared_op"
where
  "bdz_box2_init hw callregion jt junk junk2 bdread =
     shared_init hw callregion jt 2 1 3 (bdz_box2_load junk junk2 bdread)"

definition bdz_box3_init ::
  "mmio_load \<Rightarrow> u32 \<Rightarrow> u32 \<Rightarrow> u8 list \<Rightarrow> u8 list \<Rightarrow> 'w bdread \<Rightarrow> ('w \<times> bdbuf) shared_op \<Rightarrow> ('w \<times> bdbuf) shared_op"
where
  "bdz_box3_init hw callregion jt junk junk2 bdread =
     shared_init hw callregion jt 3 1 2 (bdz_box3_load junk junk2 bdread)"

subsection \<open>The callback returns\<close>

lemma aligned_hit:
  assumes "unat off + 32 \<le> 2 ^ 32"
  shows "buf_hit (b\<lparr>buf_block := block, buf_off := bd_aligndown off 16\<rparr>) block off"
    and "unat (off - bd_aligndown off 16) = unat off mod 16"
proof -
  have down: "unat (bd_aligndown off 16) = unat off - unat off mod 16"
    by (simp add: unat_aligndown)
  then have le: "bd_aligndown off 16 \<le> off" by (simp add: word_le_nat_alt)
  have "unat (bd_aligndown off 16 + 16) = unat off - unat off mod 16 + 16"
    using assms down by (subst unat_add_nat) auto
  moreover have "unat off mod 16 < 16" by simp
  ultimately have "off < bd_aligndown off 16 + 16" unfolding word_less_nat_alt by linarith
  with le show "buf_hit (b\<lparr>buf_block := block, buf_off := bd_aligndown off 16\<rparr>) block off"
    by (simp add: buf_hit_def BDZ_BUFFER_SIZE_def)
  show "unat (off - bd_aligndown off 16) = unat off mod 16"
    using le down by (subst unat_sub) (auto simp: word_le_nat_alt)
qed

lemma buffer_loop_returns:
  "unat off + unat n + 32 \<le> 2 ^ 32 \<Longrightarrow> buffer_loop bdread block off n dest wb \<noteq> None"
proof (induction bdread block off n dest wb rule: buffer_loop.induct)
  case (1 bdread block off n dest w b)
  show ?case
  proof (cases "n > 0")
    case False
    then show ?thesis by (subst buffer_loop.simps) simp
  next
    case n: True
    show ?thesis
    proof (cases "buf_hit b block off")
      case True
      let ?d = "buf_delta b off n"
      have d: "?d \<le> n" using buf_hit_delta [OF True n] by simp
      have "unat (off + ?d) + unat (n - ?d) = unat off + unat n"
        using d 1(3) by (subst unat_add_nat, simp add: word_le_nat_alt)
          (simp add: unat_sub word_le_nat_alt)
      then show ?thesis using 1(1) [OF n True refl refl] 1(3) n True
        by (subst buffer_loop.simps) (simp add: Let_def)
    next
      case False
      obtain err bs w' where rd: "bdread block (bd_aligndown off 16) 16 w = ((err, bs), w')"
        by (metis surj_pair)
      note hit = aligned_hit(1) [where off = off and block = block and b = "b\<lparr>buf_bytes := over (buf_bytes b) bs\<rparr>"]
      show ?thesis
        using 1(2) [OF n False refl, unfolded BDZ_BUFFER_SIZE_def, OF rd [symmetric] refl refl refl] 1(3) n False hit
        by (subst buffer_loop.simps) (simp add: Let_def BDZ_BUFFER_SIZE_def rd)
    qed
  qed
qed

lemma block_offset: "unat (addr - addr div BDZ_BLOCK_SIZE * BDZ_BLOCK_SIZE) = unat addr mod 4096"
proof -
  have "addr - addr div BDZ_BLOCK_SIZE * BDZ_BLOCK_SIZE = addr mod BDZ_BLOCK_SIZE"
    by (rule minus_div_mult_eq_mod)
  then show ?thesis by (simp add: unat_mod BDZ_BLOCK_SIZE_def)
qed

text \<open>C22: the buffered read always returns, whatever the device does: for the sizes the decoder and
  the loader ask for, the loop that refills the buffer ends.\<close>

theorem buffer_read_returns:
  assumes "n \<le> 16"
  shows "buffer_read bdread ctx addr n wb \<noteq> None"
proof -
  let ?a = "addr + ctx"
  have "unat n \<le> 16" using assms by (simp add: word_le_nat_alt)
  moreover have "unat (?a - ?a div BDZ_BLOCK_SIZE * BDZ_BLOCK_SIZE) < 4096"
    unfolding block_offset by simp
  ultimately have "buffer_loop bdread (?a div BDZ_BLOCK_SIZE)
      (?a - ?a div BDZ_BLOCK_SIZE * BDZ_BLOCK_SIZE) n [] wb \<noteq> None"
    by (intro buffer_loop_returns) simp
  then show ?thesis by (simp add: buffer_read_def Let_def)
qed

text \<open>Two of the three boxes of the example can never be loaded. Their blobs lie at 8192 and
  16384 on the device and the bound compares the absolute address with the size of one blob's
  region, so the loaders return \<^verbatim>\<open>-EINVAL\<close> without reading anything.\<close>

theorem bdz_box2_never_loads:
  "bdz_box2_load junk junk2 bdread ram (w, b) = Some (fail_with EINVAL, ram, (w, b\<lparr>buf_block := - 1\<rparr>))"
  by (simp add: bdz_box2_load_def bdz_load_def buffer_read_def BDZ_LIMIT_def fail_with_def Let_def)

lemma bdz_box3_never_loads:
  "bdz_box3_load junk junk2 bdread ram (w, b) = Some (fail_with EINVAL, ram, (w, b\<lparr>buf_block := - 1\<rparr>))"
  by (simp add: bdz_box3_load_def bdz_load_def buffer_read_def BDZ_LIMIT_def fail_with_def Let_def)

subsection \<open>What a read gives\<close>

text \<open>A device of 4096-byte blocks, and a buffer that is empty or holds an aligned line of it.\<close>

definition dev_reads :: "'w bdread \<Rightarrow> (u32 \<Rightarrow> u8 list) \<Rightarrow> bool" where
  "dev_reads bdread dev \<longleftrightarrow>
     (\<forall>block. length (dev block) = 4096) \<and>
     (\<forall>block off n w. unat off + unat n \<le> 4096 \<longrightarrow>
        (\<exists>w'. bdread block off n w = ((0, take (unat n) (drop (unat off) (dev block))), w')))"

definition coherent :: "(u32 \<Rightarrow> u8 list) \<Rightarrow> bdbuf \<Rightarrow> bool" where
  "coherent dev b \<longleftrightarrow>
     length (buf_bytes b) = 16 \<and>
     (buf_block b = - 1 \<or>
        unat (buf_off b) mod 16 = 0 \<and> unat (buf_off b) < 4096 \<and>
        buf_bytes b = take 16 (drop (unat (buf_off b)) (dev (buf_block b))))"

lemma hit_offset:
  assumes "buf_hit b block off" and "unat (buf_off b) mod 16 = 0" and "unat (buf_off b) < 4096"
  shows "unat (buf_off b) = unat off - unat off mod 16" and "unat (off - buf_off b) = unat off mod 16"
proof -
  have "unat (buf_off b + 16) = unat (buf_off b) + 16" using assms(3) by (subst unat_add_nat) auto
  then have lt: "unat (buf_off b) \<le> unat off" "unat off < unat (buf_off b) + 16"
    using assms(1) by (simp_all add: buf_hit_def BDZ_BUFFER_SIZE_def word_less_nat_alt word_le_nat_alt)
  obtain q where q: "unat (buf_off b) = 16 * q" using assms(2) by (auto elim!: dvdE simp: mod_eq_0_iff_dvd)
  then have "unat off mod 16 = unat off - 16 * q"
    using lt by (intro mod_nat_eqI) auto
  then show "unat (buf_off b) = unat off - unat off mod 16" "unat (off - buf_off b) = unat off mod 16"
    using lt q by (simp_all add: unat_sub word_le_nat_alt)
qed

lemma loop_hit:
  assumes "buf_hit b block off" and "coherent dev b" and "block \<noteq> - 1" and "n > 0"
    and "unat off mod 16 + unat n \<le> 16"
  shows "buffer_loop bdread block off n [] (w, b) =
    Some ((0, take (unat n) (drop (unat off) (dev block))), (w, b))"
proof -
  have block: "block = buf_block b" using assms(1) by (simp add: buf_hit_def)
  then have line: "unat (buf_off b) mod 16 = 0" "unat (buf_off b) < 4096"
      "buf_bytes b = take 16 (drop (unat (buf_off b)) (dev block))"
    using assms(2,3) by (auto simp: coherent_def)
  note o = hit_offset [OF assms(1) line(1,2)]
  have "unat (16 - (off - buf_off b)) = 16 - unat off mod 16"
    using o(2) by (subst unat_sub) (simp_all add: word_le_nat_alt)
  then have delta: "buf_delta b off n = n"
    using assms(5) by (auto simp: buf_delta_def bd_min_def BDZ_BUFFER_SIZE_def word_less_nat_alt word_unat_eq_iff)
  have "take (unat n) (drop (unat off mod 16) (buf_bytes b)) =
      take (unat n) (drop (unat off mod 16 + (unat off - unat off mod 16)) (dev block))"
    using assms(5) unfolding line(3) o(1) by (simp add: drop_take min_def add.commute)
  then have "take (unat n) (drop (unat off mod 16) (buf_bytes b)) = take (unat n) (drop (unat off) (dev block))"
    by simp
  then show ?thesis using assms(1,4) o(2)
    by (subst buffer_loop.simps) (simp add: Let_def delta over_def buffer_loop.simps)
qed

lemma loop_line:
  assumes "dev_reads bdread dev" and "coherent dev b" and "block \<noteq> - 1" and "n > 0"
    and "unat off mod 16 + unat n \<le> 16" and "unat off < 4096"
  shows "\<exists>w' b'. buffer_loop bdread block off n [] (w, b) =
      Some ((0, take (unat n) (drop (unat off) (dev block))), (w', b')) \<and> coherent dev b'"
proof (cases "buf_hit b block off")
  case True
  show ?thesis by (intro exI conjI, rule loop_hit [OF True assms(2-5)], rule assms(2))
next
  case False
  let ?noff = "bd_aligndown off 16"
  have noff: "unat ?noff = unat off - unat off mod 16" by (simp add: unat_aligndown)
  have le: "unat ?noff + 16 \<le> 4096" using noff assms(6) by presburger
  then have "unat ?noff + unat (16 :: u32) \<le> 4096" by simp
  then obtain w' where "bdread block ?noff 16 w =
      ((0, take (unat (16 :: u32)) (drop (unat ?noff) (dev block))), w')"
    using assms(1) unfolding dev_reads_def by blast
  then have rd: "bdread block ?noff 16 w = ((0, take 16 (drop (unat ?noff) (dev block))), w')" by simp
  have len: "length (take 16 (drop (unat ?noff) (dev block))) = 16"
    using assms(1) le by (simp add: dev_reads_def)
  let ?b = "b\<lparr>buf_bytes := take 16 (drop (unat ?noff) (dev block)), buf_block := block, buf_off := ?noff\<rparr>"
  have co: "coherent dev ?b"
    using len le noff by (auto simp: coherent_def mod_eq_0_iff_dvd minus_mod_eq_mult_div)
  have hit: "buf_hit ?b block off"
    using aligned_hit(1) [where off = off and block = block and
        b = "b\<lparr>buf_bytes := take 16 (drop (unat ?noff) (dev block))\<rparr>"] assms(6)
    by simp
  have "over (buf_bytes b) (take 16 (drop (unat ?noff) (dev block))) = take 16 (drop (unat ?noff) (dev block))"
    using assms(2) len by (simp add: over_def coherent_def)
  then have "buffer_loop bdread block off n [] (w, b) = buffer_loop bdread block off n [] (w', ?b)"
    using False assms(4) hit by (subst buffer_loop.simps) (simp add: Let_def BDZ_BUFFER_SIZE_def rd)
  then show ?thesis
    by (simp only:) (intro exI conjI, rule loop_hit [OF hit co assms(3-5)], rule co)
qed

text \<open>C21: a read within one line of 16 bytes gives exactly the bytes of the device, and leaves a
  buffer that again holds a line of the device.\<close>

theorem buffer_read_line:
  assumes "dev_reads bdread dev" and "coherent dev b" and "n > 0"
    and "unat (addr + ctx) + unat n \<le> 8193" and "unat (addr + ctx) mod 16 + unat n \<le> 16"
  shows "\<exists>w' b'. buffer_read bdread ctx addr n (w, b) =
      Some ((0, take (unat n) (drop (unat (addr + ctx) mod 4096) (dev ((addr + ctx) div 4096)))), (w', b')) \<and>
    coherent dev b'"
proof -
  let ?a = "addr + ctx"
  let ?block = "?a div BDZ_BLOCK_SIZE"
  have "unat ?block = unat ?a div 4096" by (simp add: unat_div BDZ_BLOCK_SIZE_def)
  then have "unat ?block < 3" using assms(4) by simp
  moreover have "unat (- 1 :: u32) = 2 ^ 32 - 1" by (simp add: unsigned_minus_1_eq_mask mask_eq_exp_minus_1)
  ultimately have block: "?block \<noteq> - 1" by auto
  have "unat (?a + n) = unat ?a + unat n" using assms(4) by (subst unat_add_nat) auto
  then have lim: "\<not> ?a + n > BDZ_LIMIT" using assms(4) by (simp add: BDZ_LIMIT_def word_less_nat_alt)
  have mod: "unat ?a mod 4096 mod 16 = unat ?a mod 16"
    by (rule mod_mod_cancel) simp
  have "unat (?a - ?block * BDZ_BLOCK_SIZE) mod 16 + unat n \<le> 16"
      "unat (?a - ?block * BDZ_BLOCK_SIZE) < 4096"
    using assms(5) unfolding block_offset mod by simp_all
  from loop_line [OF assms(1,2) block assms(3) this, of w] lim
  show ?thesis unfolding block_offset by (simp add: buffer_read_def Let_def BDZ_BLOCK_SIZE_def)
qed

text \<open>A read that crosses a line is wrong. The destination pointer is not advanced, so the second
  line is copied over the bytes of the first: asked for the bytes at 15 and 16, the callback
  returns success with the byte at 16 in the place of the byte at 15 and nothing after it.\<close>

definition ramp_bdread :: "unit bdread" where
  "ramp_bdread block off n w = ((0, map (\<lambda>i. word_of_nat (unat off + i)) [0..<unat n]), ())"

definition empty_buf :: bdbuf where
  "empty_buf = \<lparr>buf_block = - 1, buf_off = 0, buf_bytes = replicate 16 0\<rparr>"

lemma buffer_read_split:
  "map_option fst (buffer_read ramp_bdread 0 15 2 ((), empty_buf)) = Some (0, [16])"
  by (simp add: buffer_read_def BDZ_LIMIT_def BDZ_BLOCK_SIZE_def Let_def buffer_loop.simps buf_hit_def
      buf_delta_def bd_min_def BDZ_BUFFER_SIZE_def bd_aligndown_def over_def ramp_bdread_def empty_buf_def
      upt_conv_Cons)

subsection \<open>At concrete inputs\<close>

lemma buffer_read_returns_witness:
  "buffer_read ramp_bdread 8 20 2 ((), empty_buf) \<noteq> None"
  by (rule buffer_read_returns) simp

definition zero_bdread :: "unit bdread" where
  "zero_bdread block off n w = ((0, replicate (unat n) 0), ())"

lemma buffer_read_line_witness:
  "\<exists>w' b'. buffer_read zero_bdread 8 20 2 ((), empty_buf) = Some ((0, replicate 2 0), (w', b')) \<and>
    coherent (\<lambda>_. replicate 4096 0) b'"
proof -
  have "dev_reads zero_bdread (\<lambda>_. replicate 4096 0)"
    by (auto simp: dev_reads_def zero_bdread_def min_def)
  moreover have "coherent (\<lambda>_. replicate 4096 0) empty_buf"
    by (simp add: coherent_def empty_buf_def)
  ultimately show ?thesis
    using buffer_read_line [of zero_bdread "\<lambda>_. replicate 4096 0" empty_buf 2 20 8 "()"]
    by (simp add: min_def)
qed

end
