(* ===== verification/Reorder.thy ===== *)
theory Reorder
  imports Main "HOL-Library.Multiset"
begin

text \<open>
  Rearranging a range of a list in place, for the sorting algorithms that swap elements of an array:
  \<open>reorders a a' off n\<close> holds when \<open>a'\<close> has the elements of \<open>a\<close> and differs only within \<open>n\<close>
  elements from \<open>off\<close>.
\<close>

definition swap :: "nat \<Rightarrow> nat \<Rightarrow> 'a list \<Rightarrow> 'a list" where
  "swap k l a = a[k := a ! l, l := a ! k]"

definition reorders :: "'a list \<Rightarrow> 'a list \<Rightarrow> nat \<Rightarrow> nat \<Rightarrow> bool" where
  "reorders a a' off n \<longleftrightarrow> length a' = length a \<and> mset a' = mset a \<and>
     (\<forall>k. k < off \<or> off + n \<le> k \<longrightarrow> a' ! k = a ! k)"

lemma reorders_refl [simp]: "reorders a a off n"
  by (simp add: reorders_def)

lemma reorders_trans: "reorders a b off n \<Longrightarrow> reorders b c off n \<Longrightarrow> reorders a c off n"
  by (simp add: reorders_def)

lemma reorders_mono: "reorders a b off n \<Longrightarrow> off' \<le> off \<Longrightarrow> off + n \<le> off' + n' \<Longrightarrow> reorders a b off' n'"
  by (simp add: reorders_def)

lemma reorders_swap:
  assumes "off \<le> k" "k < off + n" "off \<le> l" "l < off + n" "off + n \<le> length a"
  shows "reorders a (swap k l a) off n"
  using assms by (auto simp: reorders_def swap_def mset_swap nth_list_update)

lemma reorders_range:
  assumes "reorders a b off n" and "off + n \<le> length a"
  shows "mset (take n (drop off b)) = mset (take n (drop off a))"
proof -
  have split: "c = take off c @ take n (drop off c) @ drop (off + n) c" for c :: "'a list"
    by (metis append_take_drop_id drop_drop add.commute)
  have len: "length b = length a" using assms(1) by (simp add: reorders_def)
  have "take off b = take off a" "drop (off + n) b = drop (off + n) a"
    using assms len by (auto simp: reorders_def intro!: nth_equalityI)
  moreover have "mset b = mset a" using assms(1) by (simp add: reorders_def)
  ultimately show ?thesis
    using split [of a] split [of b] by (metis add_left_cancel add_right_cancel mset_append)
qed

text \<open>A property of all elements of a range survives a rearrangement of the range.\<close>

lemma reorders_all:
  assumes "reorders a b off n" and "off + n \<le> length a"
    and "\<And>k. off \<le> k \<Longrightarrow> k < off + n \<Longrightarrow> P (a ! k)" and "off \<le> k" and "k < off + n"
  shows "P (b ! k)"
proof -
  have len: "length b = length a" using assms(1) by (simp add: reorders_def)
  have "b ! k = take n (drop off b) ! (k - off)" "k - off < length (take n (drop off b))"
    using assms(2,4,5) len by auto
  then have "b ! k \<in> set (take n (drop off b))"
    by (metis nth_mem)
  then have "b ! k \<in> set (take n (drop off a))"
    using reorders_range [OF assms(1,2)] by (metis set_mset_mset)
  then obtain i where "i < n" "a ! (off + i) = b ! k"
    using assms(2) by (auto simp: in_set_conv_nth)
  then show ?thesis using assms(3) [of "off + i"] by simp
qed

end
