(* ===== verification/Qsort.thy ===== *)
theory Qsort
  imports BoxPrelude Reorder
begin

text \<open>
  The sorting box (examples/armv7m-mpu-qsort/qsort/main.c), and the same algorithm with error
  returns (examples/c/main.c). A buffer is a list that both work on in place; a pointer into it
  is an offset. Sizes are below \<open>2 ^ 31\<close>, so that \<^verbatim>\<open>int\<close> counters are natural numbers.
\<close>

subsection \<open>The code\<close>

text \<open>The loop over \<^verbatim>\<open>j\<close>, with \<open>n\<close> iterations to go.\<close>

fun partition_loop :: "u32 list \<Rightarrow> nat \<Rightarrow> nat \<Rightarrow> nat \<Rightarrow> nat \<Rightarrow> u32 \<Rightarrow> u32 list \<times> nat" where
  "partition_loop a off i j 0 pivot = (a, i)"
| "partition_loop a off i j (Suc n) pivot =
     (if a ! (off + j) < pivot then
        let x = a ! (off + j);
            a = a[off + j := a ! (off + i)];
            a = a[off + i := x]
        in partition_loop a off (i + 1) (j + 1) n pivot
      else partition_loop a off i (j + 1) n pivot)"

definition box_partition :: "u32 list \<Rightarrow> nat \<Rightarrow> nat \<Rightarrow> u32 \<Rightarrow> u32 list \<times> nat" where
  "box_partition a off sz pivot = partition_loop a off 0 0 sz pivot"

lemma partition_loop_le: "snd (partition_loop a off i j n pivot) \<le> i + n"
  by (induction a off i j n pivot rule: partition_loop.induct) (auto simp: Let_def intro: le_SucI)

function box_qsort :: "u32 list \<Rightarrow> nat \<Rightarrow> nat \<Rightarrow> int \<times> u32 list" where
  "box_qsort a off sz =
     (if sz = 0 then (0, a)
      else
        let pivot = a ! (off + sz - 1);
            (a, i) = box_partition a off (sz - 1) pivot;
            x = a ! (off + sz - 1);
            a = a[off + sz - 1 := a ! (off + i)];
            a = a[off + i := x];
            (r, a) = box_qsort a off i;
            (r, a) = box_qsort a (off + (i + 1)) (sz - (i + 1))
        in (0, a))"
  by auto
termination
proof (relation "measure (\<lambda>(a, off, sz). sz)", goal_cases)
  case (2 a off sz pivot ai a1 i)
  then have "i \<le> sz - 1"
    using partition_loop_le [of a off 0 0 "sz - 1" pivot] by (simp add: box_partition_def) (metis snd_conv)
  with 2 show ?case by simp
qed auto

declare box_qsort.simps [simp del]

text \<open>The variant with error returns; its partition is the same text.\<close>

definition boxc_qsort_partition :: "u32 list \<Rightarrow> nat \<Rightarrow> nat \<Rightarrow> u32 \<Rightarrow> u32 list \<times> int" where
  "boxc_qsort_partition a off sz pivot = (let (a, i) = partition_loop a off 0 0 sz pivot in (a, int i))"

function boxc_qsort :: "u32 list \<Rightarrow> nat \<Rightarrow> nat \<Rightarrow> int \<times> u32 list" where
  "boxc_qsort a off sz =
     (if sz = 0 then (0, a)
      else
        let pivot = a ! (off + sz - 1);
            (a, i) = boxc_qsort_partition a off (sz - 1) pivot
        in if i < 0 then (i, a)
           else
             let x = a ! (off + sz - 1);
                 a = a[off + sz - 1 := a ! (off + nat i)];
                 a = a[off + nat i := x];
                 (err, a) = boxc_qsort a off (nat i)
             in if err \<noteq> 0 then (err, a)
                else
                  let (err, a) = boxc_qsort a (off + (nat i + 1)) (sz - (nat i + 1))
                  in if err \<noteq> 0 then (err, a) else (0, a))"
  by auto
termination
proof (relation "measure (\<lambda>(a, off, sz). sz)", goal_cases)
  case (2 a off sz pivot ai a1 i)
  then have "nat i \<le> sz - 1"
    using partition_loop_le [of a off 0 0 "sz - 1" pivot]
    by (auto simp: boxc_qsort_partition_def split: prod.splits)
  with 2 show ?case by simp
qed auto

declare boxc_qsort.simps [simp del]

lemma boxc_qsort_eq: "boxc_qsort a off sz = box_qsort a off sz \<and> fst (box_qsort a off sz) = 0"
proof (induction sz arbitrary: a off rule: less_induct)
  case (less sz)
  show ?case
  proof (cases "sz = 0")
    case True
    then show ?thesis by (simp add: boxc_qsort.simps box_qsort.simps)
  next
    case False
    obtain a1 i where part: "partition_loop a off 0 0 (sz - 1) (a ! (off + sz - 1)) = (a1, i)"
      by fastforce
    then have "i \<le> sz - 1" using partition_loop_le [of a off 0 0 "sz - 1" "a ! (off + sz - 1)"] by simp
    then have "i < sz" "sz - (i + 1) < sz" using False by auto
    note IH = less.IH [OF this(1)] less.IH [OF this(2)]
    let ?a2 = "a1[off + sz - 1 := a1 ! (off + i), off + i := a1 ! (off + sz - 1)]"
    obtain a3 where q1: "box_qsort ?a2 off i = (0, a3)" "boxc_qsort ?a2 off i = (0, a3)"
      using IH(1) [of ?a2 off] by (metis prod.collapse)
    obtain a4 where q2: "box_qsort a3 (off + (i + 1)) (sz - (i + 1)) = (0, a4)"
        "boxc_qsort a3 (off + (i + 1)) (sz - (i + 1)) = (0, a4)"
      using IH(2) [of a3 "off + (i + 1)"] by (metis prod.collapse)
    have "box_qsort a off sz = (0, a4)"
      by (subst box_qsort.simps) (use False part q1(1) q2(1) in \<open>simp add: Let_def box_partition_def\<close>)
    moreover have "boxc_qsort a off sz = (0, a4)"
      by (subst boxc_qsort.simps)
        (use False part q1(2) q2(2) in \<open>simp add: Let_def boxc_qsort_partition_def\<close>)
    ultimately show ?thesis by simp
  qed
qed

subsection \<open>Partitioning\<close>

lemma partition_step_swap:
  "a[off + j := a ! (off + i), off + i := a ! (off + j)] = swap (off + j) (off + i) a"
  by (simp add: swap_def)

text \<open>The loop keeps the elements below the pivot in front.\<close>

lemma partition_loop_split:
  assumes "partition_loop a off i j n pivot = (a', i')"
    and "i \<le> j" and "off + (j + n) \<le> length a"
    and "\<And>k. k < i \<Longrightarrow> a ! (off + k) < pivot"
    and "\<And>k. i \<le> k \<Longrightarrow> k < j \<Longrightarrow> pivot \<le> a ! (off + k)"
  shows "reorders a a' off (j + n) \<and> i' \<le> j + n \<and> (\<forall>k < i'. a' ! (off + k) < pivot) \<and>
    (\<forall>k. i' \<le> k \<longrightarrow> k < j + n \<longrightarrow> pivot \<le> a' ! (off + k))"
  using assms
proof (induction a off i j n pivot rule: partition_loop.induct)
  case (1 a off i j pivot)
  then show ?case by simp
next
  case (2 a off i j n pivot)
  show ?case
  proof (cases "a ! (off + j) < pivot")
    case True
    let ?a = "swap (off + j) (off + i) a"
    have loop: "partition_loop ?a off (i + 1) (j + 1) n pivot = (a', i')"
      using 2(3) True by (simp add: swap_def Let_def)
    have fits: "off + (j + 1 + n) \<le> length ?a" using 2(5) by (simp add: swap_def)
    have low: "?a ! (off + k) < pivot" if "k < i + 1" for k
      using that True 2(4,5) 2(6) [of k] by (cases "k = i") (auto simp: swap_def nth_list_update)
    have high: "pivot \<le> ?a ! (off + k)" if "i + 1 \<le> k" "k < j + 1" for k
    proof (cases "k = j")
      case True
      then have "i \<le> i" "i < j" using that by auto
      then show ?thesis using True that 2(5) 2(7) [of i] by (simp add: swap_def nth_list_update)
    next
      case False
      then show ?thesis using that 2(5) 2(7) [of k] by (simp add: swap_def nth_list_update)
    qed
    have "reorders a ?a off (j + Suc n)" using 2(4,5) by (intro reorders_swap) auto
    moreover have "reorders ?a a' off (j + Suc n) \<and> i' \<le> j + Suc n \<and> (\<forall>k < i'. a' ! (off + k) < pivot) \<and>
        (\<forall>k. i' \<le> k \<longrightarrow> k < j + Suc n \<longrightarrow> pivot \<le> a' ! (off + k))"
      using 2(1) [OF True refl refl refl, folded swap_def, OF loop _ fits low high] 2(4) by simp
    ultimately show ?thesis using reorders_trans by blast
  next
    case False
    then have "partition_loop a off i (j + 1) n pivot = (a', i')" using 2(3) by simp
    moreover have "pivot \<le> a ! (off + k)" if "i \<le> k" "k < j + 1" for k
      using that False 2(7) [of k] by (cases "k = j") auto
    ultimately show ?thesis using 2(2) [OF False _ _ _ 2(6)] 2(4,5) by simp
  qed
qed

definition sorted_range :: "u32 list \<Rightarrow> nat \<Rightarrow> nat \<Rightarrow> bool" where
  "sorted_range a off n \<longleftrightarrow> (\<forall>k l. off \<le> k \<longrightarrow> k \<le> l \<longrightarrow> l < off + n \<longrightarrow> a ! k \<le> a ! l)"

text \<open>The pivot between the two parts, and the parts sorted one after the other.\<close>

lemma pivot_in_place:
  assumes r: "reorders a a1 off (sz - 1)" and i: "i \<le> sz - 1"
    and lo: "\<forall>k < i. a1 ! (off + k) < a ! (off + sz - 1)"
    and hi: "\<forall>k. i \<le> k \<longrightarrow> k < sz - 1 \<longrightarrow> a ! (off + sz - 1) \<le> a1 ! (off + k)"
    and sz: "sz \<noteq> 0" and fits: "off + sz \<le> length a"
  defines "a2 \<equiv> swap (off + sz - 1) (off + i) a1"
  shows "reorders a a2 off sz" and "off \<le> k \<Longrightarrow> k < off + i \<Longrightarrow> a2 ! k < a ! (off + sz - 1)"
    and "a2 ! (off + i) = a ! (off + sz - 1)"
    and "off + i < l \<Longrightarrow> l < off + sz \<Longrightarrow> a ! (off + sz - 1) \<le> a2 ! l"
proof -
  have len1: "length a1 = length a" using r by (simp add: reorders_def)
  have last1: "a1 ! (off + sz - 1) = a ! (off + sz - 1)" using r sz by (simp add: reorders_def)
  have "reorders a1 a2 off sz" unfolding a2_def using i sz fits len1 by (intro reorders_swap) auto
  then show "reorders a a2 off sz" using reorders_mono [OF r, of off sz] by (auto intro: reorders_trans)
  show "a2 ! k < a ! (off + sz - 1)" if "off \<le> k" "k < off + i"
    using that i lo sz fits len1 by (auto simp: a2_def swap_def nth_list_update dest: spec [of _ "k - off"])
  show "a2 ! (off + i) = a ! (off + sz - 1)"
    using i sz fits len1 last1 by (simp add: a2_def swap_def)
  show "a ! (off + sz - 1) \<le> a2 ! l" if l: "off + i < l" "l < off + sz"
  proof (cases "l = off + sz - 1")
    case True
    then have "i < sz - 1" using l by simp
    then have "a ! (off + sz - 1) \<le> a1 ! (off + i)" using hi by blast
    moreover have "a2 ! l = a1 ! (off + i)"
      using True l fits len1 by (simp add: a2_def swap_def)
    ultimately show ?thesis by simp
  next
    case False
    then have "l - off < sz - 1" "i \<le> l - off" using l by auto
    then have "a ! (off + sz - 1) \<le> a1 ! (off + (l - off))" using hi by blast
    then show ?thesis using False l by (simp add: a2_def swap_def)
  qed
qed

lemma sorted_join:
  assumes left: "sorted_range a off i" "\<And>k. off \<le> k \<Longrightarrow> k < off + i \<Longrightarrow> a ! k \<le> p"
    and mid: "a ! (off + i) = p"
    and right: "sorted_range a (off + (i + 1)) (sz - (i + 1))" "\<And>k. off + i < k \<Longrightarrow> k < off + sz \<Longrightarrow> p \<le> a ! k"
  shows "sorted_range a off sz"
  unfolding sorted_range_def
proof (intro allI impI)
  fix k l assume kl: "off \<le> k" "k \<le> l" "l < off + sz"
  consider "l < off + i" | "k < off + i" "l = off + i" | "k < off + i" "off + i < l"
    | "k = off + i" | "off + i < k" using kl by linarith
  then show "a ! k \<le> a ! l"
  proof cases
    case 1
    then show ?thesis using kl left(1) by (simp add: sorted_range_def)
  next
    case 2
    then show ?thesis using kl left(2) mid by simp
  next
    case 3
    then show ?thesis using kl left(2) [of k] right(2) [of l] by simp
  next
    case 4
    then show ?thesis using kl mid right(2) [of l] by (cases "l = k") auto
  next
    case 5
    then show ?thesis using kl right(1) by (simp add: sorted_range_def)
  qed
qed

lemma box_qsort_range:
  "off + sz \<le> length a \<Longrightarrow> box_qsort a off sz = (r, a') \<Longrightarrow>
    r = 0 \<and> reorders a a' off sz \<and> sorted_range a' off sz"
proof (induction sz arbitrary: a a' off r rule: less_induct)
  case (less sz)
  show ?case
  proof (cases "sz = 0")
    case True
    then show ?thesis using less.prems by (simp add: box_qsort.simps sorted_range_def)
  next
    case False
    let ?last = "off + sz - 1"
    let ?pivot = "a ! ?last"
    obtain a1 i where part: "partition_loop a off 0 0 (sz - 1) ?pivot = (a1, i)" by fastforce
    have p: "reorders a a1 off (sz - 1)" "i \<le> sz - 1" "\<forall>k < i. a1 ! (off + k) < ?pivot"
        "\<forall>k. i \<le> k \<longrightarrow> k < sz - 1 \<longrightarrow> ?pivot \<le> a1 ! (off + k)"
      using partition_loop_split [OF part] less.prems(1) by auto
    let ?a2 = "swap ?last (off + i) a1"
    note mid = pivot_in_place [OF p False less.prems(1)]
    have len2: "length ?a2 = length a" using mid(1) by (simp add: reorders_def)
    obtain r3 a3 where q1: "box_qsort ?a2 off i = (r3, a3)" by fastforce
    obtain r4 a4 where q2: "box_qsort a3 (off + (i + 1)) (sz - (i + 1)) = (r4, a4)" by fastforce
    have lens: "i < sz" "sz - (i + 1) < sz" using p(2) False by auto
    have s1: "reorders ?a2 a3 off i" "sorted_range a3 off i"
      using less.IH [OF lens(1) _ q1] lens(1) less.prems(1) len2 by auto
    then have len3: "length a3 = length a" using len2 by (simp add: reorders_def)
    have s2: "reorders a3 a4 (off + (i + 1)) (sz - (i + 1))" "sorted_range a4 (off + (i + 1)) (sz - (i + 1))"
      using less.IH [OF lens(2) _ q2] lens(1) less.prems(1) len3 by auto
    have whole: "reorders a a4 off sz"
      using mid(1) reorders_mono [OF s1(1), of off sz] reorders_mono [OF s2(1), of off sz] lens
      by (auto intro: reorders_trans)
    have res: "r = 0" "a' = a4"
      using less.prems(2) False part q1 q2
      by (subst (asm) box_qsort.simps, simp add: Let_def box_partition_def swap_def)+
    have below3: "a3 ! k < ?pivot" if "off \<le> k" "k < off + i" for k
      using reorders_all [OF s1(1), where P = "\<lambda>x. x < ?pivot"] mid(2) that lens(1) less.prems(1) len2 by auto
    have out3: "a3 ! k = ?a2 ! k" if "off + i \<le> k" for k
      using s1(1) that by (simp add: reorders_def)
    have out4: "a4 ! k = a3 ! k" if "k < off + (i + 1)" for k
      using s2(1) that by (simp add: reorders_def)
    have above4: "?pivot \<le> a4 ! k" if "off + i < k" "k < off + sz" for k
      using reorders_all [OF s2(1), where P = "\<lambda>x. ?pivot \<le> x"] mid(4) out3 that lens(1) less.prems(1) len3 by auto
    have "sorted_range a4 off sz"
    proof (rule sorted_join [where i = i and p = ?pivot])
      show "sorted_range a4 off i" using s1(2) out4 by (simp add: sorted_range_def)
      show "a4 ! k \<le> ?pivot" if "off \<le> k" "k < off + i" for k
        using that below3 [OF that] out4 [of k] by (simp add: order_less_imp_le)
      show "a4 ! (off + i) = ?pivot" using out4 out3 mid(3) by simp
    qed (fact s2(2), fact above4)
    with whole res show ?thesis by simp
  qed
qed

subsection \<open>Properties\<close>

text \<open>C28: the sorting box sorts. On a buffer with the range inside, it returns 0, the range is in
  ascending order, it holds the same numbers with the same multiplicities, and nothing outside
  of the range has changed.\<close>

theorem box_qsort_sorts:
  assumes "off + sz \<le> length a"
  shows "\<exists>a'. box_qsort a off sz = (0, a') \<and> sorted (take sz (drop off a')) \<and>
    mset (take sz (drop off a')) = mset (take sz (drop off a)) \<and> length a' = length a \<and>
    (\<forall>k. k < off \<or> off + sz \<le> k \<longrightarrow> a' ! k = a ! k)"
proof -
  obtain r a' where run: "box_qsort a off sz = (r, a')" by fastforce
  note q = box_qsort_range [OF assms run]
  then have len: "length a' = length a" by (simp add: reorders_def)
  have "sorted (take sz (drop off a'))"
    using q assms len by (auto simp: sorted_iff_nth_mono sorted_range_def)
  then show ?thesis
    using q run len reorders_range [of a a' off sz] assms by (auto simp: reorders_def)
qed

lemma box_qsort_sorts_witness:
  "\<exists>a'. box_qsort [7, 3, 9, 3, 1] 1 3 = (0, a') \<and> sorted (take 3 (drop 1 a')) \<and>
    mset (take 3 (drop 1 a')) = {#3, 9, 3#} \<and> length a' = length [7, 3, 9, 3, 1 :: u32] \<and>
    (\<forall>k. k < 1 \<or> 4 \<le> k \<longrightarrow> a' ! k = [7, 3, 9, 3, 1 :: u32] ! k)"
  using box_qsort_sorts [of 1 3 "[7, 3, 9, 3, 1 :: u32]"] by simp

text \<open>The C box of the other example sorts the same way and never reports an error.\<close>

lemma boxc_qsort_is_box_qsort:
  "boxc_qsort a off sz = box_qsort a off sz"
  using boxc_qsort_eq by blast

end
