(* ===== verification/MultiQsort.thy ===== *)
theory MultiQsort
  imports Qsort
begin

text \<open>
  Sorting over several boxes (examples/multilang/main.c): each step partitions in the buffer of
  one box, copies the range to the buffer of the next box and recurses there. A partitioner is a
  function of a box; it gets the buffer, the range and the pivot. The result is \<open>None\<close> when a
  partitioner answers with an index past the range it was given: the host then indexes with
  it, and asks for a size that wraps around.
\<close>

type_synonym partitioner = "u32 list \<Rightarrow> nat \<Rightarrow> nat \<Rightarrow> u32 \<Rightarrow> u32 list \<times> int"

text \<open>\<^verbatim>\<open>memcpy\<close> of a range between two buffers.\<close>

definition copy_range :: "u32 list \<Rightarrow> u32 list \<Rightarrow> nat \<Rightarrow> nat \<Rightarrow> u32 list" where
  "copy_range dst src off n = take off dst @ take n (drop off src) @ drop (off + n) dst"

function multi_qsort ::
  "partitioner list \<Rightarrow> nat \<Rightarrow> nat \<Rightarrow> u32 list list \<Rightarrow> nat \<Rightarrow> nat \<Rightarrow> (int \<times> u32 list list) option"
where
  "multi_qsort partitions i cnt buffers off sz =
     (if sz = 0 then Some (0, buffers)
      else
        let pivot = buffers ! i ! (off + sz - 1);
            (b, j) = (partitions ! i) (buffers ! i) off (sz - 1) pivot
        in if j < 0 then Some (j, buffers[i := b])
           else if int sz \<le> j then None
           else
             let x = b ! (off + sz - 1);
                 b = b[off + sz - 1 := b ! (off + nat j)];
                 b = b[off + nat j := x];
                 buffers = buffers[i := b];
                 ni = (i + 1) mod cnt;
                 buffers = buffers[ni := copy_range (buffers ! ni) b off sz]
             in case multi_qsort partitions ni cnt buffers off (nat j) of
                  None \<Rightarrow> None
                | Some (err, buffers) \<Rightarrow>
                    if err \<noteq> 0 then Some (err, buffers)
                    else (case multi_qsort partitions ni cnt buffers (off + (nat j + 1)) (sz - (nat j + 1)) of
                        None \<Rightarrow> None
                      | Some (err, buffers) \<Rightarrow> if err \<noteq> 0 then Some (err, buffers) else Some (0, buffers)))"
  by auto
termination by (relation "measure (\<lambda>(partitions, i, cnt, buffers, off, sz). sz)") auto

declare multi_qsort.simps [simp del]

subsection \<open>Segments\<close>

definition seg :: "u32 list \<Rightarrow> nat \<Rightarrow> nat \<Rightarrow> u32 list" where
  "seg a off n = take n (drop off a)"

lemma length_seg: "off + n \<le> length a \<Longrightarrow> length (seg a off n) = n"
  by (simp add: seg_def)

lemma nth_seg: "off + n \<le> length a \<Longrightarrow> k < n \<Longrightarrow> seg a off n ! k = a ! (off + k)"
  by (simp add: seg_def)

lemma seg_eqI:
  assumes "off + n \<le> length a" "off + n \<le> length b" "\<And>k. off \<le> k \<Longrightarrow> k < off + n \<Longrightarrow> a ! k = b ! k"
  shows "seg a off n = seg b off n"
  using assms by (intro nth_equalityI) (simp_all add: length_seg nth_seg)

lemma seg_split:
  assumes "off + n \<le> length a" and "j < n"
  shows "seg a off n = seg a off j @ a ! (off + j) # seg a (off + (j + 1)) (n - (j + 1))"
proof -
  have "take n (drop off a) = take j (take n (drop off a)) @ drop j (take n (drop off a))"
    by (rule append_take_drop_id [symmetric])
  moreover have "drop j (take n (drop off a)) = take (n - j) (drop (off + j) a)"
    by (simp add: drop_take add.commute)
  moreover have "drop (off + j) a = a ! (off + j) # drop (off + (j + 1)) a"
    using assms by (simp add: Cons_nth_drop_Suc)
  ultimately show ?thesis using assms by (simp add: seg_def min_def take_Cons')
qed

lemma set_seg: "off + n \<le> length a \<Longrightarrow> set (seg a off n) = (\<lambda>k. a ! (off + k)) ` {..<n}"
  by (force simp: in_set_conv_nth length_seg nth_seg)

lemma copy_range_props:
  assumes "off + n \<le> length dst" and "off + n \<le> length src"
  shows "length (copy_range dst src off n) = length dst"
    and "off \<le> k \<Longrightarrow> k < off + n \<Longrightarrow> copy_range dst src off n ! k = src ! k"
    and "k < off \<or> off + n \<le> k \<Longrightarrow> copy_range dst src off n ! k = dst ! k"
  using assms by (auto simp: copy_range_def nth_append)

text \<open>Two buffers that agree outside of a range.\<close>

definition same_outside :: "u32 list \<Rightarrow> u32 list \<Rightarrow> nat \<Rightarrow> nat \<Rightarrow> bool" where
  "same_outside a b off n \<longleftrightarrow> length b = length a \<and> (\<forall>k. k < off \<or> off + n \<le> k \<longrightarrow> b ! k = a ! k)"

subsection \<open>The contract of a partitioner\<close>

definition good_partition :: "partitioner \<Rightarrow> bool" where
  "good_partition part \<longleftrightarrow> (\<forall>a off n pivot a' j. off + n \<le> length a \<longrightarrow> part a off n pivot = (a', j) \<longrightarrow>
     0 \<le> j \<and> j \<le> int n \<and> reorders a a' off n \<and>
     (\<forall>k < nat j. a' ! (off + k) < pivot) \<and> (\<forall>k. nat j \<le> k \<longrightarrow> k < n \<longrightarrow> pivot \<le> a' ! (off + k)))"

lemma boxc_partition_good: "good_partition boxc_qsort_partition"
  unfolding good_partition_def
proof (intro allI impI)
  fix a a' :: "u32 list" and off n pivot j
  assume fits: "off + n \<le> length a" and part: "boxc_qsort_partition a off n pivot = (a', j)"
  then obtain i where i: "partition_loop a off 0 0 n pivot = (a', i)" "j = int i"
    by (auto simp: boxc_qsort_partition_def split: prod.splits)
  show "0 \<le> j \<and> j \<le> int n \<and> reorders a a' off n \<and>
     (\<forall>k < nat j. a' ! (off + k) < pivot) \<and> (\<forall>k. nat j \<le> k \<longrightarrow> k < n \<longrightarrow> pivot \<le> a' ! (off + k))"
    using partition_loop_split [OF i(1)] fits i(2) by auto
qed

text \<open>One step of the sort on its own buffer: the range becomes a front below the pivot, the pivot, and
  the rest.\<close>

lemma partition_step:
  assumes good: "good_partition part" and fits: "off + sz \<le> length a" and sz: "sz \<noteq> 0"
    and part: "part a off (sz - 1) (a ! (off + sz - 1)) = (b, j)"
  defines "p \<equiv> a ! (off + sz - 1)" and "c \<equiv> b[off + sz - 1 := b ! (off + nat j), off + nat j := b ! (off + sz - 1)]"
  shows "0 \<le> j" and "j < int sz" and "reorders a c off sz" and "c ! (off + nat j) = p"
    and "off \<le> k \<Longrightarrow> k < off + nat j \<Longrightarrow> c ! k < p"
    and "off + nat j < l \<Longrightarrow> l < off + sz \<Longrightarrow> p \<le> c ! l"
proof -
  have "off + (sz - 1) \<le> length a" using fits by simp
  then have g: "0 \<le> j" "j \<le> int (sz - 1)" "reorders a b off (sz - 1)" "\<forall>k < nat j. b ! (off + k) < p"
    "\<forall>k. nat j \<le> k \<longrightarrow> k < sz - 1 \<longrightarrow> p \<le> b ! (off + k)"
    using good part unfolding good_partition_def p_def by blast+
  show "0 \<le> j" by (rule g)
  show "j < int sz" using g sz by linarith
  have "nat j \<le> sz - 1" using g by linarith
  note mid = pivot_in_place [OF g(3) this _ _ sz fits, folded p_def swap_def, OF g(4,5)]
  show "reorders a c off sz" "c ! (off + nat j) = p"
    using mid(1,3) by (simp_all add: c_def swap_def)
  show "c ! k < p" if "off \<le> k" "k < off + nat j" using mid(2) [OF that] by (simp add: c_def swap_def)
  show "p \<le> c ! l" if "off + nat j < l" "l < off + sz" using mid(4) [OF that] by (simp add: c_def swap_def)
qed

text \<open>A range that holds what a sorted part, the pivot and a sorted part hold.\<close>

lemma seg_sorted:
  assumes "off + sz \<le> length d" and "off + sz \<le> length c" and "j < sz"
    and left: "seg d off j = sort (seg c off j)" and mid: "d ! (off + j) = c ! (off + j)"
    and right: "seg d (off + (j + 1)) (sz - (j + 1)) = sort (seg c (off + (j + 1)) (sz - (j + 1)))"
    and lo: "\<And>k. off \<le> k \<Longrightarrow> k < off + j \<Longrightarrow> c ! k < c ! (off + j)"
    and hi: "\<And>l. off + j < l \<Longrightarrow> l < off + sz \<Longrightarrow> c ! (off + j) \<le> c ! l"
  shows "seg d off sz = sort (seg c off sz)"
proof (rule properties_for_sort [symmetric])
  have l: "off + j \<le> length c" and r: "off + (j + 1) + (sz - (j + 1)) \<le> length c"
    using assms(2,3) by simp_all
  have below: "x < c ! (off + j)" if "x \<in> set (seg c off j)" for x
    using that lo by (auto simp: set_seg [OF l])
  have above: "c ! (off + j) \<le> x" if "x \<in> set (seg c (off + (j + 1)) (sz - (j + 1)))" for x
  proof -
    note member = that
    obtain k where k: "k < sz - (j + 1)" "x = c ! (off + (j + 1) + k)" using member unfolding set_seg [OF r] by auto
    have "off + j < off + (j + 1) + k" "off + (j + 1) + k < off + sz" using k(1) by linarith+
    then show ?thesis unfolding k(2) by (rule hi)
  qed
  show "mset (seg d off sz) = mset (seg c off sz)"
    unfolding seg_split [OF assms(1,3)] seg_split [OF assms(2,3)] left mid right by simp
  show "sorted (seg d off sz)"
    unfolding seg_split [OF assms(1,3)] left mid right
    using below above by (auto simp: sorted_append intro: order_less_imp_le order_trans [OF order_less_imp_le])
qed

subsection \<open>Two boxes in turn\<close>

definition other_box :: "nat \<Rightarrow> nat" where
  "other_box i = (i + 1) mod 2"

lemma other_box_cases: "i < 2 \<Longrightarrow> other_box i < 2 \<and> other_box i \<noteq> i \<and> other_box (other_box i) = i"
  by (cases "i = 0") (auto simp: other_box_def less_2_cases_iff)

lemma box_or_other: "i < 2 \<Longrightarrow> k < 2 \<Longrightarrow> k = i \<or> k = other_box i"
  by (auto simp: other_box_def less_2_cases_iff)

text \<open>What a call does to the two buffers: both have the sorted range of the first one.\<close>

definition sorts_both :: "nat \<Rightarrow> u32 list list \<Rightarrow> u32 list list \<Rightarrow> nat \<Rightarrow> nat \<Rightarrow> bool" where
  "sorts_both i bufs bufs' off sz \<longleftrightarrow> length bufs' = 2 \<and>
     (\<forall>k<2. same_outside (bufs ! k) (bufs' ! k) off sz \<and> seg (bufs' ! k) off sz = sort (seg (bufs ! i) off sz))"

lemma same_outsideD:
  assumes "same_outside a b off n"
  shows "length b = length a" and "k < off \<or> off + n \<le> k \<Longrightarrow> b ! k = a ! k"
  using assms by (auto simp: same_outside_def)

lemma same_outside_trans:
  assumes "same_outside a b off1 n1" and "same_outside b c off2 n2"
    and "off \<le> off1" "off1 + n1 \<le> off + n" "off \<le> off2" "off2 + n2 \<le> off + n"
  shows "same_outside a c off n"
  using assms by (auto simp: same_outside_def)

text \<open>The two recursive calls, from buffers \<open>bufs1\<close> that agree on a range with the pivot in place.\<close>

lemma both_parts:
  assumes i: "ni < 2" and len: "\<forall>k<2. off + sz \<le> length (bufs1 ! k)" and j: "j < sz"
    and agree: "\<And>k x. k < 2 \<Longrightarrow> off \<le> x \<Longrightarrow> x < off + sz \<Longrightarrow> bufs1 ! k ! x = c ! x"
    and lc: "off + sz \<le> length c"
    and lo: "\<And>k. off \<le> k \<Longrightarrow> k < off + j \<Longrightarrow> c ! k < c ! (off + j)"
    and hi: "\<And>l. off + j < l \<Longrightarrow> l < off + sz \<Longrightarrow> c ! (off + j) \<le> c ! l"
    and left: "sorts_both ni bufs1 bufs2 off j"
    and right: "sorts_both ni bufs2 bufs3 (off + (j + 1)) (sz - (j + 1))"
    and k: "k < 2"
  shows "same_outside (bufs1 ! k) (bufs3 ! k) off sz \<and> seg (bufs3 ! k) off sz = sort (seg c off sz)"
proof
  let ?off = "off + (j + 1)" and ?n = "sz - (j + 1)"
  have so2: "same_outside (bufs1 ! l) (bufs2 ! l) off j" if "l < 2" for l
    using left that by (simp add: sorts_both_def)
  have so3: "same_outside (bufs2 ! k) (bufs3 ! k) ?off ?n"
    using right k by (simp add: sorts_both_def)
  have len2: "length (bufs2 ! l) = length (bufs1 ! l)" if "l < 2" for l
    using same_outsideD(1) [OF so2 [OF that]] .
  have len3: "length (bufs3 ! k) = length (bufs1 ! k)" using same_outsideD(1) [OF so3] len2 [OF k] by simp
  have lk: "off + sz \<le> length (bufs1 ! k)" and lni: "off + sz \<le> length (bufs1 ! ni)" using len k i by auto
  show "same_outside (bufs1 ! k) (bufs3 ! k) off sz"
    by (rule same_outside_trans [OF so2 [OF k] so3]) (use j in simp_all)
  have l1: "seg (bufs3 ! k) off j = seg (bufs2 ! k) off j"
    using same_outsideD(2) [OF so3] len3 len2 [OF k] lk j by (intro seg_eqI) simp_all
  have l2: "seg (bufs2 ! k) off j = sort (seg (bufs1 ! ni) off j)" using left k by (simp add: sorts_both_def)
  have l3: "seg (bufs1 ! ni) off j = seg c off j"
    using agree [OF i] lni lc j by (intro seg_eqI) simp_all
  have r1: "seg (bufs3 ! k) ?off ?n = sort (seg (bufs2 ! ni) ?off ?n)" using right k by (simp add: sorts_both_def)
  have r2: "seg (bufs2 ! ni) ?off ?n = seg c ?off ?n"
    using same_outsideD(2) [OF so2 [OF i]] agree [OF i] len2 [OF i] lni lc j by (intro seg_eqI) simp_all
  have m: "bufs3 ! k ! (off + j) = c ! (off + j)"
    using same_outsideD(2) [OF so3, of "off + j"] same_outsideD(2) [OF so2 [OF k], of "off + j"]
      agree [OF k, of "off + j"] j by simp
  show "seg (bufs3 ! k) off sz = sort (seg c off sz)"
    by (rule seg_sorted [OF _ lc j _ m _ lo hi]) (use len3 lk l1 l2 l3 r1 r2 in simp_all)
qed

lemma sort_seg_reorders:
  assumes "reorders a c off n" and "off + n \<le> length a"
  shows "sort (seg c off n) = sort (seg a off n)"
  using reorders_range [OF assms] by (intro properties_for_sort) (simp_all add: seg_def)

lemma multi_qsort_both:
  "\<forall>k<2. good_partition (parts ! k) \<Longrightarrow> i < 2 \<Longrightarrow> length bufs = 2 \<Longrightarrow> \<forall>k<2. off + sz \<le> length (bufs ! k) \<Longrightarrow>
     \<exists>bufs'. multi_qsort parts i 2 bufs off sz = Some (0, bufs') \<and> sorts_both i bufs bufs' off sz"
proof (induction sz arbitrary: i bufs off rule: less_induct)
  case (less sz)
  show ?case
  proof (cases "sz = 0")
    case True
    then show ?thesis using less.prems
      by (simp add: multi_qsort.simps sorts_both_def same_outside_def seg_def)
  next
    case False
    let ?a = "bufs ! i" and ?ni = "other_box i"
    obtain b j where part: "(parts ! i) ?a off (sz - 1) (?a ! (off + sz - 1)) = (b, j)" by fastforce
    define c where "c = b[off + sz - 1 := b ! (off + nat j), off + nat j := b ! (off + sz - 1)]"
    have good: "good_partition (parts ! i)" and fits: "off + sz \<le> length ?a" using less.prems by auto
    note st = partition_step [OF good fits False part, folded c_def]
    have j: "nat j < sz" using st(1,2) by linarith
    have lc: "length c = length ?a" using st(3) by (simp add: reorders_def)
    have ni: "?ni < 2" "?ni \<noteq> i" using other_box_cases [OF less.prems(2)] by auto
    have fni: "off + sz \<le> length (bufs ! ?ni)" using less.prems(4) ni by blast
    define d where "d = copy_range (bufs ! ?ni) c off sz"
    have dp: "length d = length (bufs ! ?ni)" "\<And>k. off \<le> k \<Longrightarrow> k < off + sz \<Longrightarrow> d ! k = c ! k"
      "\<And>k. k < off \<or> off + sz \<le> k \<Longrightarrow> d ! k = bufs ! ?ni ! k"
      using copy_range_props [OF fni, of c] lc fits by (simp_all add: d_def)
    define bufs1 where "bufs1 = bufs[i := c, ?ni := d]"
    have b1: "bufs1 ! i = c" "bufs1 ! ?ni = d" "length bufs1 = 2"
      using ni less.prems(2,3) by (simp_all add: bufs1_def)
    have len1: "\<forall>k<2. off + sz \<le> length (bufs1 ! k)"
      using b1 lc dp(1) fits fni box_or_other [OF less.prems(2)] by metis
    obtain bufs2 where q1: "multi_qsort parts ?ni 2 bufs1 off (nat j) = Some (0, bufs2)"
      "sorts_both ?ni bufs1 bufs2 off (nat j)"
      using less.IH [OF j less.prems(1) ni(1) b1(3), of off] len1 j by fastforce
    have len2: "\<forall>k<2. off + sz \<le> length (bufs2 ! k)" "length bufs2 = 2"
      using q1(2) len1 by (simp_all add: sorts_both_def same_outside_def)
    obtain bufs3 where q2: "multi_qsort parts ?ni 2 bufs2 (off + (nat j + 1)) (sz - (nat j + 1)) = Some (0, bufs3)"
      "sorts_both ?ni bufs2 bufs3 (off + (nat j + 1)) (sz - (nat j + 1))"
      using less.IH [of "sz - (nat j + 1)" ?ni bufs2 "off + (nat j + 1)"] less.prems(1) ni(1) len2 j by fastforce
    have "bufs[i := c, ?ni := copy_range (bufs[i := c] ! ?ni) c off sz] = bufs1"
      using ni(2) by (simp add: bufs1_def d_def)
    then have run: "multi_qsort parts i 2 bufs off sz = Some (0, bufs3)"
      using False st(1) st(2) q1(1) q2(1) unfolding other_box_def c_def
      by (subst multi_qsort.simps, unfold Let_def part) simp
    have agree: "bufs1 ! k ! x = c ! x" if "k < 2" "off \<le> x" "x < off + sz" for k x
      using that b1 dp(2) box_or_other [OF less.prems(2) that(1)] by auto
    have out1: "same_outside (bufs ! k) (bufs1 ! k) off sz" if "k < 2" for k
      using box_or_other [OF less.prems(2) that] b1 dp(1,3) st(3) by (auto simp: same_outside_def reorders_def)
    have "same_outside (bufs ! k) (bufs3 ! k) off sz \<and> seg (bufs3 ! k) off sz = sort (seg ?a off sz)" if k: "k < 2" for k
    proof -
      have "same_outside (bufs1 ! k) (bufs3 ! k) off sz \<and> seg (bufs3 ! k) off sz = sort (seg c off sz)"
        by (rule both_parts [OF ni(1) len1 j agree _ _ _ q1(2) q2(2) k]) (use lc fits st in simp_all)
      then show ?thesis
        using same_outside_trans [OF out1 [OF k], of _ off sz off sz] sort_seg_reorders [OF st(3) fits] by auto
    qed
    then show ?thesis using run q2(2) by (auto simp: sorts_both_def)
  qed
qed

text \<open>C37: The sort over two boxes whose partitioners keep their contract returns 0 and leaves both
  buffers with the range of the first box sorted and everything outside of the range as it was, whatever
  the depth at which the boxes alternate: the copy to the next box before each recursion carries the
  whole range over.\<close>

theorem multi_qsort_sorts_both:
  assumes "\<forall>k<2. good_partition (partitions ! k)" and "i < 2" and "length buffers = 2"
    and "\<forall>k<2. off + sz \<le> length (buffers ! k)"
  shows "\<exists>buffers'. multi_qsort partitions i 2 buffers off sz = Some (0, buffers') \<and> length buffers' = 2 \<and>
    (\<forall>k<2. length (buffers' ! k) = length (buffers ! k) \<and>
       take sz (drop off (buffers' ! k)) = sort (take sz (drop off (buffers ! i))) \<and>
       (\<forall>x. x < off \<or> off + sz \<le> x \<longrightarrow> buffers' ! k ! x = buffers ! k ! x))"
  using multi_qsort_both [OF assms] by (auto simp: sorts_both_def same_outside_def seg_def)

theorem multi_qsort_sorts_both_witness:
  "\<exists>buffers'. multi_qsort [boxc_qsort_partition, boxc_qsort_partition] 0 2 [[9, 3, 1, 2], [0, 0, 0, 0]] 1 3 = Some (0, buffers') \<and>
     take 3 (drop 1 (buffers' ! 1)) = [1, 2, 3] \<and> buffers' ! 1 ! 0 = 0"
proof -
  have pair: "(\<forall>k<2. P (k::nat)) \<longleftrightarrow> P 0 \<and> P 1" for P by (auto simp: less_2_cases_iff)
  have "sort [3, 1, 2 :: u32] = [1, 2, 3]" by (simp add: word_le_nat_alt)
  then show ?thesis
    using multi_qsort_sorts_both [of "[boxc_qsort_partition, boxc_qsort_partition]" 0 "[[9, 3, 1, 2], [0, 0, 0, 0]]" 1 3]
      boxc_partition_good
    by (auto simp: pair)
qed

text \<open>The host takes the index of a box as it is: an index at the size of the range or past it is
  neither refused nor bounded, and the sort goes on with a size that wraps around.\<close>

lemma multi_qsort_trusts_index:
  assumes "sz \<noteq> 0" and "(partitions ! i) (buffers ! i) off (sz - 1) (buffers ! i ! (off + sz - 1)) = (b, j)"
    and "int sz \<le> j"
  shows "multi_qsort partitions i cnt buffers off sz = None"
  using assms by (subst multi_qsort.simps) simp

text \<open>An error of a box ends the sort and is the sort's result.\<close>

lemma multi_qsort_passes_error:
  assumes "sz \<noteq> 0" and "(partitions ! i) (buffers ! i) off (sz - 1) (buffers ! i ! (off + sz - 1)) = (b, j)"
    and "j < 0"
  shows "multi_qsort partitions i cnt buffers off sz = Some (j, buffers[i := b])"
  using assms by (subst multi_qsort.simps) simp

end
