(* ===== verification/WasmHeap.thy ===== *)
theory WasmHeap
  imports BoxErrors "HOL-Library.Monad_Syntax"
begin

text \<open>
  The heap of a WebAssembly box (examples/awsm-littlefs/lfsbox/bb.c): \<^verbatim>\<open>__wrap_malloc\<close>,
  \<^verbatim>\<open>__wrap_free\<close>, \<^verbatim>\<open>__wrap_calloc\<close> and \<^verbatim>\<open>__wrap_realloc\<close>. The heap is the list of its words from
  \<^verbatim>\<open>__heap_start\<close> to \<^verbatim>\<open>__heap_end\<close>, a word pointer is an index into it, NULL is \<open>None\<close>. A block of
  \<open>n\<close> words has its size in front of and behind them, with the top bit set when it is used.

  A result is \<open>None\<close> when the code leaves the heap, \<open>Inl err\<close> when it ends in
  \<^verbatim>\<open>__box_abort(err)\<close>, otherwise \<open>Inr\<close>.
\<close>

type_synonym heap = "u32 list"
type_synonym 'a heap_res = "(int + 'a) option"

definition rd :: "heap \<Rightarrow> nat \<Rightarrow> u32 option" where
  "rd h i = (if i < length h then Some (h ! i) else None)"

definition wr :: "heap \<Rightarrow> nat \<Rightarrow> u32 \<Rightarrow> heap option" where
  "wr h i v = (if i < length h then Some (h[i := v]) else None)"

definition block_words :: "u32 \<Rightarrow> nat" where
  "block_words psize = unat (psize AND 0x7fffffff)"

subsection \<open>The code\<close>

definition HEAP_SIZE :: nat where
  "HEAP_SIZE = 16384"

text \<open>The first call of \<^verbatim>\<open>malloc\<close> makes one free block of the heap.\<close>

definition heap_setup :: "heap \<Rightarrow> heap option" where
  "heap_setup h = do {
     h \<leftarrow> wr h 0 (word_of_nat (HEAP_SIZE div 4 - 2));
     wr h (length h - 1) (word_of_nat (HEAP_SIZE div 4 - 2)) }"

text \<open>Splitting a block whose size is at least \<open>n + 2\<close> words, and marking it.\<close>

definition malloc_split :: "heap \<Rightarrow> nat \<Rightarrow> u32 \<Rightarrow> u32 \<Rightarrow> (heap \<times> u32) option" where
  "malloc_split h ptr psize n =
     (if psize \<ge> n + 2 then do {
        h \<leftarrow> wr h (ptr + unat (n + 2)) (psize - (n + 2));
        h \<leftarrow> wr h (ptr + (unat psize + 2 - 1)) (psize - (n + 2));
        h \<leftarrow> wr h ptr n;
        h \<leftarrow> wr h (ptr + (unat (n + 2) - 1)) n;
        Some (h, n) }
      else Some (h, psize))"

definition malloc_mark :: "heap \<Rightarrow> nat \<Rightarrow> u32 \<Rightarrow> u32 \<Rightarrow> heap option" where
  "malloc_mark h ptr psize n = do {
     h \<leftarrow> wr h ptr (psize OR 0x80000000);
     wr h (ptr + (unat (n + 2) - 1)) (psize OR 0x80000000) }"

function malloc_loop :: "heap \<Rightarrow> u32 \<Rightarrow> nat \<Rightarrow> (nat option \<times> heap) heap_res" where
  "malloc_loop h n ptr =
     (if ptr < length h then
        let psize = h ! ptr in
        (case rd h (ptr + (block_words psize + 2 - 1)) of
           None \<Rightarrow> None
         | Some foot \<Rightarrow>
             if psize \<noteq> foot then Some (Inl (fail_with EFAULT))
             else if sint psize \<ge> sint n then do {
               (h, psize) \<leftarrow> malloc_split h ptr psize n;
               h \<leftarrow> malloc_mark h ptr psize n;
               Some (Inr (Some (ptr + 1), h)) }
             else malloc_loop h n (ptr + (block_words psize + 2)))
      else Some (Inr (None, h)))"
  by auto
termination by (relation "measure (\<lambda>(h, n, ptr). length h - ptr)") auto

declare malloc_loop.simps [simp del]

text \<open>The heap of a box with \<^verbatim>\<open>__heap_start\<close>: whether it is set, and the words from
  \<^verbatim>\<open>__heap_end - HEAP_SIZE/4\<close> to \<^verbatim>\<open>__heap_end\<close>, the end of the linear memory.\<close>

record wasm_heap =
  started :: bool
  words :: heap

definition wrap_malloc :: "wasm_heap \<Rightarrow> u32 \<Rightarrow> (nat option \<times> wasm_heap) heap_res" where
  "wrap_malloc s sz = do {
     h \<leftarrow> (if started s then Some (words s) else heap_setup (words s));
     let n = (sz + 3) div 4;
     r \<leftarrow> malloc_loop h n 0;
     Some (map_sum id (\<lambda>(p, h). (p, \<lparr>started = True, words = h\<rparr>)) r) }"

text \<open>The coalescing loop of \<^verbatim>\<open>free\<close>.\<close>

function free_coalesce :: "heap \<Rightarrow> nat \<Rightarrow> nat \<Rightarrow> (nat \<times> nat) option" where
  "free_coalesce h ptr psize =
     (if ptr > 1 \<and> ptr - 1 < length h \<and> sint (h ! (ptr - 1)) \<ge> 0 then
        (if unat (h ! (ptr - 1)) + 2 \<le> ptr
         then free_coalesce h (ptr - (unat (h ! (ptr - 1)) + 2)) (psize + (unat (h ! (ptr - 1)) + 2))
         else None)
      else if ptr + (psize + 2) < length h \<and> sint (h ! (ptr + (psize + 2))) \<ge> 0 then
        free_coalesce h ptr (psize + (unat (h ! (ptr + (psize + 2))) + 2))
      else Some (ptr, psize))"
  by auto
termination
  by (relation "measure (\<lambda>(h, ptr, psize). ptr + (length h - (ptr + psize)))") auto

declare free_coalesce.simps [simp del]

text \<open>\<^verbatim>\<open>free\<close> of a pointer before the first \<^verbatim>\<open>malloc\<close> has no heap to walk: it is \<open>None\<close>.\<close>

definition wrap_free :: "wasm_heap \<Rightarrow> nat option \<Rightarrow> wasm_heap heap_res" where
  "wrap_free s pptr =
     (case pptr of
        None \<Rightarrow> Some (Inr s)
      | Some p \<Rightarrow>
          if \<not> started s \<or> p = 0 then None
          else do {
            let h = words s;
            let ptr = p - 1;
            psize \<leftarrow> rd h ptr;
            foot \<leftarrow> rd h (ptr + (block_words psize + 2 - 1));
            if psize \<noteq> foot then Some (Inl (fail_with EFAULT))
            else do {
              (ptr, psize) \<leftarrow> free_coalesce h ptr (block_words psize);
              h \<leftarrow> wr h ptr (word_of_nat psize);
              h \<leftarrow> wr h (ptr + (psize + 2 - 1)) (word_of_nat psize);
              Some (Inr (s\<lparr>words := h\<rparr>)) } })"

text \<open>\<^verbatim>\<open>memset(ptr, 0, k)\<close> and \<^verbatim>\<open>memmove(d, s, k)\<close> of \<open>k\<close> bytes at word positions of the
  little-endian heap: whole words, then the low bytes of the word that is left over.\<close>

fun clear_bytes :: "heap \<Rightarrow> nat \<Rightarrow> nat \<Rightarrow> heap option" where
  "clear_bytes h i k =
     (if k = 0 then Some h
      else if length h \<le> i then None
      else if k < 4 then Some (h[i := h ! i AND NOT (mask (8 * k))])
      else clear_bytes (h[i := 0]) (i + 1) (k - 4))"

declare clear_bytes.simps [simp del]

definition move_bytes :: "heap \<Rightarrow> nat \<Rightarrow> nat \<Rightarrow> nat \<Rightarrow> heap option" where
  "move_bytes h d s k =
     (if 4 * d + k \<le> 4 * length h \<and> 4 * s + k \<le> 4 * length h then
        Some (map (\<lambda>i. if d \<le> i \<and> i < d + k div 4 then h ! (s + (i - d))
                       else if i = d + k div 4 \<and> k mod 4 \<noteq> 0 then
                         (h ! i AND NOT (mask (8 * (k mod 4)))) OR (h ! (s + (i - d)) AND mask (8 * (k mod 4)))
                       else h ! i) [0..<length h])
      else None)"

text \<open>\<^verbatim>\<open>calloc\<close> clears what \<^verbatim>\<open>malloc\<close> returned, NULL as well: that is outside the heap.\<close>

definition wrap_calloc :: "wasm_heap \<Rightarrow> u32 \<Rightarrow> (nat option \<times> wasm_heap) heap_res" where
  "wrap_calloc s sz = do {
     r \<leftarrow> wrap_malloc s sz;
     case r of
       Inl e \<Rightarrow> Some (Inl e)
     | Inr (None, s) \<Rightarrow> if sz = 0 then Some (Inr (None, s)) else None
     | Inr (Some p, s) \<Rightarrow> do {
         h \<leftarrow> clear_bytes (words s) p (unat sz);
         Some (Inr (Some p, s\<lparr>words := h\<rparr>)) } }"

text \<open>\<^verbatim>\<open>realloc\<close> reads the header in front of the old block, used bit included, and moves as many
  bytes as this number says. From NULL it moves none.\<close>

definition wrap_realloc :: "wasm_heap \<Rightarrow> nat option \<Rightarrow> u32 \<Rightarrow> (nat option \<times> wasm_heap) heap_res" where
  "wrap_realloc s pptr sz = do {
     psize \<leftarrow> (case pptr of None \<Rightarrow> Some 0 | Some p \<Rightarrow> if p = 0 then None else rd (words s) (p - 1));
     r \<leftarrow> wrap_malloc s sz;
     case r of
       Inl e \<Rightarrow> Some (Inl e)
     | Inr (None, s) \<Rightarrow> Some (Inr (None, s))
     | Inr (Some q, s) \<Rightarrow> do {
         h \<leftarrow> (case pptr of None \<Rightarrow> Some (words s)
                           | Some p \<Rightarrow> move_bytes (words s) q p (unat psize));
         r \<leftarrow> wrap_free (s\<lparr>words := h\<rparr>) pptr;
         Some (map_sum id (\<lambda>s. (Some q, s)) r) } }"

end
