(* ===== verification/WasmHeapLayout.thy ===== *)
theory WasmHeapLayout
  imports WasmHeap
begin

text \<open>
  The heap as the list of its blocks. A block is whether it is used, and its words; \<open>lay bs\<close>
  are the words of the heap with the sizes around each block, \<open>blocks_of\<close> reads the blocks
  back. \<open>malloc_loop\<close> and \<open>wrap_free\<close> are functions of the blocks: first fit, and merging with
  all free neighbours.
\<close>

type_synonym block = "bool \<times> u32 list"

definition tag :: "block \<Rightarrow> u32" where
  "tag b = (if fst b then word_of_nat (length (snd b)) OR 0x80000000 else word_of_nat (length (snd b)))"

definition blk :: "block \<Rightarrow> u32 list" where
  "blk b = tag b # snd b @ [tag b]"

definition lay :: "block list \<Rightarrow> heap" where
  "lay bs = concat (map blk bs)"

function blocks_of :: "heap \<Rightarrow> block list option" where
  "blocks_of [] = Some []"
| "blocks_of (t # h) =
     (if block_words t < length h \<and> h ! block_words t = t
      then map_option ((#) (bit t 31, take (block_words t) h)) (blocks_of (drop (block_words t + 1) h))
      else None)"
  by pat_completeness auto
termination by (relation "measure length") auto

lemma lay_simps [simp]:
  "lay [] = []" "lay (b # bs) = blk b @ lay bs" "lay (as @ bs) = lay as @ lay bs"
  by (auto simp: lay_def)

lemma length_blk [simp]: "length (blk b) = length (snd b) + 2"
  by (simp add: blk_def)

subsection \<open>Tags\<close>

lemma tag_free: "tag (False, ws) = word_of_nat (length ws)"
  by (simp add: tag_def)

lemma tag_used: "tag (True, ws) = word_of_nat (length ws) OR 0x80000000"
  by (simp add: tag_def)

text \<open>The two constants of the code, bit by bit.\<close>

declare bit_numeral_word_iff [simp del]

lemma bit_top: "bit (0x80000000 :: u32) i \<longleftrightarrow> i = 31"
proof -
  have w: "(0x80000000 :: u32) = push_bit 31 1" by simp
  show ?thesis unfolding w bit_push_bit_iff by (auto simp: bit_1_iff)
qed

lemma bit_rest: "bit (0x7fffffff :: u32) i \<longleftrightarrow> i < 31"
proof -
  have w: "(0x7fffffff :: u32) = mask 31" by (simp add: mask_eq_exp_minus_1)
  show ?thesis unfolding w bit_mask_iff by auto
qed

lemma small_bits:
  assumes "n < 2 ^ 31" and "31 \<le> i"
  shows "\<not> bit (word_of_nat n :: u32) i"
proof -
  have "n < 2 ^ i" using assms by (meson less_le_trans one_le_numeral power_increasing)
  then have "\<not> bit n i" by (simp add: bit_iff_odd)
  then show ?thesis by (simp add: bit_of_nat_iff)
qed

lemma block_words_tag: "length (snd b) < 2 ^ 31 \<Longrightarrow> block_words (tag b) = length (snd b)"
proof -
  assume n: "length (snd b) < 2 ^ 31"
  have "bit (tag b AND 0x7fffffff) i = bit (word_of_nat (length (snd b)) :: u32) i" for i
    using small_bits [OF n, of i] by (cases "i < 31") (auto simp: tag_def bit_and_iff bit_or_iff bit_top bit_rest)
  then have "tag b AND 0x7fffffff = word_of_nat (length (snd b))"
    by (intro bit_word_eqI) blast
  then show ?thesis using n
    by (simp add: block_words_def unat_of_nat)
qed

lemma bit_tag: "length (snd b) < 2 ^ 31 \<Longrightarrow> bit (tag b) 31 = fst b"
  using small_bits [of "length (snd b)" 31]
  by (auto simp: tag_def bit_or_iff bit_top)

lemma sint_bit31: "sint (w :: u32) < 0 \<longleftrightarrow> bit w 31"
  using bit_last_iff [of w] by simp

lemma sint_tag_used: "fst b \<Longrightarrow> length (snd b) < 2 ^ 31 \<Longrightarrow> sint (tag b) < 0"
  by (simp add: sint_bit31 bit_tag)

lemma sint_of_small: "n < 2 ^ 31 \<Longrightarrow> sint (word_of_nat n :: u32) = int n"
  by (simp add: sint_eq_unat unat_of_nat)

lemma sint_tag_free: "\<not> fst b \<Longrightarrow> length (snd b) < 2 ^ 31 \<Longrightarrow> sint (tag b) = int (length (snd b))"
  by (simp add: tag_def sint_of_small)

lemma tag_sign: "length (snd b) < 2 ^ 31 \<Longrightarrow> 0 \<le> sint (tag b) \<longleftrightarrow> \<not> fst b"
  using sint_tag_used [of b] sint_tag_free [of b] by force

lemma block_words_less: "block_words t < 2 ^ 31"
proof -
  have w: "(0x7fffffff :: u32) = mask 31" by (simp add: mask_eq_exp_minus_1)
  show ?thesis unfolding block_words_def w unat_and_mask by simp
qed

lemma tag_of_word: "length ws = block_words t \<Longrightarrow> tag (bit t 31, ws) = t"
proof -
  assume l: "length ws = block_words t"
  have w: "word_of_nat (block_words t) = t AND 0x7fffffff"
    by (simp add: block_words_def)
  have "bit (tag (bit t 31, ws)) i = bit t i" if "i < 32" for i
    using that unfolding tag_def fst_conv snd_conv l w
    by (cases "i = 31") (auto simp: bit_and_iff bit_or_iff bit_top bit_rest)
  then show ?thesis by (intro bit_word_eqI) simp
qed

lemma blocks_of_lay:
  "\<forall>b\<in>set bs. length (snd b) < 2 ^ 31 \<Longrightarrow> blocks_of (lay bs) = Some bs"
  by (induction bs) (auto simp: blk_def block_words_tag bit_tag nth_append)

lemma lay_blocks_of:
  "blocks_of h = Some bs \<Longrightarrow> lay bs = h \<and> (\<forall>b\<in>set bs. length (snd b) < 2 ^ 31)"
proof (induction h arbitrary: bs rule: blocks_of.induct)
  case (2 t h)
  let ?k = "block_words t"
  from "2.prems" obtain cs where k: "?k < length h" "h ! ?k = t"
    and cs: "blocks_of (drop (?k + 1) h) = Some cs" "bs = (bit t 31, take ?k h) # cs"
    by (auto split: if_splits)
  have "lay cs = drop (?k + 1) h \<and> (\<forall>b\<in>set cs. length (snd b) < 2 ^ 31)"
    using "2.IH" k cs by blast
  moreover have "take ?k h @ t # drop (?k + 1) h = h"
    using k id_take_nth_drop [of ?k h] by simp
  moreover have "tag (bit t 31, take ?k h) = t"
    by (rule tag_of_word) (use k in simp)
  ultimately show ?case using k block_words_less [of t]
    by (simp add: cs(2) blk_def)
qed simp


declare bit_numeral_word_iff [simp]

subsection \<open>First fit\<close>

fun first_fit :: "nat \<Rightarrow> block list \<Rightarrow> (block list \<times> u32 list \<times> block list) option" where
  "first_fit n [] = None"
| "first_fit n ((u, ws) # bs) =
     (if \<not> u \<and> n \<le> length ws then Some ([], ws, bs)
      else map_option (\<lambda>(pre, v, post). ((u, ws) # pre, v, post)) (first_fit n bs))"

lemma first_fit_Some:
  "first_fit n bs = Some (pre, ws, post) \<Longrightarrow>
     bs = pre @ (False, ws) # post \<and> n \<le> length ws \<and> (\<forall>(u, v)\<in>set pre. u \<or> length v < n)"
  by (induction n bs arbitrary: pre rule: first_fit.induct) (auto split: if_splits)

lemma first_fit_None: "first_fit n bs = None \<Longrightarrow> \<forall>(u, v)\<in>set bs. u \<or> length v < n"
  by (induction n bs rule: first_fit.induct) (auto split: if_splits)

text \<open>What is left of the words of a free block after \<open>n\<close> of them are given out. With one word to
  spare there is no room for a block: the front gets the tag of the whole block, and so does the
  word \<open>n + 1\<close>, which is the last word of the block and not its end tag.\<close>

definition give :: "nat \<Rightarrow> u32 list \<Rightarrow> u32 list" where
  "give n ws =
     (if n + 2 \<le> length ws then blk (True, take n ws) @ blk (False, drop (n + 2) ws)
      else if length ws = n then blk (True, ws)
      else tag (True, ws) # (ws[n := tag (True, ws)]) @ [tag (False, ws)])"

lemma unat_plus_two: "unat n + 2 < 2 ^ 32 \<Longrightarrow> unat (n + 2) = unat n + 2" for n :: u32
  using unat_add_nat [of n 2] by simp

lemma wr_append:
  "length A \<le> j \<Longrightarrow> wr (A @ h) j y = map_option ((@) A) (wr h (j - length A) y)"
  by (simp add: wr_def list_update_append less_diff_conv2)

lemma wr_Cons: "0 < j \<Longrightarrow> wr (x # h) j y = map_option ((#) x) (wr h (j - 1) y)"
  by (cases j) (simp_all add: wr_def)

lemma wr_0: "wr (x # h) 0 y = Some (y # h)"
  by (simp add: wr_def)

lemmas wr_simps = wr_append wr_Cons wr_0

lemma malloc_split_blocks:
  assumes P: "length P = unat n" and w: "unat w = unat n + 2 + length Q"
    and s: "unat n + 4 + length Q < 2 ^ 31"
  shows "malloc_split (A @ w # P @ x # y # Q @ w # B) (length A) w n =
     Some (A @ n # P @ n # word_of_nat (length Q) # Q @ word_of_nat (length Q) # B, n)"
proof -
  have n2: "unat (n + 2) = unat n + 2"
    by (rule unat_plus_two) (use s in simp)
  have le: "n + 2 \<le> w" by (simp add: word_le_nat_alt n2 w)
  then have rest: "w - (n + 2) = word_of_nat (length Q)"
    by (simp add: word_unat_eq_iff unat_sub n2 w unat_of_nat) (use s in simp)
  show ?thesis
    by (simp add: malloc_split_def le rest n2 w wr_simps P)
qed

lemma malloc_mark_word:
  assumes P: "length P = unat n" and s: "unat n + 2 < 2 ^ 32"
  shows "malloc_mark (A @ x # P @ y # B) (length A) w n =
     Some (A @ (w OR 0x80000000) # P @ (w OR 0x80000000) # B)"
  using s by (simp add: malloc_mark_def unat_plus_two wr_simps P)

lemma malloc_split_not: "\<not> n + 2 \<le> w \<Longrightarrow> malloc_split h p w n = Some (h, w)"
  by (simp add: malloc_split_def)

lemma malloc_fits:
  assumes n: "unat n \<le> length ws" and s: "length ws + 2 < 2 ^ 31"
  shows "do { (h, psize) \<leftarrow> malloc_split (A @ blk (False, ws) @ B) (length A) (tag (False, ws)) n;
              malloc_mark h (length A) psize n } = Some (A @ give (unat n) ws @ B)"
proof -
  let ?k = "unat n" and ?w = "word_of_nat (length ws) :: u32"
  have uw: "unat ?w = length ws" using s by (simp add: unat_of_nat)
  have k: "word_of_nat ?k = n" by simp
  have n2: "unat (n + 2) = ?k + 2" by (rule unat_plus_two) (use n s in simp)
  consider (split) "?k + 2 \<le> length ws" | (exact) "length ws = ?k" | (spare) "length ws = ?k + 1"
    using n by linarith
  then show ?thesis
  proof cases
    case split
    obtain P x y Q where ws: "ws = P @ x # y # Q" "length P = ?k"
    proof
      show "ws = take ?k ws @ ws ! ?k # ws ! (?k + 1) # drop (?k + 2) ws"
        using split by (simp add: Cons_nth_drop_Suc)
      show "length (take ?k ws) = ?k" using split by simp
    qed
    have "malloc_split (A @ blk (False, ws) @ B) (length A) ?w n =
        Some (A @ n # P @ n # word_of_nat (length Q) # Q @ word_of_nat (length Q) # B, n)"
      using malloc_split_blocks [of P n ?w Q A x y B] ws s uw by (simp add: blk_def tag_free)
    moreover have "?k + 2 < 2 ^ 32" using s n by simp
    ultimately show ?thesis
      using malloc_mark_word [OF ws(2)] ws by (simp add: give_def blk_def tag_def k)
  next
    case exact
    have "\<not> n + 2 \<le> ?w" unfolding word_le_nat_alt uw n2 using exact by simp
    then show ?thesis
      using malloc_mark_word [of ws n A ?w ?w B] exact s
      by (simp add: malloc_split_not tag_free give_def blk_def tag_used)
  next
    case spare
    obtain P x where ws: "ws = P @ [x]" "length P = ?k"
      using spare by (metis One_nat_def add.commute length_append_singleton length_Suc_conv_rev plus_1_eq_Suc
        Suc_inject)
    have "\<not> n + 2 \<le> ?w" unfolding word_le_nat_alt uw n2 using spare by simp
    then show ?thesis
      using malloc_mark_word [of P n A ?w x "?w # B"] ws spare s
      by (simp add: malloc_split_not tag_def give_def blk_def list_update_append)
  qed
qed

lemma length_le_lay: "b \<in> set bs \<Longrightarrow> length (snd b) + 2 \<le> length (lay bs)"
  by (induction bs) auto

lemma read_tags:
  "length A = i \<Longrightarrow> (A @ blk b @ B) ! i = tag b"
  "length A + (length (snd b) + 1) = i \<Longrightarrow> (A @ blk b @ B) ! i = tag b"
  by (auto simp: blk_def nth_append)

lemma rd_append: "i < length A \<Longrightarrow> rd (A @ B) i = rd A i"
  by (simp add: rd_def nth_append)

lemma malloc_step:
  assumes b: "length (snd b) < 2 ^ 30" and n: "unat n \<le> 2 ^ 30"
  shows "malloc_loop (A @ blk b @ B) n (length A) =
     (if \<not> fst b \<and> unat n \<le> length (snd b)
      then Some (Inr (Some (length A + 1), A @ give (unat n) (snd b) @ B))
      else malloc_loop (A @ blk b @ B) n (length (A @ blk b)))"
proof -
  let ?h = "A @ blk b @ B"
  have here: "?h ! length A = tag b" by (rule read_tags) simp
  have foot: "rd ?h (length A + (block_words (tag b) + 2 - 1)) = Some (tag b)"
    using b by (simp add: rd_def block_words_tag read_tags(2))
  have sn: "sint n = int (unat n)" using n by (simp add: sint_eq_unat)
  have le: "uint n \<le> int (length (snd b)) \<longleftrightarrow> unat n \<le> length (snd b)"
    by (simp only: unat_eq_nat_uint nat_le_iff)
  have fits: "sint n \<le> sint (tag b) \<longleftrightarrow> \<not> fst b \<and> unat n \<le> length (snd b)"
  proof (cases "fst b")
    case True
    then have "sint (tag b) < 0" using b by (simp add: sint_tag_used)
    then show ?thesis using True sn by linarith
  next
    case False
    then show ?thesis using b le sn by (simp add: sint_tag_free)
  qed
  have "do { (h, psize) \<leftarrow> malloc_split ?h (length A) (tag b) n; malloc_mark h (length A) psize n }
      = Some (A @ give (unat n) (snd b) @ B)" if "\<not> fst b" "unat n \<le> length (snd b)"
    using malloc_fits [OF that(2), of A B] that(1) b by (cases b) simp
  then have take: "do { (h, psize) \<leftarrow> malloc_split ?h (length A) (tag b) n;
        h \<leftarrow> malloc_mark h (length A) psize n; Some (Inr (Some (length A + 1), h)) }
      = Some (Inr (Some (length A + 1), A @ give (unat n) (snd b) @ B))"
    if "\<not> fst b" "unat n \<le> length (snd b)"
    using that by (auto simp: bind_eq_Some_conv split: prod.splits)
  show ?thesis
    by (subst malloc_loop.simps)
      (use b here foot fits in \<open>simp add: Let_def block_words_tag\<close>, use take in auto)
qed

lemma malloc_loop_lay:
  assumes "length (lay (pre @ bs)) < 2 ^ 30" and "unat n \<le> 2 ^ 30"
  shows "malloc_loop (lay pre @ lay bs) n (length (lay pre)) =
     Some (Inr (case first_fit (unat n) bs of
         None \<Rightarrow> (None, lay (pre @ bs))
       | Some (as, ws, post) \<Rightarrow>
           (Some (length (lay (pre @ as)) + 1), lay (pre @ as) @ give (unat n) ws @ lay post)))"
  using assms
proof (induction bs arbitrary: pre)
  case Nil
  then show ?case by (simp add: malloc_loop.simps)
next
  case (Cons b bs)
  obtain u ws where b: "b = (u, ws)" by (cases b)
  have s: "length (snd b) < 2 ^ 30" using Cons.prems(1) by simp
  have IH: "malloc_loop (lay (pre @ [b]) @ lay bs) n (length (lay (pre @ [b]))) =
     Some (Inr (case first_fit (unat n) bs of
         None \<Rightarrow> (None, lay ((pre @ [b]) @ bs))
       | Some (as, ws, post) \<Rightarrow>
           (Some (length (lay ((pre @ [b]) @ as)) + 1), lay ((pre @ [b]) @ as) @ give (unat n) ws @ lay post)))"
    by (rule Cons.IH) (use Cons.prems in simp_all)
  show ?case
    using malloc_step [OF s Cons.prems(2), of "lay pre" "lay bs"] IH b
    by (auto split: option.splits)
qed

subsection \<open>Merging\<close>

lemma unat_tag_free: "\<not> fst b \<Longrightarrow> length (snd b) < 2 ^ 31 \<Longrightarrow> unat (tag b) = length (snd b)"
  by (simp add: tag_def unat_of_nat)

lemma last_word: "(A @ blk b @ B) ! (length (A @ blk b) - 1) = tag b"
  by (rule read_tags(2)) simp

lemma coalesce_back:
  assumes "\<not> fst b" and "length (snd b) < 2 ^ 31"
  shows "free_coalesce (A @ blk b @ B) (length (A @ blk b)) psize =
     free_coalesce (A @ blk b @ B) (length A) (psize + (length (snd b) + 2))"
  using assms last_word [of A b B]
  by (subst free_coalesce.simps) (simp add: sint_tag_free unat_tag_free)

definition closed_left :: "block list \<Rightarrow> bool" where
  "closed_left pre \<longleftrightarrow> pre = [] \<or> fst (last pre)"

definition closed_right :: "block list \<Rightarrow> bool" where
  "closed_right post \<longleftrightarrow> post = [] \<or> fst (hd post)"

lemma closed_left_stops:
  assumes "closed_left pre" and "length (lay pre) < 2 ^ 31"
  shows "\<not> (1 < length (lay pre) \<and> length (lay pre) - 1 < length (lay pre @ B) \<and>
              0 \<le> sint ((lay pre @ B) ! (length (lay pre) - 1)))"
proof (cases pre rule: rev_cases)
  case (snoc as b)
  have "(lay as @ blk b @ B) ! (length (lay as @ blk b) - 1) = tag b" by (rule last_word)
  then show ?thesis using snoc assms sint_tag_used [of b] by (simp add: closed_left_def)
qed simp

lemma coalesce_forward:
  assumes pre: "closed_left pre" and b: "\<not> fst b"
    and M: "length M = psize + 2" and s: "length (lay pre @ M @ blk b @ B) < 2 ^ 31"
  shows "free_coalesce (lay pre @ M @ blk b @ B) (length (lay pre)) psize =
     free_coalesce (lay pre @ M @ blk b @ B) (length (lay pre)) (psize + (length (snd b) + 2))"
proof -
  let ?h = "lay pre @ M @ blk b @ B"
  have stop: "\<not> (1 < length (lay pre) \<and> length (lay pre) - 1 < length ?h \<and>
      0 \<le> sint (?h ! (length (lay pre) - 1)))"
    by (rule closed_left_stops [OF pre]) (use s in simp)
  have "?h ! (length (lay pre) + (psize + 2)) = tag b"
    using read_tags(1) [of "lay pre @ M" "length (lay pre) + (psize + 2)" b B] M by simp
  then have h: "?h ! (length (lay pre) + (psize + 2)) = tag b"
    "0 \<le> sint (tag b)" "unat (tag b) = length (snd b)"
    "length (lay pre) + (psize + 2) < length ?h"
    using b s M by (simp_all add: sint_tag_free unat_tag_free)
  show ?thesis
    by (subst free_coalesce.simps, subst if_not_P [OF stop]) (use h in simp)
qed

lemma coalesce_stop:
  assumes pre: "closed_left pre" and post: "closed_right post"
    and M: "length M = psize + 2" and s: "length (lay pre @ M @ lay post) < 2 ^ 31"
  shows "free_coalesce (lay pre @ M @ lay post) (length (lay pre)) psize = Some (length (lay pre), psize)"
proof -
  let ?h = "lay pre @ M @ lay post"
  have left: "\<not> (1 < length (lay pre) \<and> length (lay pre) - 1 < length ?h \<and>
      0 \<le> sint (?h ! (length (lay pre) - 1)))"
    by (rule closed_left_stops [OF pre]) (use s in simp)
  have right: "\<not> (length (lay pre) + (psize + 2) < length ?h \<and>
      0 \<le> sint (?h ! (length (lay pre) + (psize + 2))))"
  proof (cases post)
    case (Cons b bs)
    have "?h ! (length (lay pre) + (psize + 2)) = tag b"
      using read_tags(1) [of "lay pre @ M" "length (lay pre) + (psize + 2)" b "lay bs"] M Cons by simp
    then show ?thesis using Cons post s sint_tag_used [of b] by (simp add: closed_right_def)
  qed (use M in simp)
  show ?thesis
    by (subst free_coalesce.simps, subst if_not_P [OF left], subst if_not_P [OF right]) simp
qed

lemma coalesce_forward_all:
  assumes "closed_left pre" and "closed_right post" and "\<forall>b\<in>set gs. \<not> fst b"
    and "length M = psize + 2" and "length (lay pre @ M @ lay (gs @ post)) < 2 ^ 31"
  shows "free_coalesce (lay pre @ M @ lay (gs @ post)) (length (lay pre)) psize =
     Some (length (lay pre), psize + length (lay gs))"
  using assms
proof (induction gs arbitrary: M psize)
  case Nil
  then show ?case using coalesce_stop by simp
next
  case (Cons g gs)
  have "free_coalesce (lay pre @ M @ blk g @ lay (gs @ post)) (length (lay pre)) psize =
      free_coalesce (lay pre @ M @ blk g @ lay (gs @ post)) (length (lay pre)) (psize + (length (snd g) + 2))"
    by (rule coalesce_forward) (use Cons.prems in simp_all)
  moreover have "free_coalesce (lay pre @ (M @ blk g) @ lay (gs @ post)) (length (lay pre))
        (psize + (length (snd g) + 2)) =
      Some (length (lay pre), psize + (length (snd g) + 2) + length (lay gs))"
    by (rule Cons.IH) (use Cons.prems in simp_all)
  ultimately show ?case by simp
qed

lemma coalesce_all:
  assumes "closed_left pre" and "closed_right post"
    and "\<forall>b\<in>set fs. \<not> fst b" and "\<forall>b\<in>set gs. \<not> fst b"
    and "length M = psize + 2" and "length (lay (pre @ fs) @ M @ lay (gs @ post)) < 2 ^ 31"
  shows "free_coalesce (lay (pre @ fs) @ M @ lay (gs @ post)) (length (lay (pre @ fs))) psize =
     Some (length (lay pre), psize + length (lay fs) + length (lay gs))"
  using assms(3,5,6)
proof (induction fs arbitrary: M psize rule: rev_induct)
  case Nil
  then show ?case using coalesce_forward_all assms by simp
next
  case (snoc f fs)
  have "free_coalesce (lay (pre @ fs) @ blk f @ M @ lay (gs @ post)) (length (lay (pre @ fs) @ blk f)) psize =
      free_coalesce (lay (pre @ fs) @ blk f @ M @ lay (gs @ post)) (length (lay (pre @ fs)))
        (psize + (length (snd f) + 2))"
    by (rule coalesce_back) (use snoc.prems in simp_all)
  moreover have "free_coalesce (lay (pre @ fs) @ (blk f @ M) @ lay (gs @ post)) (length (lay (pre @ fs)))
        (psize + (length (snd f) + 2)) =
      Some (length (lay pre), psize + (length (snd f) + 2) + length (lay fs) + length (lay gs))"
    by (rule snoc.IH) (use snoc.prems in simp_all)
  ultimately show ?case by simp
qed

lemma ends_of:
  assumes "2 \<le> length M"
  shows "\<exists>x y. M = x # tl (butlast M) @ [y]"
proof -
  obtain x M' where M: "M = x # M'" "M' \<noteq> []"
    using assms by (cases M) (auto simp: Suc_le_eq)
  then have "M = x # butlast M' @ [last M']" by simp
  then show ?thesis using M by (metis butlast.simps(2) list.sel(3))
qed

definition merged :: "block list \<Rightarrow> block" where
  "merged bs = (False, tl (butlast (lay bs)))"

lemma length_merged: "bs \<noteq> [] \<Longrightarrow> length (snd (merged bs)) + 2 = length (lay bs)"
  by (cases bs) (auto simp: merged_def)

lemma wrap_free_lay:
  assumes s: "started s" "words s = lay (pre @ fs) @ blk (True, ws) @ lay (gs @ post)"
    and fs: "\<forall>b\<in>set fs. \<not> fst b" and gs: "\<forall>b\<in>set gs. \<not> fst b"
    and cl: "closed_left pre" "closed_right post" and len: "length (words s) < 2 ^ 31"
  shows "wrap_free s (Some (length (lay (pre @ fs)) + 1)) =
     Some (Inr (s\<lparr>words := lay (pre @ merged (fs @ (True, ws) # gs) # post)\<rparr>))"
proof -
  let ?b = "(True, ws)" and ?m = "fs @ (True, ws) # gs" and ?ptr = "length (lay (pre @ fs))"
  let ?k = "length ws + length (lay fs) + length (lay gs)" and ?h = "words s"
  have k: "?k = length (snd (merged ?m))" using length_merged [of ?m] by simp
  have small: "length ws < 2 ^ 31" using len s by simp
  have here: "rd ?h ?ptr = Some (tag ?b)"
    using read_tags(1) [of "lay (pre @ fs)" ?ptr ?b "lay (gs @ post)"] s by (simp add: rd_def)
  have foot: "rd ?h (?ptr + (length ws + 2 - 1)) = Some (tag ?b)"
    using read_tags(2) [of "lay (pre @ fs)" ?b "?ptr + (length ws + 2 - 1)" "lay (gs @ post)"] s
    by (simp add: rd_def)
  have coal: "free_coalesce ?h ?ptr (length ws) = Some (length (lay pre), ?k)"
    unfolding s(2) by (rule coalesce_all) (use assms in simp_all)
  obtain x y where m: "lay ?m = x # snd (merged ?m) @ [y]"
    using ends_of [of "lay ?m"] unfolding merged_def by auto
  have h: "?h = lay pre @ x # snd (merged ?m) @ y # lay post"
    using m by (simp add: s(2) del: lay_simps(2)) (simp add: lay_simps(3) [symmetric] del: lay_simps(3))
  have "do { h \<leftarrow> wr ?h (length (lay pre)) (word_of_nat ?k);
             wr h (length (lay pre) + (?k + 2 - 1)) (word_of_nat ?k) }
      = Some (lay pre @ blk (merged ?m) @ lay post)"
    unfolding k h by (simp add: wr_simps blk_def tag_def) (simp add: merged_def)
  then show ?thesis
    using s(1) here foot coal block_words_tag [of ?b] small
    by (auto simp: wrap_free_def bind_eq_Some_conv)
qed

end
