(* ===== verification/WasmHeapProps.thy ===== *)
theory WasmHeapProps
  imports WasmHeapLayout
begin

text \<open>
  What the heap of a WebAssembly box promises. \<open>live\<close> are the blocks that are given out, with
  their contents. As long as every request is an even number of words, \<^verbatim>\<open>malloc\<close> and \<^verbatim>\<open>free\<close> are
  an \<open>allocator\<close>: blocks are disjoint, large enough, and keep their contents. With an odd
  request there can be one word to spare, and then the heap is corrupt.
\<close>

fun allocs :: "nat \<Rightarrow> block list \<Rightarrow> (nat \<times> u32 list) list" where
  "allocs i [] = []"
| "allocs i ((u, ws) # bs) = (if u then [(i + 1, ws)] else []) @ allocs (i + length ws + 2) bs"

definition live :: "wasm_heap \<Rightarrow> (nat \<times> u32 list) set" where
  "live s = (if started s then (case blocks_of (words s) of None \<Rightarrow> {} | Some bs \<Rightarrow> set (allocs 0 bs)) else {})"

definition heap_ok :: "wasm_heap \<Rightarrow> bool" where
  "heap_ok s \<longleftrightarrow> length (words s) = HEAP_SIZE div 4 \<and>
     (started s \<longrightarrow> (case blocks_of (words s) of None \<Rightarrow> False
                                              | Some bs \<Rightarrow> list_all (\<lambda>b. even (length (snd b))) bs))"

definition asked :: "u32 \<Rightarrow> nat" where
  "asked sz = unat ((sz + 3) div 4)"

definition even_request :: "u32 \<Rightarrow> bool" where
  "even_request sz \<longleftrightarrow> even (asked sz) \<and> sz \<le> 0xfffffffc"

subsection \<open>Given out blocks and the layout\<close>

lemma allocs_append: "allocs i (as @ bs) = allocs i as @ allocs (i + length (lay as)) bs"
  by (induction i as rule: allocs.induct) (simp_all add: ac_simps)

lemma allocs_free: "\<forall>b\<in>set bs. \<not> fst b \<Longrightarrow> allocs i bs = []"
  by (induction i bs rule: allocs.induct) auto

lemma allocs_range:
  "(p, ws) \<in> set (allocs i bs) \<Longrightarrow> i < p \<and> p + length ws < i + length (lay bs)"
  by (induction i bs rule: allocs.induct) (auto split: if_splits)

lemma allocs_split:
  "(p, ws) \<in> set (allocs i bs) \<Longrightarrow>
     \<exists>A B. bs = A @ (True, ws) # B \<and> p = i + length (lay A) + 1"
proof (induction i bs rule: allocs.induct)
  case (2 i u vs bs)
  then consider "u" "p = i + 1" "ws = vs" | "(p, ws) \<in> set (allocs (i + length vs + 2) bs)"
    by (auto split: if_splits)
  then show ?case
  proof cases
    case 1
    then show ?thesis by (intro exI [of _ "[]"] exI [of _ bs]) auto
  next
    case 2
    then obtain A B where "bs = A @ (True, ws) # B" "p = i + length vs + 2 + length (lay A) + 1"
      using "2.IH" by blast
    then show ?thesis by (intro exI [of _ "(u, vs) # A"] exI [of _ B]) auto
  qed
qed simp

lemma allocs_disjoint:
  assumes "(p, ws) \<in> set (allocs i bs)" and "(q, vs) \<in> set (allocs i bs)" and "(p, ws) \<noteq> (q, vs)"
  shows "p + length ws < q \<or> q + length vs < p"
proof -
  obtain A B where bs: "bs = A @ (True, ws) # B" and p: "p = i + length (lay A) + 1"
    using allocs_split [OF assms(1)] by blast
  have "(q, vs) \<in> set (allocs i A) \<or> (q, vs) \<in> set (allocs (i + length (lay A) + length ws + 2) B)"
    using assms(2,3) by (auto simp: bs p allocs_append ac_simps)
  then show ?thesis
    using allocs_range [of q vs i A] allocs_range [of q vs _ B] p by fastforce
qed

lemma allocs_contents:
  "(p, ws) \<in> set (allocs 0 bs) \<Longrightarrow> take (length ws) (drop p (lay bs)) = ws"
  using allocs_split [of p ws 0 bs] by (auto simp: blk_def)

lemma closed_split_left: "\<exists>pre fs. A = pre @ fs \<and> closed_left pre \<and> (\<forall>b\<in>set fs. \<not> fst b)"
proof (induction A rule: rev_induct)
  case (snoc b A)
  then obtain pre fs where A: "A = pre @ fs" "closed_left pre" "\<forall>b\<in>set fs. \<not> fst b" by blast
  show ?case
  proof (cases "fst b")
    case True
    then show ?thesis by (intro exI [of _ "A @ [b]"] exI [of _ "[]"]) (simp add: closed_left_def)
  next
    case False
    then show ?thesis using A by (intro exI [of _ pre] exI [of _ "fs @ [b]"]) auto
  qed
qed (simp add: closed_left_def)

lemma closed_split_right: "\<exists>gs post. B = gs @ post \<and> closed_right post \<and> (\<forall>b\<in>set gs. \<not> fst b)"
proof (induction B)
  case (Cons b B)
  then obtain gs post where B: "B = gs @ post" "closed_right post" "\<forall>b\<in>set gs. \<not> fst b" by blast
  show ?case
  proof (cases "fst b")
    case True
    then show ?thesis by (intro exI [of _ "[]"] exI [of _ "b # B"]) (simp add: closed_right_def)
  next
    case False
    then show ?thesis using B by (intro exI [of _ "b # gs"] exI [of _ post]) auto
  qed
qed (simp add: closed_right_def)

subsection \<open>The operations\<close>

lemma asked_bound: "asked sz \<le> 2 ^ 30"
  using unat_u32_less [of "sz + 3"] by (simp add: asked_def unat_div)

lemma asked_enough: "sz \<le> 0xfffffffc \<Longrightarrow> unat sz \<le> 4 * asked sz"
proof -
  assume "sz \<le> 0xfffffffc"
  then have "unat sz \<le> 4294967292" by (simp add: word_le_nat_alt)
  then have "unat (sz + 3) = unat sz + 3" using unat_add_nat [of sz 3] by simp
  then show ?thesis by (simp add: asked_def unat_div)
qed

lemma small_blocks: "length (lay bs) < 2 ^ 30 \<Longrightarrow> \<forall>b\<in>set bs. length (snd b) < 2 ^ 31"
  using length_le_lay by fastforce

lemma blocks_of_lay_small: "length (lay bs) < 2 ^ 30 \<Longrightarrow> blocks_of (lay bs) = Some bs"
  by (rule blocks_of_lay [OF small_blocks])

lemma live_lay:
  "started s \<Longrightarrow> words s = lay bs \<Longrightarrow> length (lay bs) < 2 ^ 30 \<Longrightarrow> live s = set (allocs 0 bs)"
  by (simp add: live_def blocks_of_lay_small)

lemma wrap_malloc_lay:
  assumes "started s" and "words s = lay bs" and "length (lay bs) < 2 ^ 30"
  shows "wrap_malloc s sz = Some (Inr (case first_fit (asked sz) bs of
       None \<Rightarrow> (None, s)
     | Some (pre, ws, post) \<Rightarrow>
         (Some (length (lay pre) + 1), s\<lparr>words := lay pre @ give (asked sz) ws @ lay post\<rparr>)))"
  using assms malloc_loop_lay [of "[]" bs "(sz + 3) div 4"] asked_bound [of sz]
  by (cases s) (simp add: wrap_malloc_def Let_def asked_def split: option.splits)

text \<open>The first \<^verbatim>\<open>malloc\<close> finds one free block.\<close>

lemma heap_setup_lay:
  assumes "length h = HEAP_SIZE div 4"
  shows "heap_setup h = Some (lay [(False, tl (butlast h))])"
proof -
  obtain x y where h: "h = x # tl (butlast h) @ [y]"
    using ends_of [of h] assms by (auto simp: HEAP_SIZE_def)
  have l: "length (tl (butlast h)) = 4094" using assms by (simp add: HEAP_SIZE_def)
  have "heap_setup (x # v @ [y]) = Some (lay [(False, v)])" if "length v = 4094" for v
    using that by (simp add: heap_setup_def wr_simps blk_def tag_def HEAP_SIZE_def)
  then show ?thesis using l h by metis
qed

lemma give_lay:
  assumes "n \<le> length ws" and "length ws \<noteq> n + 1"
  shows "\<exists>cs. give n ws = lay ((True, take n ws) # cs) \<and> (\<forall>b\<in>set cs. \<not> fst b) \<and>
    (even n \<longrightarrow> even (length ws) \<longrightarrow> (\<forall>b\<in>set cs. even (length (snd b)))) \<and>
    length (lay ((True, take n ws) # cs)) = length ws + 2"
proof (cases "n + 2 \<le> length ws")
  case True
  then show ?thesis by (intro exI [of _ "[(False, drop (n + 2) ws)]"]) (auto simp: give_def)
next
  case False
  then have "length ws = n" using assms by simp
  then show ?thesis by (intro exI [of _ "[]"]) (auto simp: give_def)
qed

lemma started_ok:
  assumes "heap_ok s" and "started s"
  obtains bs where "words s = lay bs" and "\<forall>b\<in>set bs. even (length (snd b))"
    and "length (lay bs) = HEAP_SIZE div 4" and "length (lay bs) < 2 ^ 30" and "live s = set (allocs 0 bs)"
proof -
  obtain bs where bs: "blocks_of (words s) = Some bs" "list_all (\<lambda>b. even (length (snd b))) bs"
    using assms by (auto simp: heap_ok_def split: option.splits)
  have w: "words s = lay bs" using lay_blocks_of [OF bs(1)] by simp
  show ?thesis
  proof
    show "words s = lay bs" by (fact w)
    show "\<forall>b\<in>set bs. even (length (snd b))" using bs(2) by (simp add: list_all_iff)
    show "length (lay bs) = HEAP_SIZE div 4" using assms(1) w by (simp add: heap_ok_def)
    show "length (lay bs) < 2 ^ 30" using assms(1) w by (simp add: heap_ok_def HEAP_SIZE_def)
    show "live s = set (allocs 0 bs)" using bs(1) assms(2) by (simp add: live_def)
  qed
qed

lemma ok_of_lay:
  assumes "words s = lay bs" and "length (lay bs) = HEAP_SIZE div 4" and "\<forall>b\<in>set bs. even (length (snd b))"
  shows "heap_ok s"
  using assms blocks_of_lay_small [of bs] by (simp add: heap_ok_def list_all_iff HEAP_SIZE_def)

lemma malloc_started:
  assumes ok: "heap_ok s" "started s" and rq: "even_request sz"
  shows "\<exists>r s'. wrap_malloc s sz = Some (Inr (r, s')) \<and> heap_ok s' \<and>
     (case r of None \<Rightarrow> live s' = live s
      | Some p \<Rightarrow> p \<notin> fst ` live s \<and>
          (\<exists>ws. unat sz \<le> 4 * length ws \<and> live s' = insert (p, ws) (live s)))"
proof -
  obtain bs where bs: "words s = lay bs" "\<forall>b\<in>set bs. even (length (snd b))"
    "length (lay bs) = HEAP_SIZE div 4" "length (lay bs) < 2 ^ 30" "live s = set (allocs 0 bs)"
    using started_ok [OF ok] by blast
  show ?thesis
  proof (cases "first_fit (asked sz) bs")
    case None
    then show ?thesis using wrap_malloc_lay [OF ok(2) bs(1,4), of sz] ok by simp
  next
    case (Some t)
    obtain pre ws post where t: "t = (pre, ws, post)" by (cases t)
    have fit: "bs = pre @ (False, ws) # post" "asked sz \<le> length ws"
      using first_fit_Some [of "asked sz" bs pre ws post] Some t by auto
    have ev: "even (length ws)" "even (asked sz)" using bs(2) fit(1) rq by (auto simp: even_request_def)
    then have "length ws \<noteq> asked sz + 1" by auto
    then obtain cs where cs: "give (asked sz) ws = lay ((True, take (asked sz) ws) # cs)"
      "\<forall>b\<in>set cs. \<not> fst b" "\<forall>b\<in>set cs. even (length (snd b))"
      "length (lay ((True, take (asked sz) ws) # cs)) = length ws + 2"
      using give_lay [OF fit(2)] ev by blast
    let ?u = "(True, take (asked sz) ws)" and ?p = "length (lay pre) + 1"
    let ?bs = "pre @ (?u # cs) @ post"
    have lu: "length (take (asked sz) ws) = asked sz" using fit by simp
    have m: "wrap_malloc s sz = Some (Inr (Some ?p, s\<lparr>words := lay ?bs\<rparr>))"
      using wrap_malloc_lay [OF ok(2) bs(1,4), of sz] Some t cs(1) by simp
    have l: "length (lay ?bs) = length (lay bs)" using cs(4) fit(1) by simp
    have al: "allocs 0 ?bs = allocs 0 pre @ (?p, snd ?u) # allocs (length (lay pre) + length ws + 2) post"
    proof -
      have "length (lay pre) + (length (snd ?u) + 2) + length (lay cs) = length (lay pre) + length ws + 2"
        using cs(4) by simp
      then show ?thesis
        by (simp add: allocs_append allocs_free [OF cs(2)] add.assoc del: length_take)
    qed
    have old: "allocs 0 bs = allocs 0 pre @ allocs (length (lay pre) + length ws + 2) post"
      by (simp add: fit(1) allocs_append ac_simps)
    have "heap_ok (s\<lparr>words := lay ?bs\<rparr>)"
      by (rule ok_of_lay [of _ ?bs]) (use bs l cs ev lu fit in auto)
    moreover have "live (s\<lparr>words := lay ?bs\<rparr>) = insert (?p, snd ?u) (live s)"
      using live_lay [of "s\<lparr>words := lay ?bs\<rparr>" ?bs] ok bs l al old by simp
    moreover have "?p \<notin> fst ` live s"
      using allocs_range [of ?p _ 0 pre] allocs_range [of ?p _ "length (lay pre) + length ws + 2" post]
      unfolding bs(5) old by fastforce
    moreover have "unat sz \<le> 4 * length (snd ?u)"
      using asked_enough rq lu by (simp add: even_request_def)
    ultimately show ?thesis using m
      by (intro exI [of _ "Some ?p"] exI [of _ "s\<lparr>words := lay ?bs\<rparr>"])
        (auto intro!: exI [of _ "snd ?u"] simp del: length_take)
  qed
qed

lemma malloc_keeps_ok:
  assumes ok: "heap_ok s" and rq: "even_request sz"
  shows "\<exists>r s'. wrap_malloc s sz = Some (Inr (r, s')) \<and> heap_ok s' \<and>
     (case r of None \<Rightarrow> live s' = live s
      | Some p \<Rightarrow> p \<notin> fst ` live s \<and>
          (\<exists>ws. unat sz \<le> 4 * length ws \<and> live s' = insert (p, ws) (live s)))"
proof (cases "started s")
  case True
  then show ?thesis using malloc_started assms by blast
next
  case False
  let ?bs = "[(False, tl (butlast (words s)))]"
  let ?t = "\<lparr>started = True, words = lay ?bs\<rparr>"
  have l: "length (words s) = HEAP_SIZE div 4" using ok by (simp add: heap_ok_def)
  have t: "heap_ok ?t" by (rule ok_of_lay [of _ ?bs]) (use l in \<open>simp_all add: HEAP_SIZE_def\<close>)
  have lt: "live ?t = live s"
    using live_lay [of ?t ?bs] l False by (simp add: HEAP_SIZE_def live_def [of s])
  have m: "wrap_malloc s sz = wrap_malloc ?t sz"
    using heap_setup_lay [OF l] False by (simp add: wrap_malloc_def)
  have st: "started ?t" by simp
  show ?thesis unfolding m using malloc_started [OF t st rq] unfolding lt .
qed

lemma free_keeps_ok:
  assumes ok: "heap_ok s" and lv: "(p, ws) \<in> live s"
  shows "\<exists>s'. wrap_free s (Some p) = Some (Inr s') \<and> heap_ok s' \<and> live s' = live s - {(p, ws)}"
proof -
  have st: "started s" using lv by (auto simp: live_def split: if_splits)
  obtain bs where bs: "words s = lay bs" "\<forall>b\<in>set bs. even (length (snd b))"
    "length (lay bs) = HEAP_SIZE div 4" "length (lay bs) < 2 ^ 30" "live s = set (allocs 0 bs)"
    using started_ok [OF ok st] by blast
  obtain A B where AB: "bs = A @ (True, ws) # B" "p = length (lay A) + 1"
    using allocs_split [of p ws 0 bs] lv bs(5) by auto
  obtain pre fs where A: "A = pre @ fs" "closed_left pre" "\<forall>b\<in>set fs. \<not> fst b"
    using closed_split_left by blast
  obtain gs post where B: "B = gs @ post" "closed_right post" "\<forall>b\<in>set gs. \<not> fst b"
    using closed_split_right by blast
  let ?m = "fs @ (True, ws) # gs"
  let ?bs = "pre @ merged ?m # post"
  have f: "wrap_free s (Some p) = Some (Inr (s\<lparr>words := lay ?bs\<rparr>))"
    unfolding AB(2) A(1)
    by (rule wrap_free_lay) (use st bs AB A B in simp_all)
  have lm: "length (snd (merged ?m)) + 2 = length (lay ?m)" by (rule length_merged) simp
  then have l: "length (lay ?bs) = length (lay bs)" by (simp add: AB A B)
  have ev: "even (length (lay xs))" if "\<forall>b\<in>set xs. even (length (snd b))" for xs
    using that by (induction xs) auto
  have "even (length (lay ?m))" by (rule ev) (use bs AB A B in auto)
  then have "even (length (snd (merged ?m)))" using lm by presburger
  then have "heap_ok (s\<lparr>words := lay ?bs\<rparr>)"
    by (intro ok_of_lay [of _ ?bs]) (use bs l AB A B in auto)
  moreover have "live (s\<lparr>words := lay ?bs\<rparr>) = live s - {(p, ws)}"
  proof -
    let ?q = "length (lay pre) + length (lay ?m)"
    have new: "allocs 0 ?bs = allocs 0 pre @ allocs ?q post"
    proof -
      obtain v where v: "merged ?m = (False, v)" by (simp add: merged_def)
      have "length (lay pre) + length v + 2 = ?q" using lm v by simp
      then show ?thesis unfolding v by (simp add: allocs_append)
    qed
    have old: "allocs 0 bs = allocs 0 pre @ (p, ws) # allocs ?q post"
      using allocs_free [OF A(3)] allocs_free [OF B(3)]
      by (simp add: AB A B allocs_append ac_simps)
    have "(p, ws) \<notin> set (allocs 0 pre)" "(p, ws) \<notin> set (allocs ?q post)"
      using allocs_range [of p ws 0 pre] allocs_range [of p ws ?q post] AB A by auto
    moreover have "live (s\<lparr>words := lay ?bs\<rparr>) = set (allocs 0 ?bs)"
      by (rule live_lay) (use st l bs in simp_all)
    ultimately show ?thesis unfolding new bs(5) old by auto
  qed
  ultimately show ?thesis using f by blast
qed

text \<open>A store of the box into a block it owns.\<close>

definition store_word :: "wasm_heap \<Rightarrow> nat \<Rightarrow> nat \<Rightarrow> u32 \<Rightarrow> wasm_heap" where
  "store_word s p j v = s\<lparr>words := (words s)[p + j := v]\<rparr>"

lemma store_keeps_ok:
  assumes ok: "heap_ok s" and lv: "(p, ws) \<in> live s" and j: "j < length ws"
  shows "heap_ok (store_word s p j v) \<and>
    live (store_word s p j v) = insert (p, ws[j := v]) (live s - {(p, ws)})"
proof -
  have st: "started s" using lv by (auto simp: live_def split: if_splits)
  obtain bs where bs: "words s = lay bs" "\<forall>b\<in>set bs. even (length (snd b))"
    "length (lay bs) = HEAP_SIZE div 4" "length (lay bs) < 2 ^ 30" "live s = set (allocs 0 bs)"
    using started_ok [OF ok st] by blast
  obtain A B where AB: "bs = A @ (True, ws) # B" "p = length (lay A) + 1"
    using allocs_split [of p ws 0 bs] lv bs(5) by auto
  let ?bs = "A @ (True, ws[j := v]) # B"
  have w: "words (store_word s p j v) = lay ?bs"
    using j by (simp add: store_word_def bs AB blk_def tag_def list_update_append)
  have l: "length (lay ?bs) = length (lay bs)" by (simp add: AB)
  have "heap_ok (store_word s p j v)"
    by (rule ok_of_lay [of _ ?bs]) (use w l bs AB in auto)
  moreover have "live (store_word s p j v) = set (allocs 0 ?bs)"
    by (rule live_lay) (use st w l bs in \<open>simp_all add: store_word_def\<close>)
  moreover have "(p, ws) \<notin> set (allocs 0 A)" "(p, ws) \<notin> set (allocs (length (lay A) + length ws + 2) B)"
    using allocs_range [of p ws 0 A] allocs_range [of p ws "length (lay A) + length ws + 2" B] AB by auto
  ultimately show ?thesis unfolding bs(5) AB(1)
    by (auto simp: allocs_append AB(2) ac_simps)
qed

subsection \<open>The contract of an allocator\<close>

text \<open>What a box asks of its heap: \<open>Release i\<close> and \<open>Store i j v\<close> speak of the \<open>i\<close>-th block it owns.
  The box keeps to what it asked for, and remembers what it stored where: \<open>owned\<close> is the pointer,
  the size in bytes and the words of a block it owns.\<close>

datatype request = Malloc u32 | Release nat | Store nat nat u32

type_synonym owned = "nat \<times> u32 \<times> (nat \<rightharpoonup> u32)"

fun run_requests :: "('s \<Rightarrow> u32 \<Rightarrow> (nat option \<times> 's) heap_res) \<Rightarrow> ('s \<Rightarrow> nat option \<Rightarrow> 's heap_res) \<Rightarrow>
    ('s \<Rightarrow> nat \<Rightarrow> nat \<Rightarrow> u32 \<Rightarrow> 's) \<Rightarrow> 's \<Rightarrow> owned list \<Rightarrow> request list \<Rightarrow> (owned list \<times> 's) heap_res" where
  "run_requests al re pu s own [] = Some (Inr (own, s))"
| "run_requests al re pu s own (Malloc sz # rs) =
     (case al s sz of
        None \<Rightarrow> None
      | Some (Inl e) \<Rightarrow> Some (Inl e)
      | Some (Inr (None, s)) \<Rightarrow> run_requests al re pu s own rs
      | Some (Inr (Some p, s)) \<Rightarrow> run_requests al re pu s ((p, sz, Map.empty) # own) rs)"
| "run_requests al re pu s own (Release i # rs) =
     (if i < length own then
        (case re s (Some (fst (own ! i))) of
           None \<Rightarrow> None
         | Some (Inl e) \<Rightarrow> Some (Inl e)
         | Some (Inr s) \<Rightarrow> run_requests al re pu s (take i own @ drop (Suc i) own) rs)
      else run_requests al re pu s own rs)"
| "run_requests al re pu s own (Store i j v # rs) =
     (if i < length own \<and> 4 * j + 4 \<le> unat (fst (snd (own ! i))) then
        run_requests al re pu (pu s (fst (own ! i)) j v)
          (own[i := (fst (own ! i), fst (snd (own ! i)), (snd (snd (own ! i)))(j \<mapsto> v))]) rs
      else run_requests al re pu s own rs)"

definition holds :: "(nat \<times> u32 list) set \<Rightarrow> owned \<Rightarrow> bool" where
  "holds G b \<longleftrightarrow> (\<exists>ws. (fst b, ws) \<in> G \<and> unat (fst (snd b)) \<le> 4 * length ws \<and>
     (\<forall>j v. snd (snd b) j = Some v \<longrightarrow> j < length ws \<and> ws ! j = v))"

definition holds_all :: "(nat \<times> u32 list) set \<Rightarrow> owned list \<Rightarrow> bool" where
  "holds_all G own \<longleftrightarrow> distinct (map fst own) \<and> (\<forall>b\<in>set own. holds G b)"

lemma holds_mono: "holds G b \<Longrightarrow> (\<And>ws. (fst b, ws) \<in> G \<Longrightarrow> (fst b, ws) \<in> H) \<Longrightarrow> holds H b"
  by (auto simp: holds_def)

lemma holds_all_add:
  assumes "holds_all G own" and "p \<notin> fst ` G" and "unat sz \<le> 4 * length ws"
  shows "holds_all (insert (p, ws) G) ((p, sz, Map.empty) # own)"
proof -
  have "fst b \<in> fst ` G" if "b \<in> set own" for b
    using assms(1) that by (force simp: holds_all_def holds_def)
  then have "p \<notin> fst ` set own" using assms(2) by auto
  moreover have "holds (insert (p, ws) G) (p, sz, Map.empty)"
    using assms(3) by (auto simp: holds_def)
  ultimately show ?thesis
    using assms(1) by (auto simp: holds_all_def intro: holds_mono)
qed

lemma holds_all_remove:
  assumes "holds_all G own" and i: "i < length own"
  shows "holds_all (G - {(fst (own ! i), ws)}) (take i own @ drop (Suc i) own)"
proof -
  have own: "own = take i own @ own ! i # drop (Suc i) own"
    using i by (simp add: id_take_nth_drop)
  have "distinct (map fst (take i own @ own ! i # drop (Suc i) own))"
    using assms(1) own by (simp add: holds_all_def)
  then have d: "distinct (map fst (take i own @ drop (Suc i) own))"
    "fst (own ! i) \<notin> fst ` set (take i own @ drop (Suc i) own)" by auto
  have "holds (G - {(fst (own ! i), ws)}) b" if b: "b \<in> set (take i own @ drop (Suc i) own)" for b
  proof -
    have hb: "holds G b" using assms(1) b by (auto simp: holds_all_def dest: in_set_takeD in_set_dropD)
    have "fst b \<noteq> fst (own ! i)" using d(2) b by (metis imageI)
    then show ?thesis by (intro holds_mono [OF hb]) simp
  qed
  then show ?thesis using d(1) by (auto simp: holds_all_def)
qed

lemma holds_all_store:
  assumes "holds_all G own" and i: "i < length own" and own_i: "own ! i = (p, sz, m)"
    and ws: "(p, ws) \<in> G" "\<And>vs. (p, vs) \<in> G \<Longrightarrow> vs = ws" and j: "j < length ws"
  shows "holds_all (insert (p, ws[j := v]) (G - {(p, ws)})) (own[i := (p, sz, m(j \<mapsto> v))])"
proof -
  let ?G = "insert (p, ws[j := v]) (G - {(p, ws)})"
  have all: "distinct (map fst own)" "\<forall>b\<in>set own. holds G b"
    using assms(1) by (auto simp: holds_all_def)
  have "map fst (own[i := (p, sz, m(j \<mapsto> v))]) = map fst own"
    using i own_i by (metis fst_conv list_update_id map_update)
  moreover have "holds ?G (own[i := (p, sz, m(j \<mapsto> v))] ! k)" if k: "k < length own" for k
  proof (cases "k = i")
    case True
    have "holds G (p, sz, m)" using all(2) i own_i by (metis nth_mem)
    then obtain vs where "(p, vs) \<in> G" "unat sz \<le> 4 * length vs"
      "\<forall>j v. m j = Some v \<longrightarrow> j < length vs \<and> vs ! j = v"
      by (auto simp: holds_def)
    then have h: "unat sz \<le> 4 * length ws" "\<forall>j v. m j = Some v \<longrightarrow> j < length ws \<and> ws ! j = v"
      using ws(2) by blast+
    show ?thesis unfolding holds_def
      by (rule exI [of _ "ws[j := v]"]) (use True i j h in \<open>auto simp: nth_list_update\<close>)
  next
    case False
    have "fst (own ! k) \<noteq> p"
      using all(1) k i False own_i by (metis (no_types, lifting) distinct_map fst_conv inj_onD nth_eq_iff_index_eq nth_mem)
    then have ne: "fst (own ! k) \<noteq> p" .
    have "holds G (own ! k)" using all(2) k by simp
    then have "holds ?G (own ! k)" by (rule holds_mono) (use ne in simp)
    then show ?thesis using False by simp
  qed
  ultimately show ?thesis using all(1) by (simp add: holds_all_def all_set_conv_all_nth)
qed

locale allocator =
  fixes inv :: "'s \<Rightarrow> bool"
    and given :: "'s \<Rightarrow> (nat \<times> u32 list) set"
    and alloc :: "'s \<Rightarrow> u32 \<Rightarrow> (nat option \<times> 's) heap_res"
    and release :: "'s \<Rightarrow> nat option \<Rightarrow> 's heap_res"
    and put :: "'s \<Rightarrow> nat \<Rightarrow> nat \<Rightarrow> u32 \<Rightarrow> 's"
    and fair :: "u32 \<Rightarrow> bool"
  assumes alloc_law: "inv s \<Longrightarrow> fair sz \<Longrightarrow>
      \<exists>r s'. alloc s sz = Some (Inr (r, s')) \<and> inv s' \<and>
        (case r of None \<Rightarrow> given s' = given s
         | Some p \<Rightarrow> p \<notin> fst ` given s \<and>
             (\<exists>ws. unat sz \<le> 4 * length ws \<and> given s' = insert (p, ws) (given s)))"
    and release_law: "inv s \<Longrightarrow> (p, ws) \<in> given s \<Longrightarrow>
      \<exists>s'. release s (Some p) = Some (Inr s') \<and> inv s' \<and> given s' = given s - {(p, ws)}"
    and put_law: "inv s \<Longrightarrow> (p, ws) \<in> given s \<Longrightarrow> j < length ws \<Longrightarrow>
      inv (put s p j v) \<and> given (put s p j v) = insert (p, ws[j := v]) (given s - {(p, ws)})"
    and apart: "inv s \<Longrightarrow> (p, ws) \<in> given s \<Longrightarrow> (q, vs) \<in> given s \<Longrightarrow> (p, ws) \<noteq> (q, vs) \<Longrightarrow>
      p + length ws < q \<or> q + length vs < p"
begin

lemma given_fun: "inv s \<Longrightarrow> (p, ws) \<in> given s \<Longrightarrow> (p, vs) \<in> given s \<Longrightarrow> vs = ws"
  using apart [of s p ws p vs] by fastforce

lemma run_ok:
  assumes "inv s" and "holds_all (given s) own" and "\<forall>sz. Malloc sz \<in> set rs \<longrightarrow> fair sz"
  shows "\<exists>own' s'. run_requests alloc release put s own rs = Some (Inr (own', s')) \<and>
    inv s' \<and> holds_all (given s') own'"
  using assms
proof (induction rs arbitrary: s own)
  case (Cons r rs)
  have rest: "\<forall>sz. Malloc sz \<in> set rs \<longrightarrow> fair sz" using Cons.prems(3) by simp
  note IH = Cons.IH [OF _ _ rest]
  show ?case
  proof (cases r)
    case (Malloc sz)
    obtain x s' where a: "alloc s sz = Some (Inr (x, s'))" "inv s'"
      "case x of None \<Rightarrow> given s' = given s
       | Some p \<Rightarrow> p \<notin> fst ` given s \<and> (\<exists>ws. unat sz \<le> 4 * length ws \<and> given s' = insert (p, ws) (given s))"
      using alloc_law [OF Cons.prems(1), of sz] Cons.prems(3) Malloc by auto
    show ?thesis
    proof (cases x)
      case None
      then show ?thesis using IH [OF a(2), of own] a Cons.prems(2) Malloc by simp
    next
      case (Some p)
      obtain ws where ws: "p \<notin> fst ` given s" "unat sz \<le> 4 * length ws" "given s' = insert (p, ws) (given s)"
        using a(3) Some by auto
      show ?thesis
        using IH [OF a(2), of "(p, sz, Map.empty) # own"] holds_all_add [OF Cons.prems(2) ws(1,2)] ws(3) a(1) Malloc Some
        by simp
    qed
  next
    case (Release i)
    show ?thesis
    proof (cases "i < length own")
      case True
      then have "holds (given s) (own ! i)" using Cons.prems(2) by (simp add: holds_all_def)
      then obtain ws where ws: "(fst (own ! i), ws) \<in> given s" by (auto simp: holds_def)
      obtain s' where s': "release s (Some (fst (own ! i))) = Some (Inr s')" "inv s'"
        "given s' = given s - {(fst (own ! i), ws)}"
        using release_law [OF Cons.prems(1) ws] by blast
      show ?thesis
        using IH [OF s'(2), of "take i own @ drop (Suc i) own"] holds_all_remove [OF Cons.prems(2) True, of ws] s' True Release
        by simp
    next
      case False
      then show ?thesis using IH [OF Cons.prems(1,2)] Release by simp
    qed
  next
    case (Store i j v)
    show ?thesis
    proof (cases "i < length own \<and> 4 * j + 4 \<le> unat (fst (snd (own ! i)))")
      case True
      obtain p sz m where b: "own ! i = (p, sz, m)" by (cases "own ! i")
      have "holds (given s) (own ! i)" using Cons.prems(2) True by (simp add: holds_all_def)
      then obtain ws where ws: "(p, ws) \<in> given s" "unat sz \<le> 4 * length ws" using b by (auto simp: holds_def)
      have j: "j < length ws" using True ws(2) b by simp
      have p: "inv (put s p j v)" "given (put s p j v) = insert (p, ws[j := v]) (given s - {(p, ws)})"
        using put_law [OF Cons.prems(1) ws(1) j] by auto
      have "holds_all (given (put s p j v)) (own[i := (p, sz, m(j \<mapsto> v))])"
        unfolding p(2) by (rule holds_all_store [OF Cons.prems(2) _ b ws(1) _ j])
          (use True given_fun [OF Cons.prems(1) ws(1)] in auto)
      then show ?thesis using IH [OF p(1), of "own[i := (p, sz, m(j \<mapsto> v))]"] True b Store by simp
    next
      case False
      then show ?thesis using IH [OF Cons.prems(1,2)] Store by (simp del: de_Morgan_conj)
    qed
  qed
qed simp

end

lemma live_layout:
  assumes ok: "heap_ok s" and lv: "b \<in> live s"
  obtains bs where "live s = set (allocs 0 bs)" and "words s = lay bs"
proof -
  have "started s" using lv by (auto simp: live_def split: if_splits)
  then show ?thesis
  proof (rule started_ok [OF ok])
    fix bs
    assume "live s = set (allocs 0 bs)" and "words s = lay bs"
    then show ?thesis by (rule that)
  qed
qed

lemma live_apart:
  assumes ok: "heap_ok s" and "(p, ws) \<in> live s" and "(q, vs) \<in> live s" and "(p, ws) \<noteq> (q, vs)"
  shows "p + length ws < q \<or> q + length vs < p"
proof (rule live_layout [OF ok assms(2)])
  fix bs
  assume "live s = set (allocs 0 bs)"
  then show ?thesis using allocs_disjoint assms(2-4) by blast
qed

lemma live_contents:
  assumes ok: "heap_ok s" and lv: "(p, ws) \<in> live s"
  shows "take (length ws) (drop p (words s)) = ws"
proof (rule live_layout [OF ok lv])
  fix bs
  assume "live s = set (allocs 0 bs)" and "words s = lay bs"
  then show ?thesis using allocs_contents [of p ws bs] lv by simp
qed

interpretation heap: allocator heap_ok live wrap_malloc wrap_free store_word even_request
proof
  fix s sz
  assume "heap_ok s" and "even_request sz"
  then show "\<exists>r s'. wrap_malloc s sz = Some (Inr (r, s')) \<and> heap_ok s' \<and>
        (case r of None \<Rightarrow> live s' = live s
         | Some p \<Rightarrow> p \<notin> fst ` live s \<and>
             (\<exists>ws. unat sz \<le> 4 * length ws \<and> live s' = insert (p, ws) (live s)))"
    by (rule malloc_keeps_ok)
next
  fix s p ws
  assume "heap_ok s" and "(p, ws) \<in> live s"
  then show "\<exists>s'. wrap_free s (Some p) = Some (Inr s') \<and> heap_ok s' \<and> live s' = live s - {(p, ws)}"
    by (rule free_keeps_ok)
next
  fix s p ws j v
  assume "heap_ok s" and "(p, ws) \<in> live s" and "j < length ws"
  then show "heap_ok (store_word s p j v) \<and>
      live (store_word s p j v) = insert (p, ws[j := v]) (live s - {(p, ws)})"
    by (rule store_keeps_ok)
next
  fix s p ws q vs
  assume "heap_ok s" and "(p, ws) \<in> live s" and "(q, vs) \<in> live s" and "(p, ws) \<noteq> (q, vs)"
  then show "p + length ws < q \<or> q + length vs < p"
    by (rule live_apart)
qed

lemma holds_words:
  assumes ok: "heap_ok s" and h: "holds (live s) (p, sz, m)" and m: "m j = Some v"
  shows "words s ! (p + j) = v"
proof -
  obtain ws where ws: "(p, ws) \<in> live s" "j < length ws" "ws ! j = v"
    using h m by (auto simp: holds_def)
  then have "take (length ws) (drop p (words s)) ! j = v" using live_contents [OF ok] by metis
  moreover have "length (take (length ws) (drop p (words s))) = length ws"
    using live_contents [OF ok ws(1)] by simp
  ultimately show ?thesis using ws(2) by simp
qed

text \<open>C29: whatever a box does with its heap, in any order: with requests that are an even number of
  words, no call of \<^verbatim>\<open>malloc\<close> or \<^verbatim>\<open>free\<close> aborts or leaves the heap, the blocks the box owns do not
  overlap, and every word it stored in one of them is still there at the end.\<close>

theorem heap_serves_requests:
  assumes "length (words s) = HEAP_SIZE div 4" and "\<not> started s"
    and "\<forall>sz. Malloc sz \<in> set rs \<longrightarrow> even_request sz"
  shows "\<exists>own s'. run_requests wrap_malloc wrap_free store_word s [] rs = Some (Inr (own, s')) \<and>
    (\<forall>(p, sz, m)\<in>set own. \<forall>j v. m j = Some v \<longrightarrow> words s' ! (p + j) = v) \<and>
    (\<forall>(p, sz, m)\<in>set own. \<forall>(q, tz, m')\<in>set own. p \<noteq> q \<longrightarrow>
       4 * p + unat sz < 4 * q \<or> 4 * q + unat tz < 4 * p)"
proof -
  have "heap_ok s" "live s = {}" using assms(1,2) by (auto simp: heap_ok_def live_def)
  then obtain own s' where run: "run_requests wrap_malloc wrap_free store_word s [] rs = Some (Inr (own, s'))"
    and ok: "heap_ok s'" and own: "holds_all (live s') own"
    using heap.run_ok [of s "[]" rs] assms(3) by (auto simp: holds_all_def)
  have disj: "4 * p + unat sz < 4 * q \<or> 4 * q + unat tz < 4 * p"
    if "(p, sz, m) \<in> set own" "(q, tz, m') \<in> set own" "p \<noteq> q" for p sz m q tz m'
  proof -
    have "holds (live s') (p, sz, m)" "holds (live s') (q, tz, m')"
      using own that(1,2) by (auto simp: holds_all_def)
    then obtain ws vs where "(p, ws) \<in> live s'" "unat sz \<le> 4 * length ws"
      "(q, vs) \<in> live s'" "unat tz \<le> 4 * length vs"
      by (auto simp: holds_def)
    then show ?thesis using heap.apart [OF ok, of p ws q vs] \<open>p \<noteq> q\<close> by auto
  qed
  have stored: "words s' ! (p + j) = v" if "(p, sz, m) \<in> set own" "m j = Some v" for p sz m j v
    using holds_words [OF ok, of p sz m j v] own that by (auto simp: holds_all_def)
  show ?thesis
  proof (intro exI conjI)
    show "run_requests wrap_malloc wrap_free store_word s [] rs = Some (Inr (own, s'))" by (rule run)
    show "\<forall>(p, sz, m)\<in>set own. \<forall>j v. m j = Some v \<longrightarrow> words s' ! (p + j) = v"
      using stored by blast
    show "\<forall>(p, sz, m)\<in>set own. \<forall>(q, tz, m')\<in>set own. p \<noteq> q \<longrightarrow>
        4 * p + unat sz < 4 * q \<or> 4 * q + unat tz < 4 * p"
      using disj by blast
  qed
qed

theorem heap_serves_requests_witness:
  "\<exists>own s'. run_requests wrap_malloc wrap_free store_word
       \<lparr>started = False, words = replicate 4096 0\<rparr> [] [Malloc 8, Store 0 1 7, Malloc 24, Release 1]
       = Some (Inr (own, s')) \<and>
    (\<forall>(p, sz, m)\<in>set own. \<forall>j v. m j = Some v \<longrightarrow> words s' ! (p + j) = v) \<and>
    (\<forall>(p, sz, m)\<in>set own. \<forall>(q, tz, m')\<in>set own. p \<noteq> q \<longrightarrow>
       4 * p + unat sz < 4 * q \<or> 4 * q + unat tz < 4 * p)"
proof (rule heap_serves_requests)
  show "length (words \<lparr>started = False, words = replicate 4096 0\<rparr>) = HEAP_SIZE div 4"
    by (simp add: HEAP_SIZE_def)
  show "\<not> started \<lparr>started = False, words = replicate 4096 0\<rparr>" by (simp only: wasm_heap.simps not_False_eq_True)
  show "\<forall>sz. Malloc sz \<in> set [Malloc 8, Store 0 1 7, Malloc 24, Release 1] \<longrightarrow> even_request sz"
    by (auto simp: even_request_def asked_def)
qed

text \<open>\<^verbatim>\<open>malloc\<close> is first fit over the blocks of the heap. It gives out the first free block
  that is large enough, cut in two when at least two words are left over, and returns NULL and
  leaves the heap alone when no block is.\<close>

theorem malloc_first_fit:
  assumes "started s" and "blocks_of (words s) = Some bs" and "length (words s) < 2 ^ 30"
  shows "wrap_malloc s sz = Some (Inr (case first_fit (asked sz) bs of
       None \<Rightarrow> (None, s)
     | Some (pre, ws, post) \<Rightarrow>
         (Some (length (lay pre) + 1), s\<lparr>words := lay pre @ give (asked sz) ws @ lay post\<rparr>)))"
  using wrap_malloc_lay [of s bs sz] lay_blocks_of [OF assms(2)] assms by simp

theorem malloc_first_fit_witness:
  "wrap_malloc \<lparr>started = True, words = [0x80000001, 9, 0x80000001, 4, 0, 0, 0, 0, 4]\<rparr> 2 =
     Some (Inr (Some 4, \<lparr>started = True,
       words = [0x80000001, 9, 0x80000001, 0x80000001, 0, 0x80000001, 1, 0, 1]\<rparr>))"
proof -
  let ?s = "\<lparr>started = True, words = [0x80000001, 9, 0x80000001, 4, 0, 0, 0, 0, 4 :: u32]\<rparr>"
  have "blocks_of (words ?s) = Some [(True, [9]), (False, [0, 0, 0, 0])]"
    by code_simp
  from malloc_first_fit [OF _ this, of 2] show ?thesis
    by (simp add: asked_def give_def blk_def tag_def)
qed

text \<open>\<^verbatim>\<open>free\<close> of a block makes one free block of it and of all free blocks next to it, on both
  sides, and leaves every other block alone.\<close>

theorem free_merges_neighbours:
  assumes "started s" and "length (words s) < 2 ^ 30"
    and "blocks_of (words s) = Some (pre @ fs @ (True, ws) # gs @ post)"
    and "\<forall>b\<in>set fs. \<not> fst b" and "\<forall>b\<in>set gs. \<not> fst b"
    and "closed_left pre" and "closed_right post"
  shows "wrap_free s (Some (length (lay (pre @ fs)) + 1)) =
     Some (Inr (s\<lparr>words := lay (pre @ merged (fs @ (True, ws) # gs) # post)\<rparr>))"
  using lay_blocks_of [OF assms(3)] assms
  by (intro wrap_free_lay) auto

theorem free_merges_neighbours_witness:
  "wrap_free \<lparr>started = True, words = [1, 5, 1, 0x80000001, 6, 0x80000001, 0, 0]\<rparr> (Some 4) =
     Some (Inr \<lparr>started = True, words = [6, 5, 1, 0x80000001, 6, 0x80000001, 0, 6]\<rparr>)"
proof -
  let ?s = "\<lparr>started = True, words = [1, 5, 1, 0x80000001, 6, 0x80000001, 0, 0 :: u32]\<rparr>"
  have "blocks_of (words ?s) = Some ([] @ [(False, [5])] @ (True, [6]) # [(False, [])] @ [])"
    by code_simp
  then have f: "wrap_free ?s (Some (length (lay ([] @ [(False, [5])])) + 1)) =
      Some (Inr (?s\<lparr>words := lay ([] @ merged ([(False, [5])] @ (True, [6]) # [(False, [])]) # [])\<rparr>))"
    by (intro free_merges_neighbours) (simp_all add: closed_left_def closed_right_def)
  have p: "length (lay ([] @ [(False, [5])])) + 1 = 4" by simp
  show ?thesis using f unfolding p by (simp add: merged_def blk_def tag_def)
qed

lemma malloc_skips:
  "first_fit (unat n) bs = None \<Longrightarrow> length (lay bs) < 2 ^ 30 \<Longrightarrow> unat n \<le> 2 ^ 30 \<Longrightarrow>
     malloc_loop (A @ lay bs @ B) n (length A) = malloc_loop (A @ lay bs @ B) n (length A + length (lay bs))"
proof (induction bs arbitrary: A)
  case (Cons b bs)
  obtain u ws where b: "b = (u, ws)" by (cases b)
  have no: "\<not> (\<not> u \<and> unat n \<le> length ws)" "first_fit (unat n) bs = None"
    using Cons.prems(1) b by (auto split: if_splits)
  have "malloc_loop (A @ blk b @ lay bs @ B) n (length A) =
      malloc_loop (A @ blk b @ lay bs @ B) n (length (A @ blk b))"
    using malloc_step [of b n A "lay bs @ B"] Cons.prems no b by simp
  then show ?case using Cons.IH [of "A @ blk b"] no Cons.prems(2,3) by (simp add: ac_simps)
qed simp


text \<open>a free block with exactly one word to spare is given out corrupt: its end tag is written
  one word too early. To \<^verbatim>\<open>free\<close> that block aborts with \<^verbatim>\<open>-EFAULT\<close>, and so does every later
  \<^verbatim>\<open>malloc\<close> that no earlier block serves.\<close>

theorem malloc_spare_word_corrupts:
  assumes st: "started s" and bs: "blocks_of (words s) = Some bs" and len: "length (words s) < 2 ^ 30"
    and fit: "first_fit (asked sz) bs = Some (pre, ws, post)" and spare: "length ws = asked sz + 1"
  shows "\<exists>s' p. wrap_malloc s sz = Some (Inr (Some p, s')) \<and>
     wrap_free s' (Some p) = Some (Inl (fail_with EFAULT)) \<and>
     (\<forall>tz. first_fit (asked tz) pre = None \<longrightarrow> wrap_malloc s' tz = Some (Inl (fail_with EFAULT)))"
proof -
  let ?t = "tag (True, ws)" and ?f = "tag (False, ws)"
  let ?M = "?t # ws[asked sz := ?t] @ [?f]"
  let ?s = "s\<lparr>words := lay pre @ ?M @ lay post\<rparr>" and ?ptr = "length (lay pre)"
  let ?h = "words ?s"
  have w: "words s = lay (pre @ (False, ws) # post)"
    using lay_blocks_of [OF bs] first_fit_Some [OF fit] by simp
  have small: "length ws < 2 ^ 31" "length (lay pre) < 2 ^ 30" using len w by simp_all
  have bad: "?t \<noteq> ?f"
    using bit_tag [of "(True, ws)"] bit_tag [of "(False, ws)"] small(1) by auto
  have give: "give (asked sz) ws = ?M" using spare by (simp add: give_def)
  have here: "rd ?h ?ptr = Some ?t" "?ptr < length ?h" "?h ! ?ptr = ?t" by (simp_all add: rd_def)
  have foot: "rd ?h (?ptr + (length ws + 2 - 1)) = Some ?f"
    by (simp add: rd_def nth_append)
  have "wrap_malloc s sz = Some (Inr (Some (?ptr + 1), ?s))"
    using malloc_first_fit [OF st bs len, of sz] fit give by simp
  moreover have "wrap_free ?s (Some (?ptr + 1)) = Some (Inl (fail_with EFAULT))"
    using st here foot bad block_words_tag [of "(True, ws)"] small by (simp add: wrap_free_def)
  moreover have "wrap_malloc ?s tz = Some (Inl (fail_with EFAULT))"
    if no: "first_fit (asked tz) pre = None" for tz
  proof -
    let ?n = "(tz + 3) div 4"
    have skip: "malloc_loop ?h ?n 0 = malloc_loop ?h ?n ?ptr"
      using malloc_skips [of ?n pre "[]" "?M @ lay post"] no small(2) asked_bound [of tz]
      by (simp add: asked_def)
    have "malloc_loop ?h ?n ?ptr = Some (Inl (fail_with EFAULT))"
      by (subst malloc_loop.simps)
        (use here foot bad block_words_tag [of "(True, ws)"] small in \<open>simp add: Let_def\<close>)
    then show ?thesis using skip st by (simp add: wrap_malloc_def)
  qed
  ultimately show ?thesis by blast
qed

theorem malloc_spare_word_corrupts_witness:
  "\<exists>s' p. wrap_malloc \<lparr>started = True, words = [2, 0, 0, 2]\<rparr> 4 = Some (Inr (Some p, s')) \<and>
     wrap_free s' (Some p) = Some (Inl (fail_with EFAULT)) \<and>
     (\<forall>tz. first_fit (asked tz) [] = None \<longrightarrow> wrap_malloc s' tz = Some (Inl (fail_with EFAULT)))"
proof (rule malloc_spare_word_corrupts [where bs = "[(False, [0, 0])]" and ws = "[0, 0]" and post = "[]"])
  show "blocks_of (words \<lparr>started = True, words = [2, 0, 0, 2]\<rparr>) = Some [(False, [0, 0])]"
    by code_simp
qed (simp_all add: asked_def)

text \<open>The first request of a fresh heap can already hit this: 16372 bytes are 4093 of its 4094 words.\<close>

lemma fresh_heap_corrupts:
  assumes "length (words s) = HEAP_SIZE div 4" and "\<not> started s"
  shows "\<exists>s' p. wrap_malloc s 16372 = Some (Inr (Some p, s')) \<and>
     wrap_free s' (Some p) = Some (Inl (fail_with EFAULT)) \<and>
     (\<forall>tz. wrap_malloc s' tz = Some (Inl (fail_with EFAULT)))"
proof -
  define v where "v = tl (butlast (words s))"
  let ?t = "\<lparr>started = True, words = lay [(False, v)]\<rparr>"
  have l: "length v = 4094" using assms(1) by (simp add: v_def HEAP_SIZE_def)
  have m: "wrap_malloc s 16372 = wrap_malloc ?t 16372"
    using heap_setup_lay [OF assms(1)] assms(2) by (simp add: wrap_malloc_def v_def)
  have "blocks_of (words ?t) = Some [(False, v)]"
    using blocks_of_lay_small [of "[(False, v)]"] l by simp
  from malloc_spare_word_corrupts [OF _ this, of 16372 "[]" v "[]"] show ?thesis
    using l unfolding m by (simp add: asked_def)
qed

subsection \<open>realloc and calloc\<close>

text \<open>\<^verbatim>\<open>realloc\<close> of a used block takes its size with the used bit for a number of bytes. When \<^verbatim>\<open>malloc\<close>
  finds room, the move leaves the heap.\<close>

lemma realloc_leaves_heap:
  assumes ok: "heap_ok s" and lv: "(p, ws) \<in> live s" and rq: "even_request sz"
    and m: "wrap_malloc s sz = Some (Inr (Some q, s'))"
  shows "wrap_realloc s (Some p) sz = None"
proof -
  have st: "started s" using lv by (auto simp: live_def split: if_splits)
  obtain bs where bs: "words s = lay bs" "\<forall>b\<in>set bs. even (length (snd b))"
    "length (lay bs) = HEAP_SIZE div 4" "length (lay bs) < 2 ^ 30" "live s = set (allocs 0 bs)"
    using started_ok [OF ok st] by blast
  obtain A B where AB: "bs = A @ (True, ws) # B" "p = length (lay A) + 1"
    using allocs_split [of p ws 0 bs] lv bs(5) by auto
  have small: "length ws < 2 ^ 31" using bs AB by simp
  have hd: "rd (words s) (p - 1) = Some (tag (True, ws))"
    by (simp add: rd_def bs AB read_tags)
  have "heap_ok s'" using malloc_keeps_ok [OF ok rq] m by auto
  then have l: "length (words s') = 4096" by (simp add: heap_ok_def HEAP_SIZE_def)
  have "2 ^ 31 \<le> unat (tag (True, ws))"
    using sint_tag_used [of "(True, ws)"] sint_eq_unat [of "tag (True, ws)"] small by force
  then have "move_bytes (words s') q p (unat (tag (True, ws))) = None"
    using l by (simp add: move_bytes_def)
  then show ?thesis using hd m AB(2) by (simp add: wrap_realloc_def)
qed

text \<open>\<^verbatim>\<open>calloc\<close> without room clears the memory at NULL.\<close>

lemma calloc_clears_null:
  "wrap_malloc s sz = Some (Inr (None, s')) \<Longrightarrow> sz \<noteq> 0 \<Longrightarrow> wrap_calloc s sz = None"
  by (simp add: wrap_calloc_def)

lemma clear_bytes_words:
  "i + k \<le> length h \<Longrightarrow> clear_bytes h i (4 * k) = Some (take i h @ replicate k 0 @ drop (i + k) h)"
proof (induction k arbitrary: h i)
  case 0
  then show ?case by (simp add: clear_bytes.simps)
next
  case (Suc k)
  have "clear_bytes h i (4 * Suc k) = clear_bytes (h[i := 0]) (i + 1) (4 * k)"
    using Suc.prems by (subst clear_bytes.simps) simp
  also have "\<dots> = Some (take (i + 1) (h[i := 0]) @ replicate k 0 @ drop (i + 1 + k) (h[i := 0]))"
    by (rule Suc.IH) (use Suc.prems in simp)
  also have "take (i + 1) (h[i := 0]) = take i h @ [0]"
    using Suc.prems by (simp add: take_Suc_conv_app_nth)
  finally show ?case by simp
qed


lemma calloc_clears:
  assumes ok: "heap_ok s" and rq: "even_request sz" and k: "unat sz = 4 * k"
    and m: "wrap_malloc s sz = Some (Inr (Some p, s'))"
  shows "wrap_calloc s sz = Some (Inr (Some p, s'\<lparr>words := take p (words s') @ replicate k 0 @ drop (p + k) (words s')\<rparr>))"
proof -
  obtain ws where ws: "4 * k \<le> 4 * length ws" "(p, ws) \<in> live s'" "heap_ok s'"
    using malloc_keeps_ok [OF ok rq] m k by auto
  have "length ws \<le> length (words s') - p"
    using live_contents [OF ws(3,2)] by (metis length_drop length_take min.cobounded1 min.commute)
  moreover have "ws = [] \<or> p < length (words s')"
    using live_contents [OF ws(3,2)] by (metis drop_all le_cases not_less take_Nil take_eq_Nil)
  ultimately have "p + k \<le> length (words s') \<or> k = 0" using ws(1) by (cases ws) auto
  then have "clear_bytes (words s') p (4 * k) =
      Some (take p (words s') @ replicate k 0 @ drop (p + k) (words s'))"
    using clear_bytes_words [of p k "words s'"] by (cases "k = 0") (simp_all add: clear_bytes.simps [of _ _ 0])
  then show ?thesis using m k by (simp add: wrap_calloc_def)
qed

end
