(* ===== verification/WasmNumeric.thy ===== *)
theory WasmNumeric
  imports Complex_Main BoxErrors "HOL-Library.Signed_Division"
begin

text \<open>
  Arithmetic of the WebAssembly runtime (examples/awsm-hello/box1/runtime/runtime.c): rotation,
  division and remainder, truncation of floating point numbers. A failed \<^verbatim>\<open>awsm_assert\<close> ends in
  \<^verbatim>\<open>__box_abort(-1)\<close>, so a result is \<open>Inl\<close> of the error of the abort or \<open>Inr\<close> of the value; \<open>i32\<close>
  and \<open>i64\<close> are words read with \<open>sint\<close>. The functions are compared with the operators that
  WebAssembly defines.
\<close>

type_synonym u64 = "64 word"
type_synonym 'a trap = "int + 'a"

definition awsm_assert :: "bool \<Rightarrow> 'a \<Rightarrow> 'a trap" where
  "awsm_assert x r = (if x then Inr r else Inl (-1))"

subsection \<open>Rotation\<close>

text \<open>A shift by \<open>c\<close> is \<open>push_bit (unat c)\<close> or \<open>drop_bit (unat c)\<close>; \<open>c\<close> is an \<^verbatim>\<open>unsigned int\<close> below the
  width.\<close>

definition rotl_u32 :: "u32 \<Rightarrow> u32 \<Rightarrow> u32" where
  "rotl_u32 n c_u32 =
     (let c = c_u32 mod 32; mask = 31; c = c AND mask
      in push_bit (unat c) n OR drop_bit (unat (- c AND mask)) n)"

definition rotr_u32 :: "u32 \<Rightarrow> u32 \<Rightarrow> u32" where
  "rotr_u32 n c_u32 =
     (let c = c_u32 mod 32; mask = 31; c = c AND mask
      in drop_bit (unat c) n OR push_bit (unat (- c AND mask)) n)"

definition rotl_u64 :: "u64 \<Rightarrow> u64 \<Rightarrow> u64" where
  "rotl_u64 n c_u64 =
     (let c = ucast (c_u64 mod 64) :: u32; mask = 63; c = c AND mask
      in push_bit (unat c) n OR drop_bit (unat (- c AND mask)) n)"

definition rotr_u64 :: "u64 \<Rightarrow> u64 \<Rightarrow> u64" where
  "rotr_u64 n c_u64 =
     (let c = ucast (c_u64 mod 64) :: u32; mask = 63; c = c AND mask
      in drop_bit (unat c) n OR push_bit (unat (- c AND mask)) n)"

subsection \<open>Division and remainder\<close>

text \<open>The \<^verbatim>\<open>/\<close> and \<^verbatim>\<open>%\<close> of C on signed operands, which round towards zero.\<close>

definition c_div :: "'a::len word \<Rightarrow> 'a word \<Rightarrow> 'a word" where
  "c_div a b = word_of_int (sint a sdiv sint b)"

definition c_rem :: "'a::len word \<Rightarrow> 'a word \<Rightarrow> 'a word" where
  "c_rem a b = word_of_int (sint a smod sint b)"

definition INT32_MIN :: u32 where "INT32_MIN = -1 - 0x7fffffff"
definition INT64_MIN :: u64 where "INT64_MIN = -1 - 0x7fffffffffffffff"

definition u32_div :: "u32 \<Rightarrow> u32 \<Rightarrow> u32 trap" where
  "u32_div a b = awsm_assert (b \<noteq> 0) (a div b)"

definition u32_rem :: "u32 \<Rightarrow> u32 \<Rightarrow> u32 trap" where
  "u32_rem a b = awsm_assert (b \<noteq> 0) (a mod b)"

definition i32_div :: "u32 \<Rightarrow> u32 \<Rightarrow> u32 trap" where
  "i32_div a b = awsm_assert (b \<noteq> 0 \<and> (a \<noteq> INT32_MIN \<or> b \<noteq> -1)) (c_div a b)"

definition i32_rem :: "u32 \<Rightarrow> u32 \<Rightarrow> u32 trap" where
  "i32_rem a b = awsm_assert (b \<noteq> 0 \<and> (a \<noteq> INT32_MIN \<or> b \<noteq> -1)) (c_rem a b)"

definition u64_div :: "u64 \<Rightarrow> u64 \<Rightarrow> u64 trap" where
  "u64_div a b = awsm_assert (b \<noteq> 0) (a div b)"

definition u64_rem :: "u64 \<Rightarrow> u64 \<Rightarrow> u64 trap" where
  "u64_rem a b = awsm_assert (b \<noteq> 0) (a mod b)"

definition i64_div :: "u64 \<Rightarrow> u64 \<Rightarrow> u64 trap" where
  "i64_div a b = awsm_assert (b \<noteq> 0 \<and> (a \<noteq> INT64_MIN \<or> b \<noteq> -1)) (c_div a b)"

definition i64_rem :: "u64 \<Rightarrow> u64 \<Rightarrow> u64 trap" where
  "i64_rem a b = awsm_assert (b \<noteq> 0 \<and> (a \<noteq> INT64_MIN \<or> b \<noteq> -1)) (c_rem a b)"

subsection \<open>Floating point\<close>

text \<open>A floating point value is not a number, an infinity with its sign, or a rational number;
  the two zeros are one. \<^verbatim>\<open><\<close> and \<^verbatim>\<open><=\<close> are false when an operand is not a number.\<close>

datatype fl = NaN | Infty bool | Fin rat

fun fl_le :: "fl \<Rightarrow> fl \<Rightarrow> bool" where
  "fl_le (Fin a) (Fin b) \<longleftrightarrow> a \<le> b"
| "fl_le (Infty neg) (Fin b) \<longleftrightarrow> neg"
| "fl_le (Fin a) (Infty neg) \<longleftrightarrow> \<not> neg"
| "fl_le (Infty m) (Infty n) \<longleftrightarrow> m \<or> \<not> n"
| "fl_le NaN b \<longleftrightarrow> False"
| "fl_le a NaN \<longleftrightarrow> False"

fun fl_lt :: "fl \<Rightarrow> fl \<Rightarrow> bool" where
  "fl_lt (Fin a) (Fin b) \<longleftrightarrow> a < b"
| "fl_lt (Infty neg) (Fin b) \<longleftrightarrow> neg"
| "fl_lt (Fin a) (Infty neg) \<longleftrightarrow> \<not> neg"
| "fl_lt (Infty m) (Infty n) \<longleftrightarrow> m \<and> \<not> n"
| "fl_lt NaN b \<longleftrightarrow> False"
| "fl_lt a NaN \<longleftrightarrow> False"

definition toward_zero :: "rat \<Rightarrow> int" where
  "toward_zero r = (if r < 0 then \<lceil>r\<rceil> else \<lfloor>r\<rfloor>)"

text \<open>The C conversion to an integer type of the range \<open>lo .. hi\<close> is undefined (\<open>None\<close>) when the
  truncated value is outside of it.\<close>

definition c_convert :: "int \<Rightarrow> int \<Rightarrow> fl \<Rightarrow> int option" where
  "c_convert lo hi f = (case f of Fin r \<Rightarrow>
       (if lo \<le> toward_zero r \<and> toward_zero r \<le> hi then Some (toward_zero r) else None) | _ \<Rightarrow> None)"

text \<open>\<open>mx\<close> is the largest integer of the type after its conversion to the floating point type.\<close>

definition trunc_between :: "int \<Rightarrow> int \<Rightarrow> rat \<Rightarrow> fl \<Rightarrow> int option trap" where
  "trunc_between lo hi mx f =
     awsm_assert (fl_le (Fin (of_int lo)) f \<and> fl_le f (Fin mx)) (c_convert lo hi f)"

text \<open>The constants: \<^verbatim>\<open>float\<close> has 24 bits of precision and \<^verbatim>\<open>double\<close> 53, so the maximum of a type
  rounds up to the power of two, also in the two functions on \<^verbatim>\<open>double\<close> that convert to
  32 bits, where the code casts to \<^verbatim>\<open>float\<close>.\<close>

definition u32_trunc_f32 :: "fl \<Rightarrow> int option trap" where
  "u32_trunc_f32 f = trunc_between 0 (2^32 - 1) (2^32) f"

definition i32_trunc_f32 :: "fl \<Rightarrow> int option trap" where
  "i32_trunc_f32 f = trunc_between (- (2^31)) (2^31 - 1) (2^31) f"

definition u32_trunc_f64 :: "fl \<Rightarrow> int option trap" where
  "u32_trunc_f64 f = trunc_between 0 (2^32 - 1) (2^32) f"

definition i32_trunc_f64 :: "fl \<Rightarrow> int option trap" where
  "i32_trunc_f64 f = trunc_between (- (2^31)) (2^31 - 1) (2^31) f"

definition u64_trunc_f32 :: "fl \<Rightarrow> int option trap" where
  "u64_trunc_f32 f = trunc_between 0 (2^64 - 1) (2^64) f"

definition i64_trunc_f32 :: "fl \<Rightarrow> int option trap" where
  "i64_trunc_f32 f = trunc_between (- (2^63)) (2^63 - 1) (2^63) f"

definition u64_trunc_f64 :: "fl \<Rightarrow> int option trap" where
  "u64_trunc_f64 f = trunc_between 0 (2^64 - 1) (2^64) f"

definition i64_trunc_f64 :: "fl \<Rightarrow> int option trap" where
  "i64_trunc_f64 f = trunc_between (- (2^63)) (2^63 - 1) (2^63) f"

definition f32_min :: "fl \<Rightarrow> fl \<Rightarrow> fl" where
  "f32_min a b = (if fl_lt a b then a else b)"

definition f32_max :: "fl \<Rightarrow> fl \<Rightarrow> fl" where
  "f32_max a b = (if fl_lt b a then a else b)"

definition f64_min :: "fl \<Rightarrow> fl \<Rightarrow> fl" where
  "f64_min a b = (if fl_lt a b then a else b)"

definition f64_max :: "fl \<Rightarrow> fl \<Rightarrow> fl" where
  "f64_max a b = (if fl_lt b a then a else b)"

text \<open>The functions of the C library on rationals. \<^verbatim>\<open>round\<close> takes a half away from zero.\<close>

definition map_fl :: "(rat \<Rightarrow> int) \<Rightarrow> fl \<Rightarrow> fl" where
  "map_fl g f = (case f of Fin r \<Rightarrow> Fin (of_int (g r)) | _ \<Rightarrow> f)"

definition c_round :: "rat \<Rightarrow> int" where
  "c_round r = (if r < 0 then - \<lfloor>- r + 1/2\<rfloor> else \<lfloor>r + 1/2\<rfloor>)"

definition f32_trunc_f32 :: "fl \<Rightarrow> fl" where "f32_trunc_f32 f = map_fl toward_zero f"
definition f32_floor :: "fl \<Rightarrow> fl" where "f32_floor a = map_fl floor a"
definition f32_ceil :: "fl \<Rightarrow> fl" where "f32_ceil a = map_fl ceiling a"
definition f32_nearest :: "fl \<Rightarrow> fl" where "f32_nearest a = map_fl c_round a"
definition f64_floor :: "fl \<Rightarrow> fl" where "f64_floor a = map_fl floor a"
definition f64_ceil :: "fl \<Rightarrow> fl" where "f64_ceil a = map_fl ceiling a"
definition f64_nearest :: "fl \<Rightarrow> fl" where "f64_nearest a = map_fl c_round a"

subsection \<open>The operators of WebAssembly\<close>

text \<open>An operator without a result is \<open>None\<close>; the runtime aborts there.\<close>

definition wasm_div_u :: "'a::len word \<Rightarrow> 'a word \<Rightarrow> 'a word option" where
  "wasm_div_u a b = (if b = 0 then None else Some (a div b))"

definition wasm_rem_u :: "'a::len word \<Rightarrow> 'a word \<Rightarrow> 'a word option" where
  "wasm_rem_u a b = (if b = 0 then None else Some (a mod b))"

definition wasm_div_s :: "'a::len word \<Rightarrow> 'a word \<Rightarrow> 'a word option" where
  "wasm_div_s a b =
     (if b = 0 \<or> sint a sdiv sint b = 2 ^ (LENGTH('a) - 1) then None else Some (word_of_int (sint a sdiv sint b)))"

definition wasm_rem_s :: "'a::len word \<Rightarrow> 'a word \<Rightarrow> 'a word option" where
  "wasm_rem_s a b = (if b = 0 then None else Some (word_of_int (sint a smod sint b)))"

definition or_abort :: "'a option \<Rightarrow> 'a trap" where
  "or_abort r = (case r of None \<Rightarrow> Inl (-1) | Some v \<Rightarrow> Inr v)"

lemma sdiv_overflow:
  fixes x y m :: int
  assumes "- m \<le> x" "x < m" "y \<noteq> 0"
  shows "x sdiv y = m \<longleftrightarrow> x = - m \<and> y = -1"
proof
  assume eq: "x sdiv y = m"
  have pos: "0 < m" using assms by linarith
  have q: "\<bar>x\<bar> div \<bar>y\<bar> = m"
  proof -
    have "\<bar>x sdiv y\<bar> = \<bar>x\<bar> div \<bar>y\<bar> \<or> x sdiv y = 0"
      by (auto simp: signed_divide_int_def abs_mult sgn_if pos_imp_zdiv_nonneg_iff assms(3))
    then show ?thesis using eq pos by auto
  qed
  then have "m * \<bar>y\<bar> \<le> \<bar>x\<bar>"
  proof -
    have "m * \<bar>y\<bar> + \<bar>x\<bar> mod \<bar>y\<bar> = \<bar>x\<bar>" using div_mult_mod_eq [of "\<bar>x\<bar>" "\<bar>y\<bar>"] q by simp
    moreover have "0 \<le> \<bar>x\<bar> mod \<bar>y\<bar>" using assms(3) by simp
    ultimately show ?thesis by linarith
  qed
  moreover have "m \<le> m * \<bar>y\<bar>" using pos assms(3) by simp
  ultimately have x: "x = - m" using assms by linarith
  then have "m * \<bar>y\<bar> \<le> m * 1" using \<open>m * \<bar>y\<bar> \<le> \<bar>x\<bar>\<close> pos by simp
  then have "\<bar>y\<bar> = 1" using pos assms(3) by (simp add: mult_le_cancel_left)
  then show "x = - m \<and> y = -1" using x eq pos by (auto simp: abs_if signed_divide_int_def sgn_if split: if_splits)
next
  assume "x = - m \<and> y = -1"
  then show "x sdiv y = m" by simp
qed

lemma div_s_code:
  fixes a b m :: "'a::len word"
  assumes "sint m = - (2 ^ (LENGTH('a) - 1))"
  shows "wasm_div_s a b = (if b = 0 \<or> (a = m \<and> b = -1) then None else Some (c_div a b))"
proof -
  have "sint a sdiv sint b = 2 ^ (LENGTH('a) - 1) \<longleftrightarrow> a = m \<and> b = -1" if "b \<noteq> 0"
  proof -
    have nz: "sint b \<noteq> 0" using that by (metis signed_eq_0_iff)
    have "sint a = - (2 ^ (LENGTH('a) - 1)) \<longleftrightarrow> a = m"
      unfolding assms [symmetric] by (metis signed_word_eqI)
    moreover have "sint b = -1 \<longleftrightarrow> b = -1"
      by (metis signed_word_eqI signed_minus_1)
    ultimately show ?thesis
      using sdiv_overflow [of "2 ^ (LENGTH('a) - 1)" "sint a" "sint b"] sint_ge [of a] sint_lt [of a] nz by simp
  qed
  then show ?thesis by (auto simp: wasm_div_s_def c_div_def)
qed

lemma sint_INT32_MIN: "sint INT32_MIN = - (2 ^ (LENGTH(32) - 1))"
  by (simp add: INT32_MIN_def)

lemma sint_INT64_MIN: "sint INT64_MIN = - (2 ^ (LENGTH(64) - 1))"
  by (simp add: INT64_MIN_def)

lemma rem_minus_1: "wasm_rem_s a (-1) = Some 0"
  by (simp add: wasm_rem_s_def signed_modulo_int_def)

lemma wasm_i32_div: "i32_div a b = or_abort (wasm_div_s a b)"
  by (simp add: i32_div_def awsm_assert_def or_abort_def div_s_code [OF sint_INT32_MIN])

lemma wasm_i64_div: "i64_div a b = or_abort (wasm_div_s a b)"
  by (simp add: i64_div_def awsm_assert_def or_abort_def div_s_code [OF sint_INT64_MIN])

text \<open>C38: the runtime divides as WebAssembly prescribes, with the same traps, with one exception:
  the remainder of the smallest integer by \<open>-1\<close>, which is 0, makes it abort.\<close>

theorem awsm_division:
  "u32_div a b = or_abort (wasm_div_u a b) \<and> u32_rem a b = or_abort (wasm_rem_u a b) \<and>
   u64_div c d = or_abort (wasm_div_u c d) \<and> u64_rem c d = or_abort (wasm_rem_u c d) \<and>
   i32_div a b = or_abort (wasm_div_s a b) \<and> i64_div c d = or_abort (wasm_div_s c d) \<and>
   i32_rem a b = (if a = INT32_MIN \<and> b = -1 then Inl (-1) else or_abort (wasm_rem_s a b)) \<and>
   i64_rem c d = (if c = INT64_MIN \<and> d = -1 then Inl (-1) else or_abort (wasm_rem_s c d)) \<and>
   wasm_rem_s INT32_MIN (-1) = Some 0 \<and> wasm_rem_s INT64_MIN (-1) = Some 0"
  by (simp add: u32_div_def u32_rem_def u64_div_def u64_rem_def wasm_div_u_def wasm_rem_u_def
      wasm_i32_div wasm_i64_div i32_rem_def i64_rem_def rem_minus_1 awsm_assert_def)
    (auto simp: or_abort_def wasm_rem_s_def c_rem_def)

subsection \<open>Rotation is rotation\<close>

lemma unat_and_31: "unat (w AND 31) = unat w mod 32" for w :: u32
  using unat_and_mask [of w 5] by (simp add: mask_eq_exp_minus_1)

lemma unat_and_63: "unat (w AND 63) = unat w mod 64" for w :: u32
  using unat_and_mask [of w 6] by (simp add: mask_eq_exp_minus_1)

lemma rotl_bits:
  fixes n :: "'a::len word"
  assumes "k < LENGTH('a)" and l: "l = (LENGTH('a) - k) mod LENGTH('a)"
  shows "push_bit k n OR drop_bit l n = word_rotl k n"
proof (cases "k = 0")
  case False
  have "bit (push_bit k n OR drop_bit l n) i = bit (word_rotl k n) i" if i: "i < LENGTH('a)" for i
  proof (cases "k \<le> i")
    case True
    then have "(i + (LENGTH('a) - k)) mod LENGTH('a) = i - k"
      using i assms(1) mod_add_self2 [of "i - k" "LENGTH('a)"] by (simp add: algebra_simps)
    moreover have "\<not> bit n (i + l)"
      using True False l assms(1) by (auto dest: bit_imp_le_length)
    ultimately show ?thesis
      using True i assms(1) by (simp add: bit_or_iff bit_push_bit_iff bit_drop_bit_eq bit_word_rotl_iff ac_simps)
  next
    case below: False
    have "l = LENGTH('a) - k" using l False by simp
    then show ?thesis
      using below i assms(1) False
      by (simp add: bit_or_iff bit_push_bit_iff bit_drop_bit_eq bit_word_rotl_iff ac_simps)
  qed
  then show ?thesis by (rule bit_word_eqI)
qed (use l in \<open>auto intro: bit_word_eqI simp: bit_word_rotl_iff\<close>)

lemma rotr_bits:
  fixes n :: "'a::len word"
  assumes "k < LENGTH('a)" and l: "l = (LENGTH('a) - k) mod LENGTH('a)"
  shows "drop_bit k n OR push_bit l n = word_rotr k n"
proof (cases "k = 0")
  case False
  have lk: "l = LENGTH('a) - k" using l False by simp
  have "bit (drop_bit k n OR push_bit l n) i = bit (word_rotr k n) i" if i: "i < LENGTH('a)" for i
  proof (cases "l \<le> i")
    case True
    then have "(i + k) mod LENGTH('a) = i - l"
      using i assms(1) lk mod_add_self2 [of "i - l" "LENGTH('a)"] by simp
    moreover have "\<not> bit n (i + k)"
      using True lk assms(1) by (auto dest: bit_imp_le_length)
    ultimately show ?thesis
      using True i by (simp add: bit_or_iff bit_push_bit_iff bit_drop_bit_eq bit_word_rotr_iff ac_simps)
  next
    case below: False
    then have "i + k < LENGTH('a)" using lk by simp
    then show ?thesis
      using below i by (simp add: bit_or_iff bit_push_bit_iff bit_drop_bit_eq bit_word_rotr_iff ac_simps)
  qed
  then show ?thesis by (rule bit_word_eqI)
qed (use l in \<open>auto intro: bit_word_eqI simp: bit_word_rotr_iff\<close>)

lemma unat_neg: "unat (- c) = (if c = 0 then 0 else 2 ^ 32 - unat c)" for c :: u32
proof (cases "c = 0")
  case False
  have le: "unat c \<le> 2 ^ 32" using unat_u32_less [of c] by simp
  have "(word_of_nat (2 ^ 32 - unat c) :: u32) = word_of_nat (2 ^ 32) - c"
    by (subst of_nat_diff [OF le]) simp
  then have "- c = word_of_nat (2 ^ 32 - unat c)" by simp
  moreover have "2 ^ 32 - unat c < 2 ^ 32" using False by (simp add: unat_gt_0)
  ultimately show ?thesis using False by (simp add: unat_of_nat)
qed simp

lemma neg_31: "unat (- c AND 31) = (32 - unat c) mod 32" if "unat c < 32" for c :: u32
proof (cases "c = 0")
  case False
  have "(4294967296 - k) mod 32 = (32 - k) mod (32 :: nat)" if "k < 32" for k
  proof -
    have "4294967296 - k = 32 * 134217727 + (32 - k)" using that by simp
    then show ?thesis by (simp only: mod_mult_self4)
  qed
  then show ?thesis using that False by (simp add: unat_and_31 unat_neg)
qed simp

lemma neg_63: "unat (- c AND 63) = (64 - unat c) mod 64" if "unat c < 64" for c :: u32
proof (cases "c = 0")
  case False
  have "(4294967296 - k) mod 64 = (64 - k) mod (64 :: nat)" if "k < 64" for k
  proof -
    have "4294967296 - k = 64 * 67108863 + (64 - k)" using that by simp
    then show ?thesis by (simp only: mod_mult_self4)
  qed
  then show ?thesis using that False by (simp add: unat_and_63 unat_neg)
qed simp

lemma word_rot_mod:
  fixes w :: "'a::len word"
  shows "word_rotl (m mod LENGTH('a)) w = word_rotl m w" "word_rotr (m mod LENGTH('a)) w = word_rotr m w"
  by (auto intro!: bit_word_eqI simp: bit_word_rotl_iff bit_word_rotr_iff mod_add_right_eq)

text \<open>The rotations of the runtime are rotations, for every count.\<close>

theorem awsm_rotation:
  "rotl_u32 n c = word_rotl (unat c) n \<and> rotr_u32 n c = word_rotr (unat c) n \<and>
   rotl_u64 m d = word_rotl (unat d) m \<and> rotr_u64 m d = word_rotr (unat d) m"
proof -
  have c: "unat ((c mod 32) AND 31) = unat c mod 32"
    by (simp add: unat_and_31 unat_mod)
  have nc: "unat (- ((c mod 32) AND 31) AND 31) = (32 - unat c mod 32) mod 32"
    by (simp add: neg_31 c)
  have "unat d mod 64 < 2 ^ 32" by (rule less_trans [OF mod_less_divisor]) simp_all
  then have d: "unat (ucast (d mod 64) AND 63 :: u32) = unat d mod 64"
    by (simp add: unat_and_63 unat_mod unsigned_ucast_eq take_bit_nat_eq_self)
  have nd: "unat (- (ucast (d mod 64) AND 63 :: u32) AND 63) = (64 - unat d mod 64) mod 64"
    by (simp add: neg_63 d)
  show ?thesis
    unfolding rotl_u32_def rotr_u32_def rotl_u64_def rotr_u64_def Let_def c nc d nd
    using rotl_bits [of "unat c mod 32" "(32 - unat c mod 32) mod 32" n]
      rotr_bits [of "unat c mod 32" "(32 - unat c mod 32) mod 32" n]
      rotl_bits [of "unat d mod 64" "(64 - unat d mod 64) mod 64" m]
      rotr_bits [of "unat d mod 64" "(64 - unat d mod 64) mod 64" m]
      word_rot_mod [of "unat c" n] word_rot_mod [of "unat d" m]
    by simp
qed

subsection \<open>Conversions\<close>

text \<open>WebAssembly truncates every number whose truncation is in the range.\<close>

definition wasm_trunc :: "int \<Rightarrow> int \<Rightarrow> fl \<Rightarrow> int option" where
  "wasm_trunc lo hi f = (case f of Fin r \<Rightarrow>
       (if lo \<le> toward_zero r \<and> toward_zero r \<le> hi then Some (toward_zero r) else None) | _ \<Rightarrow> None)"

lemma toward_zero_le: "0 \<le> hi \<Longrightarrow> toward_zero r \<le> hi \<longleftrightarrow> r < of_int hi + 1"
  by (auto simp: toward_zero_def ceiling_le_iff floor_le_iff)

lemma toward_zero_ge: "lo \<le> 0 \<Longrightarrow> lo \<le> toward_zero r \<longleftrightarrow> of_int lo - 1 < r"
  by (auto simp: toward_zero_def le_ceiling_iff le_floor_iff)

text \<open>The code agrees below the smallest integer and from one past the largest, where the conversion
  of C is undefined, up to two gaps: a number between \<open>lo - 1\<close> and \<open>lo\<close> aborts, and \<open>hi + 1\<close>
  itself passes the assertion.\<close>

lemma trunc_between_cases:
  assumes "lo \<le> 0" and "0 \<le> hi"
  shows "trunc_between lo hi (of_int hi + 1) f =
    (case f of Fin r \<Rightarrow>
       if r = of_int hi + 1 then Inr None
       else if r < of_int lo then Inl (-1)
       else map_sum id Some (or_abort (wasm_trunc lo hi f))
     | _ \<Rightarrow> Inl (-1))"
proof (cases f)
  case (Fin r)
  then show ?thesis
    using assms by (auto simp: trunc_between_def awsm_assert_def c_convert_def wasm_trunc_def or_abort_def
        toward_zero_le toward_zero_ge)
qed (simp_all add: trunc_between_def awsm_assert_def)

lemmas awsm_trunc_defs = u32_trunc_f32_def i32_trunc_f32_def u32_trunc_f64_def i32_trunc_f64_def
  u64_trunc_f32_def i64_trunc_f32_def u64_trunc_f64_def i64_trunc_f64_def

lemma awsm_trunc_gap:
  "u32_trunc_f32 (Fin 4294967296) = Inr None" "u32_trunc_f64 (Fin 4294967296) = Inr None"
  "i32_trunc_f64 (Fin 2147483648) = Inr None" "u32_trunc_f64 (Fin (- 1/2)) = Inl (-1)"
  "wasm_trunc 0 (2 ^ 32 - 1) (Fin (- 1/2)) = Some 0"
proof -
  have half: "\<lceil>- (1/2) :: rat\<rceil> = 0" by (rule ceiling_unique) auto
  show "wasm_trunc 0 (2 ^ 32 - 1) (Fin (- 1/2)) = Some 0"
    using half by (simp add: wasm_trunc_def toward_zero_def)
qed (simp_all add: awsm_trunc_defs trunc_between_def awsm_assert_def c_convert_def toward_zero_def)

text \<open>\<^verbatim>\<open>f32_min\<close> and \<^verbatim>\<open>f32_max\<close> forget a first operand that is not a number, \<^verbatim>\<open>f32_nearest\<close> takes a half
  away from zero; WebAssembly keeps the one and rounds the other to even.\<close>

lemma f32_min_drops_nan: "f32_min NaN (Fin r) = Fin r" "f32_max NaN (Fin r) = Fin r"
  by (simp_all add: f32_min_def f32_max_def)

lemma f32_nearest_half: "f32_nearest (Fin (1/2)) = Fin 1" "f32_nearest (Fin (- 5/2)) = Fin (- 3)"
  by (simp_all add: f32_nearest_def map_fl_def c_round_def)

text \<open>On a pair of numbers they are the minimum and the maximum, and away from halves
  \<^verbatim>\<open>f32_nearest\<close> is within one half of its argument.\<close>

lemma f32_min_max: "f32_min (Fin a) (Fin b) = Fin (min a b)" "f32_max (Fin a) (Fin b) = Fin (max a b)"
  by (auto simp: f32_min_def f32_max_def min_def max_def)

lemma c_round_near: "\<bar>of_int (c_round r) - r\<bar> \<le> 1/2"
proof -
  have "\<bar>of_int \<lfloor>x + 1/2\<rfloor> - x\<bar> \<le> 1/2" for x :: rat
    using floor_correct [of "x + 1/2"] unfolding abs_le_iff by linarith
  from this [of r] this [of "- r"] show ?thesis
    unfolding c_round_def abs_le_iff by (auto split: if_splits)
qed

end
