(* ===== verification/ByteMem.thy ===== *)
theory ByteMem
  imports BoxErrors
begin

text \<open>
  Memory as bytes at 32-bit addresses that wrap around, the copies of the C library on it, and
  little-endian values of any width in it. The RAM disk and the linear memory of the
  WebAssembly runtime are ranges of this memory.
\<close>

type_synonym byte_mem = "u32 \<Rightarrow> u8"

definition load_bytes :: "byte_mem \<Rightarrow> u32 \<Rightarrow> nat \<Rightarrow> u8 list" where
  "load_bytes m a k = map (\<lambda>i. m (a + word_of_nat i)) [0..<k]"

fun store_bytes :: "byte_mem \<Rightarrow> u32 \<Rightarrow> u8 list \<Rightarrow> byte_mem" where
  "store_bytes m a [] = m"
| "store_bytes m a (b # bs) = store_bytes (m(a := b)) (a + 1) bs"

text \<open>\<^verbatim>\<open>memcpy(d, s, k)\<close> of ranges that do not overlap, and \<^verbatim>\<open>memset(d, v, k)\<close>.\<close>

definition mem_copy :: "byte_mem \<Rightarrow> u32 \<Rightarrow> u32 \<Rightarrow> nat \<Rightarrow> byte_mem" where
  "mem_copy m d s k = store_bytes m d (load_bytes m s k)"

definition mem_set :: "byte_mem \<Rightarrow> u32 \<Rightarrow> u8 \<Rightarrow> nat \<Rightarrow> byte_mem" where
  "mem_set m d v k = store_bytes m d (replicate k v)"

text \<open>The address \<open>x\<close> is within \<open>k\<close> bytes of \<open>a\<close>.\<close>

definition in_range :: "u32 \<Rightarrow> nat \<Rightarrow> u32 \<Rightarrow> bool" where
  "in_range a k x \<longleftrightarrow> unat (x - a) < k"

definition apart :: "u32 \<Rightarrow> nat \<Rightarrow> u32 \<Rightarrow> nat \<Rightarrow> bool" where
  "apart a k b l \<longleftrightarrow> (\<forall>i<k. \<not> in_range b l (a + word_of_nat i))"

subsection \<open>Loading and storing\<close>

lemma length_load_bytes [simp]: "length (load_bytes m a k) = k"
  by (simp add: load_bytes_def)

lemma nth_load_bytes [simp]: "i < k \<Longrightarrow> load_bytes m a k ! i = m (a + word_of_nat i)"
  by (simp add: load_bytes_def)

lemma unat_of_nat_u32: "i < 2 ^ 32 \<Longrightarrow> unat (word_of_nat i :: u32) = i"
  by (simp add: unat_of_nat)

lemma in_range_add: "i < 2 ^ 32 \<Longrightarrow> in_range a k (a + word_of_nat i) \<longleftrightarrow> i < k"
  by (simp add: in_range_def unat_of_nat_u32)

lemma in_rangeE:
  assumes "in_range a k x"
  obtains i where "i < k" and "i < 2 ^ 32" and "x = a + word_of_nat i"
proof
  show "unat (x - a) < k" using assms by (simp add: in_range_def)
  show "unat (x - a) < 2 ^ 32" using unat_u32_less [of "x - a"] by simp
  show "x = a + word_of_nat (unat (x - a))" by simp
qed

lemma store_bytes_apply:
  "length bs \<le> 2 ^ 32 \<Longrightarrow>
     store_bytes m a bs x = (if in_range a (length bs) x then bs ! unat (x - a) else m x)"
proof (induction bs arbitrary: m a)
  case Nil
  then show ?case by (simp add: in_range_def)
next
  case (Cons b bs)
  have IH: "store_bytes (m(a := b)) (a + 1) bs x =
      (if in_range (a + 1) (length bs) x then bs ! unat (x - (a + 1)) else (m(a := b)) x)"
    by (rule Cons.IH) (use Cons.prems in simp)
  show ?case
  proof (cases "x = a")
    case True
    have "unat (x - (a + 1)) = 2 ^ 32 - 1"
      using True by (simp add: unsigned_minus_1_eq_mask mask_eq_exp_minus_1)
    then have "\<not> in_range (a + 1) (length bs) x" using Cons.prems by (simp add: in_range_def)
    then show ?thesis using IH True by (simp add: in_range_def)
  next
    case False
    then have "x - a \<noteq> 0" by simp
    then have "unat (x - a) = Suc (unat (x - (a + 1)))"
      using unat_minus_one [of "x - a"] unat_gt_0 [of "x - a"] by (simp add: algebra_simps)
    then show ?thesis using IH False by (simp add: in_range_def)
  qed
qed

lemma load_store_same:
  assumes "length bs \<le> 2 ^ 32" and "k = length bs"
  shows "load_bytes (store_bytes m a bs) a k = bs"
proof (rule nth_equalityI)
  fix i assume "i < length (load_bytes (store_bytes m a bs) a k)"
  then have i: "i < length bs" "i < 2 ^ 32" using assms by auto
  then show "load_bytes (store_bytes m a bs) a k ! i = bs ! i"
    using assms by (simp add: store_bytes_apply in_range_add unat_of_nat_u32)
qed (use assms in simp)

lemma load_store_apart:
  assumes "length bs \<le> 2 ^ 32" and "apart b k a (length bs)"
  shows "load_bytes (store_bytes m a bs) b k = load_bytes m b k"
  using assms by (intro nth_equalityI) (simp_all add: store_bytes_apply apart_def)

lemma store_outside: "length bs \<le> 2 ^ 32 \<Longrightarrow> \<not> in_range a (length bs) x \<Longrightarrow> store_bytes m a bs x = m x"
  by (simp add: store_bytes_apply)

lemma in_range_mono: "in_range a k x \<Longrightarrow> k \<le> l \<Longrightarrow> in_range a l x"
  by (simp add: in_range_def)

text \<open>A range within another one.\<close>

lemma in_range_sub:
  assumes "in_range (a + o1) k x" and "unat o1 + k \<le> n" and "n \<le> 2 ^ 32"
  shows "in_range a n x"
proof -
  obtain i where i: "i < k" "x = a + o1 + word_of_nat i" using assms(1) by (rule in_rangeE)
  have "x - a = o1 + word_of_nat i" using i by simp
  moreover have "unat (o1 + word_of_nat i) = unat o1 + i"
    using i assms(2,3) by (subst unat_add_nat) (simp_all add: unat_of_nat_u32)
  ultimately show ?thesis using i assms(2) by (simp add: in_range_def)
qed

lemma in_range_of_nat:
  assumes "p + k \<le> 2 ^ 32" and "i < 2 ^ 32"
  shows "in_range (a + word_of_nat p) k (a + word_of_nat i) \<longleftrightarrow> p \<le> i \<and> i < p + k"
proof
  assume "in_range (a + word_of_nat p) k (a + word_of_nat i)"
  then obtain j where j: "j < k" "a + word_of_nat i = a + word_of_nat p + word_of_nat j" by (rule in_rangeE)
  then have "(word_of_nat i :: u32) = word_of_nat (p + j)" by simp
  then have "i = p + j"
    using unat_of_nat_u32 [of i] unat_of_nat_u32 [of "p + j"] assms j(1) by simp
  then show "p \<le> i \<and> i < p + k" using j(1) by simp
next
  assume i: "p \<le> i \<and> i < p + k"
  then have w: "a + word_of_nat i = a + word_of_nat p + word_of_nat (i - p)" by (simp add: of_nat_diff)
  have "i - p < 2 ^ 32" "i - p < k" using i assms by auto
  then show "in_range (a + word_of_nat p) k (a + word_of_nat i)"
    unfolding w by (simp only: in_range_add)
qed

lemma load_store_within:
  assumes "p + length bs \<le> n" and "n \<le> 2 ^ 32"
  shows "load_bytes (store_bytes m (a + word_of_nat p) bs) a n =
    take p (load_bytes m a n) @ bs @ drop (p + length bs) (load_bytes m a n)"
proof (rule nth_equalityI)
  fix i assume "i < length (load_bytes (store_bytes m (a + word_of_nat p) bs) a n)"
  then have i: "i < n" by simp
  have "unat (a + word_of_nat i - (a + word_of_nat p)) = i - p" if "p \<le> i"
  proof -
    have "a + word_of_nat i - (a + word_of_nat p) = word_of_nat (i - p)"
      using that by (simp add: of_nat_diff)
    then show ?thesis using i assms by (simp add: unat_of_nat_u32)
  qed
  then show "load_bytes (store_bytes m (a + word_of_nat p) bs) a n ! i =
      (take p (load_bytes m a n) @ bs @ drop (p + length bs) (load_bytes m a n)) ! i"
    using i assms by (auto simp: store_bytes_apply in_range_of_nat nth_append)
qed (use assms in simp)

subsection \<open>Little-endian values\<close>

primrec le_word :: "u8 list \<Rightarrow> 'a::len word" where
  "le_word [] = 0"
| "le_word (b # bs) = ucast b OR push_bit 8 (le_word bs)"

definition le_bytes :: "nat \<Rightarrow> 'a::len word \<Rightarrow> u8 list" where
  "le_bytes k w = map (\<lambda>i. ucast (drop_bit (8 * i) w)) [0..<k]"

lemma length_le_bytes [simp]: "length (le_bytes k w) = k"
  by (simp add: le_bytes_def)

lemma bit_le_word:
  "bit (le_word bs :: 'a::len word) n \<longleftrightarrow>
     n < LENGTH('a) \<and> n div 8 < length bs \<and> bit (bs ! (n div 8)) (n mod 8)"
proof (induction bs arbitrary: n)
  case Nil
  then show ?case by simp
next
  case (Cons b bs)
  show ?case
  proof (cases "n < 8")
    case True
    then show ?thesis by (auto simp: bit_or_iff bit_push_bit_iff bit_ucast_iff)
  next
    case False
    then have "n div 8 = Suc ((n - 8) div 8)" "(n - 8) mod 8 = n mod 8"
      by (simp_all add: div_if [of n] le_mod_geq)
    moreover have "\<not> bit b n" using False by (simp add: bit_u8_ge)
    ultimately show ?thesis
      using False Cons.IH [of "n - 8"] by (auto simp: bit_or_iff bit_push_bit_iff bit_ucast_iff)
  qed
qed

lemma le_word_bytes: "LENGTH('a) = 8 * k \<Longrightarrow> le_word (le_bytes k w) = w" for w :: "'a::len word"
proof (rule bit_word_eqI)
  fix n assume k: "LENGTH('a) = 8 * k" and n: "n < LENGTH('a)"
  then have "n div 8 < k" by auto
  then show "bit (le_word (le_bytes k w) :: 'a word) n = bit w n"
    using n by (simp add: bit_le_word le_bytes_def bit_ucast_iff bit_drop_bit_eq)
qed

lemma le_bytes_word:
  assumes "length bs = k" and "LENGTH('a::len) = 8 * k"
  shows "le_bytes k (le_word bs :: 'a word) = bs"
proof (rule nth_equalityI)
  fix i assume "i < length (le_bytes k (le_word bs :: 'a word))"
  then have i: "i < k" by simp
  have "bit (ucast (drop_bit (8 * i) (le_word bs :: 'a word)) :: u8) n = bit (bs ! i) n" if "n < 8" for n
  proof -
    have "(8 * i + n) div 8 = i" "(8 * i + n) mod 8 = n" using that by auto
    then show ?thesis using that i assms by (simp add: bit_ucast_iff bit_drop_bit_eq bit_le_word)
  qed
  then show "le_bytes k (le_word bs :: 'a word) ! i = bs ! i"
    using i by (simp add: le_bytes_def) (rule bit_word_eqI, simp)
qed (use assms in simp)

definition load_le :: "byte_mem \<Rightarrow> u32 \<Rightarrow> nat \<Rightarrow> 'a::len word" where
  "load_le m a k = le_word (load_bytes m a k)"

definition store_le :: "byte_mem \<Rightarrow> u32 \<Rightarrow> nat \<Rightarrow> 'a::len word \<Rightarrow> byte_mem" where
  "store_le m a k v = store_bytes m a (le_bytes k v)"

lemma load_store_le:
  "LENGTH('a) = 8 * k \<Longrightarrow> k \<le> 2 ^ 32 \<Longrightarrow> load_le (store_le m a k v) a k = (v :: 'a::len word)"
  by (simp add: load_le_def store_le_def load_store_same le_word_bytes)

lemma load_store_le_apart:
  "apart b l a k \<Longrightarrow> k \<le> 2 ^ 32 \<Longrightarrow> load_le (store_le m a k v) b l = load_le m b l"
  by (simp add: load_le_def store_le_def load_store_apart)

end
