(* ===== verification/RamDisk.thy ===== *)
theory RamDisk
  imports ByteMem
begin

text \<open>
  The block device in RAM (examples/armv7m-mpu-littlefs/bd.c, and the same file in the other
  littlefs examples). The array \<^verbatim>\<open>bd\<close> is the range of \<open>BD_SIZE\<close> bytes at the address \<open>bd\<close> of
  the memory; the benchmark hooks, which only move a clock, are the parameters \<open>stop\<close> and
  \<open>start\<close>.
\<close>

record 'c disk_sys =
  dmem :: byte_mem
  clk :: 'c

definition BD_SIZE :: u32 where "BD_SIZE = 0x4000"
definition BD_BLOCK_SIZE :: u32 where "BD_BLOCK_SIZE = 512"

definition bd_block_count :: u32 where "bd_block_count = BD_SIZE div BD_BLOCK_SIZE"
definition bd_block_size :: u32 where "bd_block_size = BD_BLOCK_SIZE"

definition bd_read :: "('c \<Rightarrow> 'c) \<Rightarrow> ('c \<Rightarrow> 'c) \<Rightarrow> u32 \<Rightarrow> u32 \<Rightarrow> u32 \<Rightarrow> u32 \<Rightarrow> u32 \<Rightarrow> 'c disk_sys \<Rightarrow> int \<times> 'c disk_sys"
where
  "bd_read stop start bd block off buffer sz s =
     (let s = s\<lparr>clk := stop (clk s)\<rparr> in
      if block * BD_BLOCK_SIZE + off + sz > BD_SIZE then (fail_with EINVAL, s\<lparr>clk := start (clk s)\<rparr>)
      else
        let s = s\<lparr>dmem := mem_copy (dmem s) buffer (bd + (block * BD_BLOCK_SIZE + off)) (unat sz)\<rparr>
        in (0, s\<lparr>clk := start (clk s)\<rparr>))"

definition bd_prog :: "('c \<Rightarrow> 'c) \<Rightarrow> ('c \<Rightarrow> 'c) \<Rightarrow> u32 \<Rightarrow> u32 \<Rightarrow> u32 \<Rightarrow> u32 \<Rightarrow> u32 \<Rightarrow> 'c disk_sys \<Rightarrow> int \<times> 'c disk_sys"
where
  "bd_prog stop start bd block off buffer sz s =
     (let s = s\<lparr>clk := stop (clk s)\<rparr> in
      if block * BD_BLOCK_SIZE + off + sz > BD_SIZE then (fail_with EINVAL, s\<lparr>clk := start (clk s)\<rparr>)
      else
        let s = s\<lparr>dmem := mem_copy (dmem s) (bd + (block * BD_BLOCK_SIZE + off)) buffer (unat sz)\<rparr>
        in (0, s\<lparr>clk := start (clk s)\<rparr>))"

definition bd_erase :: "u32 \<Rightarrow> 'c disk_sys \<Rightarrow> int \<times> 'c disk_sys" where
  "bd_erase block s = (0, s)"

definition bd_sync :: "'c disk_sys \<Rightarrow> int \<times> 'c disk_sys" where
  "bd_sync s = (0, s)"

definition bd_eraseall :: "('c \<Rightarrow> 'c) \<Rightarrow> ('c \<Rightarrow> 'c) \<Rightarrow> u32 \<Rightarrow> 'c disk_sys \<Rightarrow> int \<times> 'c disk_sys" where
  "bd_eraseall stop start bd s =
     (let s = s\<lparr>clk := stop (clk s)\<rparr>;
          s = s\<lparr>dmem := mem_set (dmem s) bd 0 (unat BD_SIZE)\<rparr>
      in (0, s\<lparr>clk := start (clk s)\<rparr>))"

subsection \<open>The disk as a list of bytes\<close>

definition disk_image :: "u32 \<Rightarrow> 'c disk_sys \<Rightarrow> u8 list" where
  "disk_image bd s = load_bytes (dmem s) bd (unat BD_SIZE)"

text \<open>An access the device should serve, and its place in the image.\<close>

definition on_disk :: "u32 \<Rightarrow> u32 \<Rightarrow> u32 \<Rightarrow> bool" where
  "on_disk block off sz \<longleftrightarrow> unat block * 512 + unat off + unat sz \<le> unat BD_SIZE"

definition disk_pos :: "u32 \<Rightarrow> u32 \<Rightarrow> nat" where
  "disk_pos block off = unat block * 512 + unat off"

lemma on_disk_sums:
  assumes "on_disk block off sz"
  shows "unat (block * BD_BLOCK_SIZE + off) = disk_pos block off"
    and "unat (block * BD_BLOCK_SIZE + off + sz) = disk_pos block off + unat sz"
    and "\<not> block * BD_BLOCK_SIZE + off + sz > BD_SIZE"
proof -
  have b: "unat block * 512 + unat off + unat sz \<le> 16384"
    using assms by (simp add: on_disk_def BD_SIZE_def)
  have m: "unat (block * BD_BLOCK_SIZE) = unat block * 512"
    using b by (subst unat_mult_nat) (simp_all add: BD_BLOCK_SIZE_def)
  show p: "unat (block * BD_BLOCK_SIZE + off) = disk_pos block off"
    using b m by (subst unat_add_nat) (simp_all add: disk_pos_def)
  show q: "unat (block * BD_BLOCK_SIZE + off + sz) = disk_pos block off + unat sz"
    using b p by (subst unat_add_nat) (simp_all add: disk_pos_def)
  show "\<not> block * BD_BLOCK_SIZE + off + sz > BD_SIZE"
    using b q by (simp add: word_less_nat_alt BD_SIZE_def disk_pos_def)
qed

lemma bd_read_on_disk:
  assumes "on_disk block off sz"
  shows "bd_read stop start bd block off buffer sz s =
    (0, s\<lparr>dmem := store_bytes (dmem s) buffer (take (unat sz) (drop (disk_pos block off) (disk_image bd s))),
          clk := start (stop (clk s))\<rparr>)"
proof -
  have "disk_pos block off + unat sz \<le> unat BD_SIZE" using assms by (simp add: on_disk_def disk_pos_def)
  moreover have "word_of_nat (disk_pos block off) = block * BD_BLOCK_SIZE + off"
    unfolding on_disk_sums(1) [OF assms, symmetric] by simp
  ultimately have "load_bytes (dmem s) (bd + (block * BD_BLOCK_SIZE + off)) (unat sz) =
      take (unat sz) (drop (disk_pos block off) (disk_image bd s))"
    by (intro nth_equalityI) (auto simp: disk_image_def ac_simps)
  then show ?thesis
    using on_disk_sums(3) [OF assms] by (simp add: bd_read_def mem_copy_def)
qed

text \<open>Programming changes the bytes of the access and nothing else, on the disk and beside it.\<close>

lemma bd_prog_on_disk:
  assumes "on_disk block off sz" and "bd_prog stop start bd block off buffer sz s = (r, s')"
  shows "r = 0"
    and "disk_image bd s' = take (disk_pos block off) (disk_image bd s) @ load_bytes (dmem s) buffer (unat sz) @
       drop (disk_pos block off + unat sz) (disk_image bd s)"
    and "\<not> in_range bd (unat BD_SIZE) x \<Longrightarrow> dmem s' x = dmem s x"
proof -
  let ?p = "disk_pos block off" and ?d = "load_bytes (dmem s) buffer (unat sz)"
  have b: "?p + unat sz \<le> unat BD_SIZE" using assms(1) by (simp add: on_disk_def disk_pos_def)
  have w: "block * BD_BLOCK_SIZE + off = word_of_nat ?p"
    unfolding on_disk_sums(1) [OF assms(1), symmetric] by simp
  have s': "s' = s\<lparr>dmem := store_bytes (dmem s) (bd + word_of_nat ?p) ?d, clk := start (stop (clk s))\<rparr>" "r = 0"
    using assms(2) on_disk_sums(3) [OF assms(1)] w by (auto simp: bd_prog_def mem_copy_def)
  show "r = 0" by (rule s')
  show "disk_image bd s' = take ?p (disk_image bd s) @ ?d @ drop (?p + unat sz) (disk_image bd s)"
    using load_store_within [of ?p ?d "unat BD_SIZE" "dmem s" bd] b
    by (simp add: s' disk_image_def BD_SIZE_def)
  assume x: "\<not> in_range bd (unat BD_SIZE) x"
  have "\<not> in_range (bd + word_of_nat ?p) (unat sz) x"
    using in_range_sub [of bd "word_of_nat ?p" "unat sz" x "unat BD_SIZE"] x b
    by (auto simp: unat_of_nat_u32 BD_SIZE_def)
  then show "dmem s' x = dmem s x"
    using b by (simp add: s' store_outside BD_SIZE_def)
qed

lemma bd_eraseall_image:
  assumes "bd_eraseall stop start bd s = (r, s')"
  shows "r = 0 \<and> disk_image bd s' = replicate (unat BD_SIZE) 0 \<and>
    (\<not> in_range bd (unat BD_SIZE) x \<longrightarrow> dmem s' x = dmem s x)"
  using assms by (auto simp: bd_eraseall_def mem_set_def disk_image_def load_store_same store_outside BD_SIZE_def)

subsection \<open>Properties\<close>

text \<open>C36: what is programmed is read back. A program and a later read of an access on the disk both
  succeed, and the buffer of the read then holds the bytes that were programmed, even when other
  accesses that do not touch them came in between (the buffers are outside of the disk).\<close>

theorem bd_prog_read:
  assumes on: "on_disk block off sz" and on2: "on_disk block2 off2 sz2"
    and prog: "bd_prog stop start bd block off buffer sz s = (r, s1)"
    and other: "bd_prog stop start bd block2 off2 buffer2 sz2 s1 = (r2, s2)"
    and disjoint: "disk_pos block off + unat sz \<le> disk_pos block2 off2 \<or> disk_pos block2 off2 + unat sz2 \<le> disk_pos block off"
    and read: "bd_read stop start bd block off buffer3 sz s2 = (r3, s3)"
  shows "r = 0 \<and> r2 = 0 \<and> r3 = 0 \<and>
    load_bytes (dmem s3) buffer3 (unat sz) = load_bytes (dmem s) buffer (unat sz)"
proof -
  let ?p = "disk_pos block off" and ?q = "disk_pos block2 off2"
  have b: "?p + unat sz \<le> unat BD_SIZE" "?q + unat sz2 \<le> unat BD_SIZE"
    using on on2 by (simp_all add: on_disk_def disk_pos_def)
  have img: "length (disk_image bd s) = unat BD_SIZE" "length (disk_image bd s1) = unat BD_SIZE"
    by (simp_all add: disk_image_def)
  note i1 = bd_prog_on_disk(2) [OF on prog] and i2 = bd_prog_on_disk(2) [OF on2 other]
  have "take (unat sz) (drop ?p (disk_image bd s1)) = load_bytes (dmem s) buffer (unat sz)"
    unfolding i1 using b img by simp
  moreover have "take (unat sz) (drop ?p (disk_image bd s2)) = take (unat sz) (drop ?p (disk_image bd s1))"
    using disjoint
  proof
    assume "?p + unat sz \<le> ?q"
    then show ?thesis unfolding i2 using b img
      by (intro nth_equalityI) (auto simp: nth_append)
  next
    assume "?q + unat sz2 \<le> ?p"
    then show ?thesis unfolding i2 using b img
      by (intro nth_equalityI) (auto simp: nth_append)
  qed
  moreover have "dmem s3 = store_bytes (dmem s2) buffer3 (take (unat sz) (drop ?p (disk_image bd s2)))" "r3 = 0"
    using read bd_read_on_disk [OF on, of stop start bd buffer3 s2] by auto
  moreover have "unat sz \<le> 2 ^ 32" using unat_u32_less [of sz] by simp
  ultimately show ?thesis
    using bd_prog_on_disk(1) [OF on prog] bd_prog_on_disk(1) [OF on2 other]
    by (simp add: load_store_same)
qed

definition demo_disk :: "unit disk_sys" where
  "demo_disk = \<lparr>dmem = (\<lambda>a. ucast a), clk = ()\<rparr>"

theorem bd_prog_read_witness:
  "load_bytes (dmem (snd (bd_read id id 0x20000000 1 4 0x200 2
     (snd (bd_prog id id 0x20000000 2 0 0x300 8 (snd (bd_prog id id 0x20000000 1 4 0x105 2 demo_disk)))))))
     0x200 2 = [5, 6]"
proof -
  have "load_bytes (dmem demo_disk) 0x105 2 = [5, 6]" by code_simp
  then show ?thesis
    using bd_prog_read [OF _ _ prod.collapse [symmetric] prod.collapse [symmetric] _ prod.collapse [symmetric],
        of 1 4 2 2 0 8 id id "0x20000000" "0x105" demo_disk "0x300" "0x200"]
    by (simp add: on_disk_def disk_pos_def BD_SIZE_def)
qed

text \<open>The bound of an access is a sum that wraps: this read of 768 bytes passes it and starts 512
  bytes in front of the disk.\<close>

lemma bd_read_wraps:
  "\<not> on_disk 0x7fffff 0 768 \<and>
   bd_read stop start bd 0x7fffff 0 buffer 768 s =
     (0, s\<lparr>dmem := mem_copy (dmem s) buffer (bd - 512) 768, clk := start (stop (clk s))\<rparr>)"
proof -
  have "bd + 0xfffffe00 = bd - 512" by (simp add: diff_conv_add_uminus del: add_uminus_conv_diff)
  then show ?thesis
    by (intro conjI) (simp add: on_disk_def BD_SIZE_def,
      simp only: \<open>bd + 0xfffffe00 = bd - 512\<close> [symmetric] bd_read_def, simp add: BD_SIZE_def BD_BLOCK_SIZE_def)
qed

lemma bd_refuses_past_end:
  assumes "unat block < 2 ^ 22" and "unat off < 2 ^ 30" and "unat sz < 2 ^ 30" and "\<not> on_disk block off sz"
  shows "bd_read stop start bd block off buffer sz s = (fail_with EINVAL, s\<lparr>clk := start (stop (clk s))\<rparr>)"
    and "bd_prog stop start bd block off buffer sz s = (fail_with EINVAL, s\<lparr>clk := start (stop (clk s))\<rparr>)"
proof -
  have m: "unat (block * BD_BLOCK_SIZE) = unat block * 512"
    using assms(1) by (subst unat_mult_nat) (simp_all add: BD_BLOCK_SIZE_def)
  have p: "unat (block * BD_BLOCK_SIZE + off) = unat block * 512 + unat off"
    using assms m by (subst unat_add_nat) simp_all
  have "unat (block * BD_BLOCK_SIZE + off + sz) = unat block * 512 + unat off + unat sz"
    using assms p by (subst unat_add_nat) simp_all
  then have "block * BD_BLOCK_SIZE + off + sz > BD_SIZE"
    using assms(4) by (simp add: word_less_nat_alt on_disk_def BD_SIZE_def)
  then show "bd_read stop start bd block off buffer sz s = (fail_with EINVAL, s\<lparr>clk := start (stop (clk s))\<rparr>)"
    and "bd_prog stop start bd block off buffer sz s = (fail_with EINVAL, s\<lparr>clk := start (stop (clk s))\<rparr>)"
    by (simp_all add: bd_read_def bd_prog_def)
qed

end
