(* ===== verification/WasmMemory.thy ===== *)
theory WasmMemory
  imports WasmNumeric RamDisk BoxStartup BoxLifecycle
begin

text \<open>
  Memory, function table and stack of the WebAssembly runtime
  (examples/awsm-hello/box1/runtime/bb.c, and the memory functions of runtime.c beside it). The
  linear memory is the range of \<open>MEMORY_SIZE\<close> bytes at the address \<open>base\<close> of the memory of the
  host. A result is \<open>Inl\<close> of the error of an abort or \<open>Inr\<close>.
\<close>

definition MEMORY_SIZE :: u32 where "MEMORY_SIZE = 65536"
definition WASM_PAGE_SIZE :: u32 where "WASM_PAGE_SIZE = 1024 * 64"
definition TABLE_COUNT :: u32 where "TABLE_COUNT = 512"

definition to_ptr :: "u32 \<Rightarrow> u32 \<Rightarrow> u32" where
  "to_ptr base off = base + off"

definition from_ptr :: "u32 \<Rightarrow> u32 \<Rightarrow> u32" where
  "from_ptr base ptr = ptr - base"

subsection \<open>Loads and stores\<close>

text \<open>The values of the floating point accesses are bit patterns.\<close>

definition get_i8 :: "u32 \<Rightarrow> byte_mem \<Rightarrow> u32 \<Rightarrow> 8 word trap" where
  "get_i8 base m off =
     (if off > MEMORY_SIZE - 1 then Inl (fail_with EFAULT) else Inr (load_le m (to_ptr base off) 1))"

definition get_i16 :: "u32 \<Rightarrow> byte_mem \<Rightarrow> u32 \<Rightarrow> 16 word trap" where
  "get_i16 base m off =
     (if off > MEMORY_SIZE - 2 then Inl (fail_with EFAULT) else Inr (load_le m (to_ptr base off) 2))"

definition get_i32 :: "u32 \<Rightarrow> byte_mem \<Rightarrow> u32 \<Rightarrow> 32 word trap" where
  "get_i32 base m off =
     (if off > MEMORY_SIZE - 4 then Inl (fail_with EFAULT) else Inr (load_le m (to_ptr base off) 4))"

definition get_i64 :: "u32 \<Rightarrow> byte_mem \<Rightarrow> u32 \<Rightarrow> 64 word trap" where
  "get_i64 base m off =
     (if off > MEMORY_SIZE - 8 then Inl (fail_with EFAULT) else Inr (load_le m (to_ptr base off) 8))"

definition get_f32 :: "u32 \<Rightarrow> byte_mem \<Rightarrow> u32 \<Rightarrow> 32 word trap" where
  "get_f32 base m off =
     (if off > MEMORY_SIZE - 4 then Inl (fail_with EFAULT) else Inr (load_le m (to_ptr base off) 4))"

definition get_f64 :: "u32 \<Rightarrow> byte_mem \<Rightarrow> u32 \<Rightarrow> 64 word trap" where
  "get_f64 base m off =
     (if off > MEMORY_SIZE - 8 then Inl (fail_with EFAULT) else Inr (load_le m (to_ptr base off) 8))"

definition set_i8 :: "u32 \<Rightarrow> byte_mem \<Rightarrow> u32 \<Rightarrow> 8 word \<Rightarrow> byte_mem trap" where
  "set_i8 base m off v =
     (if off > MEMORY_SIZE - 1 then Inl (fail_with EFAULT) else Inr (store_le m (to_ptr base off) 1 v))"

definition set_i16 :: "u32 \<Rightarrow> byte_mem \<Rightarrow> u32 \<Rightarrow> 16 word \<Rightarrow> byte_mem trap" where
  "set_i16 base m off v =
     (if off > MEMORY_SIZE - 2 then Inl (fail_with EFAULT) else Inr (store_le m (to_ptr base off) 2 v))"

definition set_i32 :: "u32 \<Rightarrow> byte_mem \<Rightarrow> u32 \<Rightarrow> 32 word \<Rightarrow> byte_mem trap" where
  "set_i32 base m off v =
     (if off > MEMORY_SIZE - 4 then Inl (fail_with EFAULT) else Inr (store_le m (to_ptr base off) 4 v))"

definition set_i64 :: "u32 \<Rightarrow> byte_mem \<Rightarrow> u32 \<Rightarrow> 64 word \<Rightarrow> byte_mem trap" where
  "set_i64 base m off v =
     (if off > MEMORY_SIZE - 8 then Inl (fail_with EFAULT) else Inr (store_le m (to_ptr base off) 8 v))"

definition set_f32 :: "u32 \<Rightarrow> byte_mem \<Rightarrow> u32 \<Rightarrow> 32 word \<Rightarrow> byte_mem trap" where
  "set_f32 base m off v =
     (if off > MEMORY_SIZE - 4 then Inl (fail_with EFAULT) else Inr (store_le m (to_ptr base off) 4 v))"

definition set_f64 :: "u32 \<Rightarrow> byte_mem \<Rightarrow> u32 \<Rightarrow> 64 word \<Rightarrow> byte_mem trap" where
  "set_f64 base m off v =
     (if off > MEMORY_SIZE - 8 then Inl (fail_with EFAULT) else Inr (store_le m (to_ptr base off) 8 v))"

definition get_memory_ptr_for_runtime :: "u32 \<Rightarrow> u32 \<Rightarrow> u32 \<Rightarrow> u32 trap" where
  "get_memory_ptr_for_runtime base off bounds =
     (if off > MEMORY_SIZE - bounds then Inl (fail_with EFAULT) else Inr (to_ptr base off))"

definition expand_memory :: "unit trap" where
  "expand_memory = Inl (fail_with ENOMEM)"

subsection \<open>The memory functions of runtime.c\<close>

definition initialize_region :: "u32 \<Rightarrow> byte_mem \<Rightarrow> u32 \<Rightarrow> u32 \<Rightarrow> u32 \<Rightarrow> byte_mem trap" where
  "initialize_region base m offset data_count data =
     (if \<not> MEMORY_SIZE \<ge> data_count then Inl (-1)
      else if \<not> offset < MEMORY_SIZE - data_count then Inl (-1)
      else case get_memory_ptr_for_runtime base offset data_count of
        Inl e \<Rightarrow> Inl e
      | Inr p \<Rightarrow> Inr (mem_copy m p data (unat data_count)))"

definition instruction_memory_size :: int where
  "instruction_memory_size = sint (MEMORY_SIZE div WASM_PAGE_SIZE)"

text \<open>The loop with \<open>n\<close> calls of \<^verbatim>\<open>expand_memory\<close> to go.\<close>

fun grow_loop :: "nat \<Rightarrow> unit trap" where
  "grow_loop 0 = Inr ()"
| "grow_loop (Suc n) = (case expand_memory of Inl e \<Rightarrow> Inl e | Inr _ \<Rightarrow> grow_loop n)"

definition instruction_memory_grow :: "int \<Rightarrow> int trap" where
  "instruction_memory_grow count =
     (let prev_size = instruction_memory_size in
      case grow_loop (nat count) of Inl e \<Rightarrow> Inl e | Inr _ \<Rightarrow> Inr prev_size)"

text \<open>\<open>heap_base\<close> is \<^verbatim>\<open>runtime_heap_base\<close>. Once around the loop aborts, so the loop is a condition.\<close>

definition allocate_n_bytes :: "u32 \<Rightarrow> u32 \<Rightarrow> (u32 \<times> u32) trap" where
  "allocate_n_bytes n heap_base =
     (let res = heap_base; heap_base = heap_base + n in
      if MEMORY_SIZE < heap_base then (case expand_memory of Inl e \<Rightarrow> Inl e | Inr _ \<Rightarrow> Inr (res, heap_base))
      else Inr (res, heap_base))"

definition allocate_n_bytes_ptr :: "u32 \<Rightarrow> u32 \<Rightarrow> u32 \<Rightarrow> (u32 \<times> u32) trap" where
  "allocate_n_bytes_ptr base n heap_base =
     (case allocate_n_bytes n heap_base of
        Inl e \<Rightarrow> Inl e
      | Inr (addr, heap_base) \<Rightarrow>
          (case get_memory_ptr_for_runtime base addr n of Inl e \<Rightarrow> Inl e | Inr p \<Rightarrow> Inr (p, heap_base)))"

text \<open>The search for the end of a string; \<open>None\<close> is the overflow of the counter.\<close>

function string_loop :: "u32 \<Rightarrow> byte_mem \<Rightarrow> u32 \<Rightarrow> nat \<Rightarrow> u32 trap option" where
  "string_loop base m offset i =
     (if 2 ^ 31 - 1 \<le> i then None
      else case get_memory_ptr_for_runtime base offset (word_of_nat i + 1) of
        Inl e \<Rightarrow> Some (Inl e)
      | Inr p \<Rightarrow>
          if m (p + word_of_nat i) = 0 then Some (Inr (to_ptr base offset))
          else string_loop base m offset (i + 1))"
  by auto
termination by (relation "measure (\<lambda>(base, m, offset, i). 2 ^ 31 - i)") auto

declare string_loop.simps [simp del]

definition get_memory_string :: "u32 \<Rightarrow> byte_mem \<Rightarrow> u32 \<Rightarrow> u32 trap option" where
  "get_memory_string base m offset =
     (case get_memory_ptr_for_runtime base offset 1 of
        Inl e \<Rightarrow> Some (Inl e)
      | Inr naive_ptr \<Rightarrow> string_loop base m offset 0)"

subsection \<open>The function table\<close>

record table_entry =
  type_id :: u32
  func_ptr :: u32

definition get_function_from_table :: "table_entry list \<Rightarrow> u32 \<Rightarrow> u32 \<Rightarrow> u32 trap" where
  "get_function_from_table table idx ty =
     (if idx \<ge> TABLE_COUNT then Inl (fail_with EFAULT)
      else
        let f = table ! unat idx in
        if type_id f \<noteq> ty \<or> func_ptr f = 0 then Inl (fail_with EFAULT) else Inr (func_ptr f))"

definition add_function_to_table :: "table_entry list \<Rightarrow> u32 \<Rightarrow> u32 \<Rightarrow> u32 \<Rightarrow> table_entry list trap" where
  "add_function_to_table table idx ty fp =
     (if idx \<ge> TABLE_COUNT then Inl (fail_with EFAULT)
      else Inr (table[unat idx := \<lparr>type_id = ty, func_ptr = fp\<rparr>]))"

definition clear_table :: "table_entry list" where
  "clear_table = replicate (unat TABLE_COUNT) \<lparr>type_id = 0, func_ptr = 0\<rparr>"

subsection \<open>The data stack\<close>

text \<open>\<open>datasp\<close> is \<^verbatim>\<open>__box_datasp\<close>, which starts at \<^verbatim>\<open>__stack_start\<close>. NULL is 0.\<close>

definition stack_start :: "u32 \<Rightarrow> u32" where "stack_start memory_start = memory_start + 4"
definition stack_end :: "u32 \<Rightarrow> u32" where "stack_end memory_start = memory_start + 16384"

definition wasm_push :: "u32 \<Rightarrow> u32 \<Rightarrow> u32 \<Rightarrow> u32 \<times> u32" where
  "wasm_push memory_end sz datasp =
     (let psp = datasp in
      if psp + sz > memory_end then (0, datasp) else (psp, psp + sz))"

definition wasm_pop :: "u32 \<Rightarrow> u32 \<Rightarrow> u32" where
  "wasm_pop sz datasp = datasp - sz"

subsection \<open>Startup, imports and exports of the box\<close>

text \<open>The words of the linear memory are the section \<open>wmem\<close>, in the word view of BoxStartup; \<open>import_var\<close> is the
  address of \<^verbatim>\<open>__box_importjumptable\<close>. \<open>libc\<close> is libc's init, \<open>populate\<close> the generated code that
  fills table, globals and memory.\<close>

record awsm_sections = sections +
  wmem_start :: u32
  wmem_end :: u32

definition awsm_box_init ::
  "'e awsm_sections_scheme \<Rightarrow> u32 \<Rightarrow> u32 \<Rightarrow> (mem \<Rightarrow> mem) \<Rightarrow> (mem \<Rightarrow> mem) \<Rightarrow> mem \<Rightarrow> (int \<times> mem) option"
where
  "awsm_box_init l import_var importjumptable libc populate mem =
     Option.bind (copy_data (data_init_start l) (data_start l) (data_end l) mem) (\<lambda>mem.
     Option.bind (zero_bss (bss_start l) (bss_end l) mem) (\<lambda>mem.
     Option.bind (zero_bss (wmem_start l) (wmem_end l) mem) (\<lambda>mem.
       Some (0, populate (libc (mem(import_var := importjumptable)))))))"

text \<open>The import wrappers: \<open>imp\<close> is the function of the host at the index of the import table.\<close>

definition env_box_write :: "(int \<Rightarrow> u32 \<Rightarrow> u32 \<Rightarrow> 's \<Rightarrow> int \<times> 's) \<Rightarrow> u32 \<Rightarrow> int \<Rightarrow> u32 \<Rightarrow> u32 \<Rightarrow> 's \<Rightarrow> int \<times> 's" where
  "env_box_write imp base a0 a1 sz s = imp a0 (to_ptr base a1) sz s"

definition env_box_flush :: "(int \<Rightarrow> 's \<Rightarrow> int \<times> 's) \<Rightarrow> int \<Rightarrow> 's \<Rightarrow> int \<times> 's" where
  "env_box_flush imp a0 s = imp a0 s"

definition env_sys_ping :: "(int \<Rightarrow> 's \<Rightarrow> int \<times> 's) \<Rightarrow> int \<Rightarrow> 's \<Rightarrow> int \<times> 's" where
  "env_sys_ping imp a0 s = imp a0 s"

definition env_bd_prog ::
  "(u32 \<Rightarrow> u32 \<Rightarrow> u32 \<Rightarrow> u32 \<Rightarrow> 's \<Rightarrow> int \<times> 's) \<Rightarrow> u32 \<Rightarrow> u32 \<Rightarrow> u32 \<Rightarrow> u32 \<Rightarrow> u32 \<Rightarrow> 's \<Rightarrow> int \<times> 's" where
  "env_bd_prog imp base block off buffer sz s = imp block off (to_ptr base buffer) sz s"

definition env_bd_read ::
  "(u32 \<Rightarrow> u32 \<Rightarrow> u32 \<Rightarrow> u32 \<Rightarrow> 's \<Rightarrow> int \<times> 's) \<Rightarrow> u32 \<Rightarrow> u32 \<Rightarrow> u32 \<Rightarrow> u32 \<Rightarrow> u32 \<Rightarrow> 's \<Rightarrow> int \<times> 's" where
  "env_bd_read imp base block off buffer sz s = imp block off (to_ptr base buffer) sz s"

definition env_bd_erase :: "(u32 \<Rightarrow> 's \<Rightarrow> int \<times> 's) \<Rightarrow> u32 \<Rightarrow> 's \<Rightarrow> int \<times> 's" where
  "env_bd_erase imp block s = imp block s"

definition export_file_read ::
  "(int \<Rightarrow> u32 \<Rightarrow> u32 \<Rightarrow> 's \<Rightarrow> int \<times> 's) \<Rightarrow> u32 \<Rightarrow> int \<Rightarrow> u32 \<Rightarrow> u32 \<Rightarrow> 's \<Rightarrow> int \<times> 's" where
  "export_file_read wasmf base fd buffer sz s = wasmf fd (from_ptr base buffer) sz s"

definition export_file_open ::
  "(u32 \<Rightarrow> u32 \<Rightarrow> 's \<Rightarrow> int \<times> 's) \<Rightarrow> u32 \<Rightarrow> u32 \<Rightarrow> u32 \<Rightarrow> 's \<Rightarrow> int \<times> 's" where
  "export_file_open wasmf base path flags s = wasmf (from_ptr base path) flags s"

lemma from_to_ptr: "from_ptr base (to_ptr base off) = off" "to_ptr base (from_ptr base p) = p"
  by (simp_all add: from_ptr_def to_ptr_def)

subsection \<open>The contract of a linear memory\<close>

text \<open>Accesses of \<open>n\<close> bytes: they trap exactly when they leave the memory, a load gives what was stored
  last, and nothing outside of the memory changes.\<close>

locale linear_memory =
  fixes base :: u32 and n :: nat
    and ld :: "byte_mem \<Rightarrow> u32 \<Rightarrow> 'a::len word trap" and st :: "byte_mem \<Rightarrow> u32 \<Rightarrow> 'a word \<Rightarrow> byte_mem trap"
  assumes get_trap: "ld m off = Inl e \<longleftrightarrow> 65536 < unat off + n \<and> e = fail_with EFAULT"
    and set_trap: "st m off v = Inl e \<longleftrightarrow> 65536 < unat off + n \<and> e = fail_with EFAULT"
    and get_set: "st m off v = Inr m' \<Longrightarrow> ld m' off = Inr v"
    and get_other: "st m off v = Inr m' \<Longrightarrow> unat off + n \<le> unat off2 \<or> unat off2 + n \<le> unat off \<Longrightarrow>
      ld m' off2 = ld m off2"
    and confined: "st m off v = Inr m' \<Longrightarrow> \<not> in_range base 65536 x \<Longrightarrow> m' x = m x"
begin

primrec stores :: "(u32 \<times> 'a word) list \<Rightarrow> byte_mem \<Rightarrow> byte_mem trap" where
  "stores [] m = Inr m"
| "stores (w # ws) m = (case st m (fst w) (snd w) of Inl e \<Rightarrow> Inl e | Inr m \<Rightarrow> stores ws m)"

lemma stores_confined: "stores ws m = Inr m' \<Longrightarrow> \<not> in_range base 65536 x \<Longrightarrow> m' x = m x"
  by (induction ws arbitrary: m) (auto simp: confined split: sum.splits)

text \<open>The store that is followed only by stores to other places is the one a load sees.\<close>

lemma load_last:
  "stores (ws @ (off, v) # us) m = Inr m' \<Longrightarrow>
     \<forall>(off2, _)\<in>set us. unat off + n \<le> unat off2 \<or> unat off2 + n \<le> unat off \<Longrightarrow> ld m' off = Inr v"
proof (induction ws arbitrary: m)
  case Nil
  have keep: "ld m0 off = Inr v \<Longrightarrow> stores us m0 = Inr m' \<Longrightarrow> ld m' off = Inr v" for m0
    using Nil.prems(2)
  proof (induction us arbitrary: m0)
    case (Cons w us)
    then obtain m1 where m1: "st m0 (fst w) (snd w) = Inr m1" "stores us m1 = Inr m'"
      by (auto split: sum.splits)
    have "ld m1 off = ld m0 off"
      by (rule get_other [OF m1(1)]) (use Cons.prems(3) in auto)
    then show ?case using Cons.IH [of m1] m1(2) Cons.prems by simp
  qed simp
  obtain m1 where m1: "st m off v = Inr m1" "stores us m1 = Inr m'"
    using Nil.prems(1) by (auto split: sum.splits)
  show ?case by (rule keep [OF get_set [OF m1(1)] m1(2)])
next
  case (Cons w ws)
  then show ?case by (auto split: sum.splits)
qed

end

lemma in_memory_iff:
  assumes "0 < n" and "n \<le> 8"
  shows "off > MEMORY_SIZE - word_of_nat n \<longleftrightarrow> 65536 < unat off + n"
proof -
  have "unat (MEMORY_SIZE - word_of_nat n) = 65536 - n"
    using assms by (subst unat_sub) (simp_all add: word_le_nat_alt MEMORY_SIZE_def unat_of_nat_u32)
  then show ?thesis using assms by (simp add: word_less_nat_alt less_diff_conv2)
qed

lemmas in_memory_iffs = in_memory_iff [of 1, simplified] in_memory_iff [of 2, simplified]
  in_memory_iff [of 4, simplified] in_memory_iff [of 8, simplified]

lemma access_apart:
  assumes "unat off + n \<le> 65536" "unat off2 + n \<le> 65536"
    and "unat off + n \<le> unat off2 \<or> unat off2 + n \<le> unat off"
  shows "apart (base + off2) n (base + off) n"
  unfolding apart_def
proof (intro allI impI)
  fix i assume i: "i < n"
  have w: "base + off2 + word_of_nat i = base + word_of_nat (unat off2 + i)" "base + off = base + word_of_nat (unat off)"
    by simp_all
  have "unat off + n \<le> 2 ^ 32" "unat off2 + i < 2 ^ 32" using i assms by auto
  then show "\<not> in_range (base + off) n (base + off2 + word_of_nat i)"
    unfolding w using in_range_of_nat [of "unat off" n "unat off2 + i" base] i assms(3) by auto
qed

text \<open>All six pairs of accesses have the same shape.\<close>

lemma linear_memory_shape:
  fixes ld :: "byte_mem \<Rightarrow> u32 \<Rightarrow> 'a::len word trap"
  assumes len: "LENGTH('a) = 8 * n" and n: "n \<le> 8"
    and ld: "\<And>m off. ld m off = (if 65536 < unat off + n then Inl (fail_with EFAULT) else Inr (load_le m (base + off) n))"
    and st: "\<And>m off v. st m off v = (if 65536 < unat off + n then Inl (fail_with EFAULT) else Inr (store_le m (base + off) n v))"
  shows "linear_memory base n ld st"
proof
  fix m m' :: byte_mem and off off2 :: u32 and v :: "'a word" and e x
  show "ld m off = Inl e \<longleftrightarrow> 65536 < unat off + n \<and> e = fail_with EFAULT" by (auto simp: ld)
  show "st m off v = Inl e \<longleftrightarrow> 65536 < unat off + n \<and> e = fail_with EFAULT" by (auto simp: st)
  assume s: "st m off v = Inr m'"
  then have m': "unat off + n \<le> 65536" "m' = store_le m (base + off) n v" by (auto simp: st split: if_splits)
  show "ld m' off = Inr v"
    using m' n by (simp add: ld load_store_le [OF len])
  show "ld m' off2 = ld m off2" if "unat off + n \<le> unat off2 \<or> unat off2 + n \<le> unat off"
    using m' n access_apart [of off n off2 base] that by (simp add: ld load_store_le_apart)
  show "m' x = m x" if x: "\<not> in_range base 65536 x"
  proof -
    have "\<not> in_range (base + off) n x" using in_range_sub [of base off n x 65536] m'(1) x by auto
    then show ?thesis using n by (simp add: m'(2) store_le_def store_outside)
  qed
qed


interpretation mem_i8: linear_memory base 1 "get_i8 base" "set_i8 base"
  by (rule linear_memory_shape) (simp_all add: get_i8_def set_i8_def to_ptr_def in_memory_iffs)

interpretation mem_i16: linear_memory base 2 "get_i16 base" "set_i16 base"
  by (rule linear_memory_shape) (simp_all add: get_i16_def set_i16_def to_ptr_def in_memory_iffs)

interpretation mem_i32: linear_memory base 4 "get_i32 base" "set_i32 base"
  by (rule linear_memory_shape) (simp_all add: get_i32_def set_i32_def to_ptr_def in_memory_iffs)

interpretation mem_i64: linear_memory base 8 "get_i64 base" "set_i64 base"
  by (rule linear_memory_shape) (simp_all add: get_i64_def set_i64_def to_ptr_def in_memory_iffs)

interpretation mem_f32: linear_memory base 4 "get_f32 base" "set_f32 base"
  by (rule linear_memory_shape) (simp_all add: get_f32_def set_f32_def to_ptr_def in_memory_iffs)

interpretation mem_f64: linear_memory base 8 "get_f64 base" "set_f64 base"
  by (rule linear_memory_shape) (simp_all add: get_f64_def set_f64_def to_ptr_def in_memory_iffs)

subsection \<open>Properties\<close>

text \<open>The stores a box can execute.\<close>

datatype wasm_store =
    StI8 u32 "8 word" | StI16 u32 "16 word" | StI32 u32 "32 word" | StI64 u32 "64 word"
  | StF32 u32 "32 word" | StF64 u32 "64 word"

fun exec_store :: "u32 \<Rightarrow> wasm_store \<Rightarrow> byte_mem \<Rightarrow> byte_mem trap" where
  "exec_store base (StI8 off v) m = set_i8 base m off v"
| "exec_store base (StI16 off v) m = set_i16 base m off v"
| "exec_store base (StI32 off v) m = set_i32 base m off v"
| "exec_store base (StI64 off v) m = set_i64 base m off v"
| "exec_store base (StF32 off v) m = set_f32 base m off v"
| "exec_store base (StF64 off v) m = set_f64 base m off v"

primrec wasm_stores :: "u32 \<Rightarrow> wasm_store list \<Rightarrow> byte_mem \<Rightarrow> byte_mem trap" where
  "wasm_stores base [] m = Inr m"
| "wasm_stores base (w # ws) m = (case exec_store base w m of Inl e \<Rightarrow> Inl e | Inr m \<Rightarrow> wasm_stores base ws m)"

lemma wasm_store_confined: "exec_store base w m = Inr m' \<Longrightarrow> \<not> in_range base 65536 x \<Longrightarrow> m' x = m x"
  by (cases w)
    (auto intro: mem_i8.confined mem_i16.confined mem_i32.confined mem_i64.confined mem_f32.confined mem_f64.confined)

text \<open>C30: the stores of a box stay in its linear memory. Whatever stores of whatever widths it executes,
  to any offsets, no byte outside of the 64 KiB at \<open>base\<close> changes.\<close>

theorem wasm_stores_confined:
  assumes "wasm_stores base ws m = Inr m'" and "\<not> in_range base 65536 x"
  shows "m' x = m x"
  using assms
proof (induction ws arbitrary: m)
  case (Cons w ws)
  then show ?case using wasm_store_confined by (auto split: sum.splits)
qed simp

theorem wasm_stores_confined_witness:
  "\<exists>m'. wasm_stores 0x1000 [StI32 65532 7, StI8 0 1] (\<lambda>_. 9) = Inr m' \<and> m' 0x11000 = 9"
proof -
  obtain m' where m': "wasm_stores 0x1000 [StI32 65532 7, StI8 0 1] (\<lambda>_. 9) = Inr m'"
    by (simp add: set_i32_def set_i8_def MEMORY_SIZE_def)
  then show ?thesis
    using wasm_stores_confined [OF m', of "0x11000"] by (simp add: in_range_def)
qed

text \<open>An access of the runtime traps exactly when WebAssembly says so, a load gives back what was
  stored, and a store leaves every load beside it alone.\<close>

theorem wasm_load_store:
  "(get_i32 base m off = Inl e \<longleftrightarrow> 65536 < unat off + 4 \<and> e = fail_with EFAULT) \<and>
   (get_i64 base m off = Inl e \<longleftrightarrow> 65536 < unat off + 8 \<and> e = fail_with EFAULT) \<and>
   (set_i32 base m off v = Inr m' \<longrightarrow> get_i32 base m' off = Inr v \<and>
     (\<forall>off2. unat off + 4 \<le> unat off2 \<or> unat off2 + 4 \<le> unat off \<longrightarrow> get_i32 base m' off2 = get_i32 base m off2)) \<and>
   (set_i64 base m off w = Inr m' \<longrightarrow> get_i64 base m' off = Inr w \<and>
     (\<forall>off2. unat off + 8 \<le> unat off2 \<or> unat off2 + 8 \<le> unat off \<longrightarrow> get_i64 base m' off2 = get_i64 base m off2))"
  by (intro conjI impI allI)
    (simp_all add: mem_i32.get_trap mem_i64.get_trap mem_i32.get_set mem_i64.get_set mem_i32.get_other mem_i64.get_other)

theorem wasm_load_store_witness:
  "\<exists>m'. set_i32 0x1000 (\<lambda>_. 9) 65532 7 = Inr m' \<and> get_i32 0x1000 m' 65532 = Inr 7 \<and>
    get_i32 0x1000 m' 16 = get_i32 0x1000 (\<lambda>_. 9) 16 \<and> get_i32 0x1000 (\<lambda>_. 9) 65533 = Inl (fail_with EFAULT)"
proof -
  obtain m' where m': "set_i32 0x1000 (\<lambda>_. 9) 65532 7 = Inr m'"
    by (simp add: set_i32_def MEMORY_SIZE_def)
  have w: "unat (16 :: u32) + 4 \<le> unat (65532 :: u32)" by simp
  show ?thesis
    using m' w wasm_load_store [where base = "0x1000" and m = "\<lambda>_. 9" and off = 65533 and e = "fail_with EFAULT"]
      wasm_load_store [where base = "0x1000" and m = "\<lambda>_. 9" and off = 65532 and v = 7 and m' = m'] by auto
qed

text \<open>The generated code fills the table with calls of \<^verbatim>\<open>add_function_to_table\<close>, one for each triple of
  index, type and function.\<close>

primrec add_functions :: "(u32 \<times> u32 \<times> u32) list \<Rightarrow> table_entry list \<Rightarrow> table_entry list trap" where
  "add_functions [] table = Inr table"
| "add_functions (f # fs) table =
     (case add_function_to_table table (fst f) (fst (snd f)) (snd (snd f)) of
        Inl e \<Rightarrow> Inl e | Inr table \<Rightarrow> add_functions fs table)"

lemma add_functions_nth:
  "add_functions fs table = Inr table' \<Longrightarrow> length table = unat TABLE_COUNT \<Longrightarrow> i < TABLE_COUNT \<Longrightarrow>
     length table' = unat TABLE_COUNT \<and>
     table' ! unat i = (case map_of (rev fs) i of None \<Rightarrow> table ! unat i
       | Some (ty, f) \<Rightarrow> \<lparr>type_id = ty, func_ptr = f\<rparr>)"
proof (induction fs arbitrary: table)
  case (Cons f fs)
  obtain idx ty fp where f: "f = (idx, ty, fp)" by (cases f)
  let ?table = "table[unat idx := \<lparr>type_id = ty, func_ptr = fp\<rparr>]"
  have rest: "add_functions fs ?table = Inr table'" "idx < TABLE_COUNT"
    using Cons.prems(1) f by (auto simp: add_function_to_table_def not_le split: if_splits)
  have "?table ! unat i = (if i = idx then \<lparr>type_id = ty, func_ptr = fp\<rparr> else table ! unat i)"
    using Cons.prems(2) rest(2) by (auto simp: word_less_nat_alt nth_list_update word_unat_eq_iff)
  then show ?case
    using Cons.IH [OF rest(1)] Cons.prems(2,3) f by (auto simp: map_add_def split: option.splits)
qed simp

lemma add_functions_index: "add_functions fs table = Inr table' \<Longrightarrow> \<forall>f\<in>set fs. fst f < TABLE_COUNT"
  by (induction fs arbitrary: table) (auto simp: add_function_to_table_def not_le split: if_splits sum.splits)

text \<open>C31: an indirect call is well typed. Looking up an index in the filled table with a type gives a
  function exactly when the last function added at the index was added with this type (and is
  not NULL); in every other case, also beyond the table, it aborts.\<close>

theorem indirect_call_typed:
  assumes "add_functions fs clear_table = Inr table"
  shows "get_function_from_table table idx ty =
    (case map_of (rev fs) idx of
       Some (ty', f) \<Rightarrow> if ty' = ty \<and> f \<noteq> 0 then Inr f else Inl (fail_with EFAULT)
     | None \<Rightarrow> Inl (fail_with EFAULT))"
proof (cases "idx < TABLE_COUNT")
  case True
  have "clear_table ! unat idx = \<lparr>type_id = 0, func_ptr = 0\<rparr>"
    using True by (simp only: clear_table_def word_less_nat_alt nth_replicate)
  moreover have "length clear_table = unat TABLE_COUNT" by (simp add: clear_table_def)
  ultimately have "table ! unat idx = (case map_of (rev fs) idx of None \<Rightarrow> \<lparr>type_id = 0, func_ptr = 0\<rparr>
      | Some (ty, f) \<Rightarrow> \<lparr>type_id = ty, func_ptr = f\<rparr>)"
    using add_functions_nth [OF assms _ True] by (auto split: option.splits)
  then show ?thesis
    using True by (auto simp: get_function_from_table_def not_le split: option.splits)
next
  case False
  have "\<forall>f\<in>set fs. fst f < TABLE_COUNT" using assms by (rule add_functions_index)
  then have "map_of (rev fs) idx = None" using False by (auto simp: map_of_eq_None_iff)
  then show ?thesis using False by (simp add: get_function_from_table_def not_less)
qed

theorem indirect_call_typed_witness:
  "\<exists>table. add_functions [(3, 1, 0x2001), (3, 2, 0x3001)] clear_table = Inr table \<and>
    get_function_from_table table 3 1 = Inl (fail_with EFAULT) \<and> get_function_from_table table 3 2 = Inr 0x3001 \<and>
    get_function_from_table table 600 2 = Inl (fail_with EFAULT)"
proof -
  obtain table where t: "add_functions [(3, 1, 0x2001), (3, 2, 0x3001)] clear_table = Inr table"
    by (simp add: add_function_to_table_def TABLE_COUNT_def)
  show ?thesis
    using t indirect_call_typed [OF t, of 3 1] indirect_call_typed [OF t, of 3 2] indirect_call_typed [OF t, of 600 2]
    by simp
qed

subsection \<open>The way out\<close>

text \<open>the imports hand pointers of the box to the host without a bound, and that lets the box out. With
  the block device of the littlefs example as its imports, a box can put any byte \<open>v\<close> at any
  address \<open>x\<close> of the host: it stores the byte in its memory, programs it to the disk, and reads
  the disk back to the offset of \<open>x\<close>. All three steps succeed.\<close>

theorem awsm_imports_escape:
  "\<exists>m1 s1 s2. set_i8 base (dmem s) 0 v = Inr m1 \<and>
     env_bd_prog (bd_prog stop start bd) base 0 0 0 1 (s\<lparr>dmem := m1\<rparr>) = (0, s1) \<and>
     env_bd_read (bd_read stop start bd) base 0 0 (from_ptr base x) 1 s1 = (0, s2) \<and>
     dmem s2 x = v"
proof -
  define m1 where "m1 = store_le (dmem s) base 1 v"
  have m1: "set_i8 base (dmem s) 0 v = Inr m1" "m1 base = v"
    by (simp_all add: set_i8_def MEMORY_SIZE_def to_ptr_def m1_def store_le_def le_bytes_def)
  have on: "on_disk 0 0 1" by (simp add: on_disk_def BD_SIZE_def)
  obtain r1 s1 where p: "bd_prog stop start bd 0 0 base 1 (s\<lparr>dmem := m1\<rparr>) = (r1, s1)" by fastforce
  have "hd (disk_image bd s1) = v"
    using bd_prog_on_disk(2) [OF on p] m1(2) by (simp add: disk_pos_def load_bytes_def)
  moreover have "length (disk_image bd s1) = 16384" by (simp add: disk_image_def BD_SIZE_def)
  ultimately have "take 1 (disk_image bd s1) = [v]"
    by (cases "disk_image bd s1") auto
  then have r: "bd_read stop start bd 0 0 x 1 s1 = (0, s1\<lparr>dmem := store_bytes (dmem s1) x [v], clk := start (stop (clk s1))\<rparr>)"
    using bd_read_on_disk [OF on, of stop start bd x s1] by (simp add: disk_pos_def)
  show ?thesis
    using m1(1) p bd_prog_on_disk(1) [OF on p] r
    by (auto simp: env_bd_prog_def env_bd_read_def to_ptr_def from_ptr_def)
qed

text \<open>A bound larger than the memory wraps, and the check of a runtime pointer passes.\<close>

lemma runtime_ptr_wraps: "get_memory_ptr_for_runtime base 0x20000 0xf0000000 = Inr (base + 0x20000)"
  by (simp add: get_memory_ptr_for_runtime_def MEMORY_SIZE_def to_ptr_def)

lemma runtime_ptr_bounded:
  assumes "bounds \<le> MEMORY_SIZE"
  shows "get_memory_ptr_for_runtime base off bounds =
    (if 65536 < unat off + unat bounds then Inl (fail_with EFAULT) else Inr (base + off))"
proof -
  have "unat (MEMORY_SIZE - bounds) = 65536 - unat bounds" "unat bounds \<le> 65536"
    using assms by (simp_all add: unat_sub) (simp_all add: MEMORY_SIZE_def word_le_nat_alt)
  then have "off > MEMORY_SIZE - bounds \<longleftrightarrow> 65536 < unat off + unat bounds"
    by (simp add: word_less_nat_alt less_diff_conv2)
  then show ?thesis by (simp add: get_memory_ptr_for_runtime_def to_ptr_def)
qed

text \<open>A data segment is placed where it fits, except one that ends with the memory.\<close>

lemma initialize_region_cases:
  "initialize_region base m off count data =
    (if unat off + unat count < 65536 then Inr (mem_copy m (base + off) data (unat count)) else Inl (-1))"
proof (cases "count \<le> MEMORY_SIZE")
  case True
  then have "unat (MEMORY_SIZE - count) = 65536 - unat count" "unat count \<le> 65536"
    by (simp_all add: unat_sub) (simp_all add: MEMORY_SIZE_def word_le_nat_alt)
  then have "off < MEMORY_SIZE - count \<longleftrightarrow> unat off + unat count < 65536"
    by (simp add: word_less_nat_alt less_diff_conv)
  then show ?thesis using True by (simp add: initialize_region_def runtime_ptr_bounded)
next
  case False
  then have "\<not> unat off + unat count < 65536" by (simp add: word_le_nat_alt MEMORY_SIZE_def)
  then show ?thesis using False by (simp add: initialize_region_def)
qed

lemma memory_grow_cases: "instruction_memory_grow count = (if count \<le> 0 then Inr 1 else Inl (fail_with ENOMEM))"
  by (cases "nat count")
    (auto simp: instruction_memory_grow_def instruction_memory_size_def expand_memory_def MEMORY_SIZE_def WASM_PAGE_SIZE_def)

text \<open>The search for the end of a string finds the first NUL. It aborts at the end of the memory, but
  from offset 0 it runs past it.\<close>

lemma string_ptr:
  assumes "unat off + i < 65536 \<or> off = 0"
  shows "get_memory_ptr_for_runtime base off (word_of_nat i + 1) = Inr (base + off)"
  using assms
proof
  assume i: "unat off + i < 65536"
  have w: "(word_of_nat i + 1 :: u32) = word_of_nat (Suc i)" by (simp add: add.commute)
  have "unat (word_of_nat i + 1 :: u32) = Suc i"
    unfolding w by (rule unat_of_nat_u32) (use i in simp)
  then show ?thesis using i
    by (subst runtime_ptr_bounded) (simp_all add: word_le_nat_alt MEMORY_SIZE_def)
qed (simp add: get_memory_ptr_for_runtime_def to_ptr_def)

lemma string_loop_finds:
  assumes "\<And>j. i \<le> j \<Longrightarrow> j < k \<Longrightarrow> m (base + off + word_of_nat j) \<noteq> 0" and "m (base + off + word_of_nat k) = 0"
    and "i \<le> k" and "unat off + k < 65536 \<or> off = 0 \<and> k < 2 ^ 31 - 1"
  shows "string_loop base m off i = Some (Inr (base + off))"
  using assms
proof (induction "k - i" arbitrary: i)
  case 0
  then have "i = k" by simp
  then show ?case
    using 0 string_ptr [of off i base] by (subst string_loop.simps) (auto simp: to_ptr_def)
next
  case (Suc n)
  then have "i < k" by simp
  then have "string_loop base m off i = string_loop base m off (Suc i)"
    using Suc.prems(1) [of i] Suc.prems(4) string_ptr [of off i base] by (subst string_loop.simps) auto
  then show ?case using Suc.hyps(1) [of "Suc i"] Suc.hyps(2) Suc.prems \<open>i < k\<close> by simp
qed

lemma get_memory_string_finds:
  assumes "\<And>j. j < k \<Longrightarrow> m (base + off + word_of_nat j) \<noteq> 0" and "m (base + off + word_of_nat k) = 0"
    and "unat off + k < 65536 \<or> off = 0 \<and> k < 2 ^ 31 - 1"
  shows "get_memory_string base m off = Some (Inr (base + off))"
  using string_loop_finds [of 0 k m base off] string_ptr [of off 0 base] assms
  by (auto simp: get_memory_string_def)

subsection \<open>The stack\<close>

lemma wasm_push_pop:
  "sp + sz \<le> memory_end \<Longrightarrow> wasm_push memory_end sz sp = (sp, sp + sz) \<and> wasm_pop sz (sp + sz) = sp"
  by (simp add: wasm_push_def wasm_pop_def not_less [symmetric] del: not_less)

lemma wasm_push_full: "memory_end < sp + sz \<Longrightarrow> wasm_push memory_end sz sp = (0, sp)"
  by (simp add: wasm_push_def)

text \<open>The stack region ends at \<open>stack_end\<close>, but the check is against the end of the memory.\<close>

lemma wasm_push_passes_stack_end:
  "wasm_push (0x20000000 + MEMORY_SIZE) 0x8000 (stack_start 0x20000000) = (0x20000004, 0x20008004) \<and>
   stack_end 0x20000000 < 0x20008004"
  by (simp add: wasm_push_def stack_start_def stack_end_def MEMORY_SIZE_def)

subsection \<open>Startup\<close>

text \<open>The generated code and libc start from a linear memory of zeros, with the import table set.\<close>

lemma awsm_box_init_clears:
  assumes "data_end l = slot (data_start l) n" and "unat (data_start l) + 4 * n < 2 ^ 32"
    and "bss_end l = slot (bss_start l) k" and "unat (bss_start l) + 4 * k < 2 ^ 32"
    and "wmem_end l = slot (wmem_start l) w" and "unat (wmem_start l) + 4 * w < 2 ^ 32"
    and "\<forall>i<n. \<forall>j<n. slot (data_init_start l) i \<noteq> slot (data_start l) j"
    and "\<forall>i<w. slot (wmem_start l) i \<noteq> import_var"
  shows "\<exists>mem'. awsm_box_init l import_var imports libc populate mem = Some (0, populate (libc mem')) \<and>
    (\<forall>i<w. mem' (slot (wmem_start l) i) = 0) \<and> mem' import_var = imports"
proof -
  obtain mem1 where m1: "copy_data (data_init_start l) (data_start l) (data_end l) mem = Some mem1"
    using copy_data_ok [OF assms(2,7), of mem] assms(1) by auto
  obtain mem2 where m2: "zero_bss (bss_start l) (bss_end l) mem1 = Some mem2"
    using zero_bss_ok [OF assms(4), of mem1] assms(3) by auto
  obtain mem3 where m3: "zero_bss (wmem_start l) (wmem_end l) mem2 = Some mem3"
    "\<forall>i<w. mem3 (slot (wmem_start l) i) = 0"
    using zero_bss_ok [OF assms(6), of mem2] assms(5) by auto
  show ?thesis
    using m1 m2 m3 assms(8) by (intro exI [of _ "mem3(import_var := imports)"]) (simp add: awsm_box_init_def)
qed

end
