(* ===== verification/AwsmHost.thy ===== *)
theory AwsmHost
  imports JumptableRuntime
begin

text \<open>
  The host's side of a box compiled ahead of time from WebAssembly (examples/awsm-hello/bb.c). The box is
  native code behind a table of functions, called as in the jumptable runtime (theory
  \<open>JumptableRuntime\<close>), with its own data stack behind two more entries of the table. These two are called
  without a frame to jump back to.
\<close>

definition awsm_box1_postinit :: "(nat \<Rightarrow> int \<Rightarrow> jt_run) \<Rightarrow> int \<Rightarrow> jt_run" where
  "awsm_box1_postinit table a0 = jt_protect (table 0 a0)"

definition awsm_box1_push :: "(nat \<Rightarrow> int \<Rightarrow> jt_run) \<Rightarrow> int \<Rightarrow> jt_run" where
  "awsm_box1_push table a0 = table 1 a0"

definition awsm_box1_pop :: "(nat \<Rightarrow> int \<Rightarrow> jt_run) \<Rightarrow> int \<Rightarrow> jt_run" where
  "awsm_box1_pop table a0 = table 2 a0"

definition awsm_box1_load :: "jt_state \<Rightarrow> int \<times> jt_state" where
  "awsm_box1_load s = (0, s)"

definition awsm_box1_init :: "(nat \<Rightarrow> int \<Rightarrow> jt_run) \<Rightarrow> int \<Rightarrow> jt_run" where
  "awsm_box1_init table importjumptable s =
     (if jt_initialized s then (OReturn 0, s)
      else case awsm_box1_load s of
        (err, s1) \<Rightarrow>
          if err \<noteq> 0 then (OReturn err, s1)
          else case awsm_box1_postinit table importjumptable s1 of
            (OReturn err, s2) \<Rightarrow>
              if err \<noteq> 0 then (OReturn err, s2) else (OReturn 0, s2\<lparr>jt_initialized := True\<rparr>)
          | (out, s2) \<Rightarrow> (out, s2))"

definition awsm_export :: "(nat \<Rightarrow> int \<Rightarrow> jt_run) \<Rightarrow> int \<Rightarrow> nat \<Rightarrow> int \<Rightarrow> jt_run" where
  "awsm_export table importjumptable k a0 s =
     (if \<not> jt_initialized s
      then case awsm_box1_init table importjumptable s of
          (OReturn err, s1) \<Rightarrow> if err \<noteq> 0 then (OReturn err, s1) else jt_protect (table k a0) s1
        | (out, s1) \<Rightarrow> (out, s1)
      else jt_protect (table k a0) s)"

definition awsm_box1_hello :: "(nat \<Rightarrow> int \<Rightarrow> jt_run) \<Rightarrow> int \<Rightarrow> jt_run" where
  "awsm_box1_hello table importjumptable = awsm_export table importjumptable 3 0"

definition awsm_box1_ping :: "(nat \<Rightarrow> int \<Rightarrow> jt_run) \<Rightarrow> int \<Rightarrow> int \<Rightarrow> jt_run" where
  "awsm_box1_ping table importjumptable a0 = awsm_export table importjumptable 4 a0"

definition awsm_box1_ping_abort :: "(nat \<Rightarrow> int \<Rightarrow> jt_run) \<Rightarrow> int \<Rightarrow> int \<Rightarrow> jt_run" where
  "awsm_box1_ping_abort table importjumptable a0 = awsm_export table importjumptable 5 a0"

definition awsm_box1_ping_import :: "(nat \<Rightarrow> int \<Rightarrow> jt_run) \<Rightarrow> int \<Rightarrow> int \<Rightarrow> jt_run" where
  "awsm_box1_ping_import table importjumptable a0 = awsm_export table importjumptable 6 a0"

definition awsm_box1_abort :: "int \<Rightarrow> jt_run" where
  "awsm_box1_abort err s0 =
     (let s = s0\<lparr>jt_initialized := False\<rparr> in
      case jt_jmpbuf s of
        Some frame \<Rightarrow> (OJump frame err, s)
      | None \<Rightarrow> (OHalt (Halted err), s))"

definition awsm_box1_clobber :: jt_run where
  "awsm_box1_clobber s = (OReturn 0, s\<lparr>jt_initialized := False\<rparr>)"

subsection \<open>The same life as a jumptable box\<close>

lemma awsm_init_is_jt: "awsm_box1_init table imp = jt_init (table 0 imp)"
  by (intro ext) (simp add: awsm_box1_init_def jt_init_def awsm_box1_load_def jt_load_def awsm_box1_postinit_def
      jt_postinit_def)

lemma awsm_export_is_jt: "awsm_export table imp k a0 = jt_export (table 0 imp) (table k a0)"
  by (intro ext) (simp add: awsm_export_def jt_export_def awsm_init_is_jt)

lemma awsm_abort_is_jt: "awsm_box1_abort = jt_abort"
  by (intro ext) (simp add: awsm_box1_abort_def jt_abort_def)

text \<open>An abort of the box within an export ends the export.\<close>

lemma awsm_export_contained:
  assumes "table 0 imp = jt_boot b0" and "table k a0 = jt_exec (jt_boot b0) b"
  shows "\<exists>r s'. awsm_export table imp k a0 s = (OReturn r, s') \<and> jt_jmpbuf s' = jt_jmpbuf s"
  using export_returns [OF contained_boot [of b0] contained_exec [OF contained_boot [of b0]], of b s] assms
  by (auto simp: awsm_export_is_jt)

text \<open>An abort within a push or a pop, for instance by an assertion of the box's own stack, has no frame
  to go to when the host calls it from outside of an export, and stops the system.\<close>

lemma awsm_stack_abort_halts:
  assumes "jt_jmpbuf s = None" and "table 1 n = awsm_box1_abort err" and "table 2 n = awsm_box1_abort err"
  shows "fst (awsm_box1_push table n s) = OHalt (Halted err)" and "fst (awsm_box1_pop table n s) = OHalt (Halted err)"
  using assms by (simp_all add: awsm_box1_push_def awsm_box1_pop_def awsm_box1_abort_def)

end
