(* ===== verification/WamrNative.thy ===== *)
theory WamrNative
  imports ByteMem Reorder "HOL-Library.Char_ord" "HOL-Library.List_Lexorder"
begin

text \<open>
  Native functions of the WebAssembly interpreter (extra/wamr-modified/common/wasm_native.c, and the
  passing of arguments in common/wasm_runtime_common.c and interpreter/wasm_runtime.c): the table of a
  box's imports that the glue registers is sorted in place by name, imports of a module are looked up in
  it by binary search and their signature is checked, and pointer arguments of a call are checked and
  turned into host addresses by that signature.

  A native function is a number; C strings are lists of characters without the final NUL, in the order of
  \<^verbatim>\<open>strcmp\<close>.
\<close>

record native_symbol =
  ns_symbol :: string
  ns_func_ptr :: nat
  ns_signature :: "string option"

definition strcmp :: "string \<Rightarrow> string \<Rightarrow> int" where
  "strcmp a b = (if a < b then -1 else if a = b then 0 else 1)"

lemma strcmp_simps [simp]:
  "strcmp a b > 0 \<longleftrightarrow> b < a" "strcmp a b < 0 \<longleftrightarrow> a < b" "strcmp a b = 0 \<longleftrightarrow> a = b"
  by (auto simp: strcmp_def)

subsection \<open>Sorting the table\<close>

definition swap_symbol :: "native_symbol list \<Rightarrow> int \<Rightarrow> int \<Rightarrow> native_symbol list" where
  "swap_symbol ns left right = ns[nat left := ns ! nat right, nat right := ns ! nat left]"

text \<open>The two inner loops.\<close>

function scan_down :: "native_symbol list \<Rightarrow> native_symbol \<Rightarrow> int \<Rightarrow> int \<Rightarrow> int" where
  "scan_down ns base left right =
     (if left < right \<and> strcmp (ns_symbol (ns ! nat right)) (ns_symbol base) > 0
      then scan_down ns base left (right - 1) else right)"
  by auto
termination by (relation "measure (\<lambda>(ns, base, left, right). nat (right - left))") auto

function scan_up :: "native_symbol list \<Rightarrow> native_symbol \<Rightarrow> int \<Rightarrow> int \<Rightarrow> int" where
  "scan_up ns base left right =
     (if left < right \<and> strcmp (ns_symbol (ns ! nat left)) (ns_symbol base) < 0
      then scan_up ns base (left + 1) right else left)"
  by auto
termination by (relation "measure (\<lambda>(ns, base, left, right). nat (right - left))") auto

declare scan_down.simps [simp del] and scan_up.simps [simp del]

lemma scan_down_range: "left \<le> right \<Longrightarrow> left \<le> scan_down ns base left right \<and> scan_down ns base left right \<le> right"
  by (induction ns base left right rule: scan_down.induct) (subst (1 2) scan_down.simps, force)

lemma scan_up_range: "left \<le> right \<Longrightarrow> left \<le> scan_up ns base left right \<and> scan_up ns base left right \<le> right"
  by (induction ns base left right rule: scan_up.induct) (subst (1 2) scan_up.simps, force)

function sort_loop :: "native_symbol list \<Rightarrow> native_symbol \<Rightarrow> int \<Rightarrow> int \<Rightarrow> native_symbol list \<times> int" where
  "sort_loop ns base left right =
     (if left < right then
        let right = scan_down ns base left right;
            (ns, left) = (if left < right then (swap_symbol ns left right, left + 1) else (ns, left));
            left = scan_up ns base left right;
            (ns, right) = (if left < right then (swap_symbol ns left right, right - 1) else (ns, right))
        in sort_loop ns base left right
      else (ns, left))"
  by auto
termination
proof (relation "measure (\<lambda>(ns, base, left, right). nat (right - left))", goal_cases)
  case (2 ns base left right r p ns1 l1 l2 q ns2 r2)
  note r = scan_down_range [OF order_less_imp_le [OF 2(1)], of ns base, folded 2(2)]
  show ?case
  proof (cases "left < r")
    case True
    then have "l1 = left + 1" using 2(3,4) by simp
    then have "l1 \<le> l2" "l2 \<le> r" using scan_up_range [of l1 r ns1 base] True 2(5) by auto
    then show ?thesis using 2(1,6,7) r True \<open>l1 = left + 1\<close> by (auto split: if_splits)
  next
    case False
    then have "l1 = left" "r = left" using 2(3,4) r by simp_all
    then have "l2 = left" using 2(5) by (subst (asm) scan_up.simps) simp
    then show ?thesis using 2(1,6,7) \<open>r = left\<close> by (auto split: if_splits)
  qed
qed simp

declare sort_loop.simps [simp del]

text \<open>What the scans pass over, and where they stop.\<close>

lemma scan_down_props:
  "left \<le> right \<Longrightarrow> scan_down ns base left right = r \<Longrightarrow>
    (\<forall>k. r < k \<longrightarrow> k \<le> right \<longrightarrow> ns_symbol base < ns_symbol (ns ! nat k)) \<and>
    (left < r \<longrightarrow> ns_symbol (ns ! nat r) \<le> ns_symbol base)"
proof (induction ns base left right rule: scan_down.induct)
  case (1 ns base left right)
  show ?case
  proof (cases "left < right \<and> ns_symbol base < ns_symbol (ns ! nat right)")
    case True
    then have "scan_down ns base left (right - 1) = r" using 1(3) by (subst (asm) scan_down.simps) simp
    then have "\<forall>k. r < k \<longrightarrow> k \<le> right - 1 \<longrightarrow> ns_symbol base < ns_symbol (ns ! nat k)"
      "left < r \<longrightarrow> ns_symbol (ns ! nat r) \<le> ns_symbol base"
      using 1(1) True by auto
    then show ?thesis using True by (metis zle_diff1_eq order_le_less)
  next
    case False
    then have "r = right" using 1(3) by (subst (asm) scan_down.simps) (simp split: if_splits)
    then show ?thesis using False by (auto simp: not_less)
  qed
qed

lemma scan_up_props:
  "left \<le> right \<Longrightarrow> scan_up ns base left right = l \<Longrightarrow>
    (\<forall>k. left \<le> k \<longrightarrow> k < l \<longrightarrow> ns_symbol (ns ! nat k) < ns_symbol base) \<and>
    (l < right \<longrightarrow> ns_symbol base \<le> ns_symbol (ns ! nat l))"
proof (induction ns base left right rule: scan_up.induct)
  case (1 ns base left right)
  show ?case
  proof (cases "left < right \<and> ns_symbol (ns ! nat left) < ns_symbol base")
    case True
    then have "scan_up ns base (left + 1) right = l" using 1(3) by (subst (asm) scan_up.simps) simp
    then have "\<forall>k. left + 1 \<le> k \<longrightarrow> k < l \<longrightarrow> ns_symbol (ns ! nat k) < ns_symbol base"
      "l < right \<longrightarrow> ns_symbol base \<le> ns_symbol (ns ! nat l)"
      using 1(1) True by auto
    then show ?thesis using True by (metis zless_imp_add1_zle order_le_less)
  next
    case False
    then have "l = left" using 1(3) by (subst (asm) scan_up.simps) (simp split: if_splits)
    then show ?thesis using False by (auto simp: not_less)
  qed
qed

text \<open>The elements \<open>left\<close> to \<open>right\<close> of the table, as a range of the list.\<close>

definition within :: "native_symbol list \<Rightarrow> native_symbol list \<Rightarrow> int \<Rightarrow> int \<Rightarrow> bool" where
  "within ns ns' left right \<longleftrightarrow> reorders ns ns' (nat left) (nat (right - left + 1))"

lemma within_refl [simp]: "within ns ns left right"
  by (simp add: within_def)

lemma within_trans: "within a b left right \<Longrightarrow> within b c left right \<Longrightarrow> within a c left right"
  unfolding within_def by (rule reorders_trans)

lemma within_mono:
  assumes "within a b l r" and "0 \<le> left" "left \<le> l" "r \<le> right" "l \<le> r + 1"
  shows "within a b left right"
  using assms unfolding within_def by (intro reorders_mono [OF assms(1) [unfolded within_def]]) linarith+

lemma within_swap:
  assumes "0 \<le> left" "left \<le> k" "k \<le> right" "left \<le> l" "l \<le> right" "right < int (length ns)"
  shows "within ns (swap_symbol ns k l) left right"
  using assms reorders_swap [of "nat left" "nat k" "nat (right - left + 1)" "nat l" ns]
  by (simp add: within_def swap_symbol_def swap_def)

lemma within_same:
  assumes "within ns ns' left right" and "0 \<le> left" and "left \<le> right + 1" and "0 \<le> k" and "k < left \<or> right < k"
  shows "ns' ! nat k = ns ! nat k"
  using assms unfolding within_def reorders_def by auto

lemma within_length: "within ns ns' left right \<Longrightarrow> length ns' = length ns"
  by (simp add: within_def reorders_def)

lemma within_all:
  assumes "within ns ns' left right" and "0 \<le> left" and "right < int (length ns)"
    and "\<And>k. left \<le> k \<Longrightarrow> k \<le> right \<Longrightarrow> P (ns ! nat k)" and "left \<le> k" and "k \<le> right"
  shows "P (ns' ! nat k)"
proof (rule reorders_all [OF assms(1) [unfolded within_def]])
  show "nat left + nat (right - left + 1) \<le> length ns" "nat left \<le> nat k" "nat k < nat left + nat (right - left + 1)"
    using assms by auto
  show "P (ns ! i)" if "nat left \<le> i" "i < nat left + nat (right - left + 1)" for i
    using assms(4) [of "int i"] assms(2,5,6) that by simp
qed

lemma swap_symbol_nth:
  assumes "0 \<le> k" "k < int (length ns)" "0 \<le> l" "l < int (length ns)" "0 \<le> i"
  shows "swap_symbol ns k l ! nat i = (if i = l then ns ! nat k else if i = k then ns ! nat l else ns ! nat i)"
  using assms by (auto simp: swap_symbol_def nth_list_update)

text \<open>One round of the loop.\<close>

lemma sort_loop_step:
  assumes "0 \<le> left" "left < right" "right < int (length ns)" "ns ! nat left = base"
  obtains ns' l r where "sort_loop ns base left right = sort_loop ns' base l r" "left \<le> l" "l \<le> r" "r \<le> right"
    "r - l < right - left" "within ns ns' left right" "ns' ! nat l = base"
    "\<forall>k. left \<le> k \<longrightarrow> k < l \<longrightarrow> ns_symbol (ns' ! nat k) \<le> ns_symbol base"
    "\<forall>k. r < k \<longrightarrow> k \<le> right \<longrightarrow> ns_symbol base \<le> ns_symbol (ns' ! nat k)"
proof -
  define r where "r = scan_down ns base left right"
  have le: "left \<le> right" using assms(2) by simp
  note rr = scan_down_range [OF le, of ns base, folded r_def]
  note rp = scan_down_props [OF le r_def [symmetric]]
  show ?thesis
  proof (cases "left < r")
    case False
    then have "r = left" using rr by simp
    moreover have "scan_up ns base left left = left" by (subst scan_up.simps) simp
    ultimately have "sort_loop ns base left right = sort_loop ns base left left"
      using assms(2) by (subst sort_loop.simps) (simp add: r_def [symmetric])
    then show ?thesis
      by (rule that) (use rp \<open>r = left\<close> assms in \<open>auto simp: order_less_imp_le\<close>)
  next
    case True
    define ns1 where "ns1 = swap_symbol ns left r"
    define l where "l = scan_up ns1 base (left + 1) r"
    have le1: "left + 1 \<le> r" using True by simp
    note lr = scan_up_range [OF le1, of ns1 base, folded l_def]
    note lp = scan_up_props [OF le1 l_def [symmetric]]
    have w1: "within ns ns1 left right" unfolding ns1_def using assms rr by (intro within_swap) auto
    have n1: "ns1 ! nat i = (if i = r then base else if i = left then ns ! nat r else ns ! nat i)" if "0 \<le> i" for i
      unfolding ns1_def using assms rr that by (subst swap_symbol_nth) auto
    have above1: "\<forall>k. r < k \<longrightarrow> k \<le> right \<longrightarrow> ns_symbol base \<le> ns_symbol (ns1 ! nat k)"
      using rp assms(1) rr by (auto simp: n1 order_less_imp_le)
    have below1: "\<forall>k. left \<le> k \<longrightarrow> k < l \<longrightarrow> ns_symbol (ns1 ! nat k) \<le> ns_symbol base"
    proof (intro allI impI)
      fix k assume k: "left \<le> k" "k < l"
      show "ns_symbol (ns1 ! nat k) \<le> ns_symbol base"
      proof (cases "k = left")
        case True then show ?thesis using n1 [of left] rp \<open>left < r\<close> assms(1) by simp
      next
        case False then show ?thesis using lp k by (intro order_less_imp_le) simp
      qed
    qed
    show ?thesis
    proof (cases "l < r")
      case False
      then have "l = r" using lr by simp
      have "sort_loop ns base left right = sort_loop ns1 base l r"
        using assms(2) True False
        by (subst sort_loop.simps) (simp add: r_def [symmetric] ns1_def [symmetric] l_def [symmetric])
      then show ?thesis
        by (rule that) (use \<open>l = r\<close> lr rr True assms(1,2) w1 above1 below1 n1 [of r] in auto)
    next
      case less: True
      define ns2 where "ns2 = swap_symbol ns1 l r"
      have len1: "length ns1 = length ns" by (rule within_length [OF w1])
      have w2: "within ns1 ns2 left right" unfolding ns2_def using assms rr lr len1 by (intro within_swap) auto
      have n2: "ns2 ! nat i = (if i = r then ns1 ! nat l else if i = l then base else ns1 ! nat i)" if "0 \<le> i" for i
        unfolding ns2_def using assms rr lr that len1 n1 [of r] by (subst swap_symbol_nth) auto
      have "sort_loop ns base left right = sort_loop ns2 base l (r - 1)"
        using assms(2) True less
        by (subst sort_loop.simps) (simp add: r_def [symmetric] ns1_def [symmetric] l_def [symmetric] ns2_def [symmetric])
      then show ?thesis
      proof (rule that)
        show "left \<le> l" "l \<le> r - 1" "r - 1 \<le> right" "r - 1 - l < right - left" using lr rr less True by auto
        show "within ns ns2 left right" by (rule within_trans [OF w1 w2])
        show "ns2 ! nat l = base" using n2 [of l] assms(1) lr less by simp
        show "\<forall>k. left \<le> k \<longrightarrow> k < l \<longrightarrow> ns_symbol (ns2 ! nat k) \<le> ns_symbol base"
          using below1 assms(1) lr by (auto simp: n2)
        show "\<forall>k. r - 1 < k \<longrightarrow> k \<le> right \<longrightarrow> ns_symbol base \<le> ns_symbol (ns2 ! nat k)"
          using above1 lp less assms(1) rr lr by (auto simp: n2)
      qed
    qed
  qed
qed

text \<open>The whole loop: the base ends up between the smaller and the greater symbols.\<close>

lemma sort_loop_split:
  "0 \<le> left \<Longrightarrow> left \<le> right \<Longrightarrow> right < int (length ns) \<Longrightarrow> ns ! nat left = base \<Longrightarrow>
   sort_loop ns base left right = (ns', m) \<Longrightarrow>
   left \<le> m \<and> m \<le> right \<and> within ns ns' left right \<and> ns' ! nat m = base \<and>
   (\<forall>k. left \<le> k \<longrightarrow> k < m \<longrightarrow> ns_symbol (ns' ! nat k) \<le> ns_symbol base) \<and>
   (\<forall>k. m < k \<longrightarrow> k \<le> right \<longrightarrow> ns_symbol base \<le> ns_symbol (ns' ! nat k))"
proof (induction "nat (right - left)" arbitrary: ns left right rule: less_induct)
  case (less left right ns)
  show ?case
  proof (cases "left < right")
    case False
    then have "sort_loop ns base left right = (ns, left)" by (subst sort_loop.simps) simp
    then have "left = right" "ns' = ns" "m = left" using less.prems(2,5) False by simp_all
    then show ?thesis using less.prems(4) by auto
  next
    case True
    obtain ns1 l r where st: "sort_loop ns base left right = sort_loop ns1 base l r" "left \<le> l" "l \<le> r" "r \<le> right"
      "r - l < right - left" "within ns ns1 left right" "ns1 ! nat l = base"
      and lo: "\<forall>k. left \<le> k \<longrightarrow> k < l \<longrightarrow> ns_symbol (ns1 ! nat k) \<le> ns_symbol base"
      and hi: "\<forall>k. r < k \<longrightarrow> k \<le> right \<longrightarrow> ns_symbol base \<le> ns_symbol (ns1 ! nat k)"
      using sort_loop_step [OF less.prems(1) True less.prems(3,4)] .
    have len: "length ns1 = length ns" by (rule within_length [OF st(6)])
    have ih: "l \<le> m \<and> m \<le> r \<and> within ns1 ns' l r \<and> ns' ! nat m = base \<and>
      (\<forall>k. l \<le> k \<longrightarrow> k < m \<longrightarrow> ns_symbol (ns' ! nat k) \<le> ns_symbol base) \<and>
      (\<forall>k. m < k \<longrightarrow> k \<le> r \<longrightarrow> ns_symbol base \<le> ns_symbol (ns' ! nat k))"
    proof (rule less.hyps)
      show "nat (r - l) < nat (right - left)" using st(5) True by simp
      show "0 \<le> l" "l \<le> r" "r < int (length ns1)" "ns1 ! nat l = base" using less.prems(1,3) st(2-4,7) len by auto
      show "sort_loop ns1 base l r = (ns', m)" using less.prems(5) st(1) by simp
    qed
    then have w: "within ns1 ns' l r" by blast
    have l0: "0 \<le> l" "l \<le> r + 1" using less.prems(1) st(2,3) by simp_all
    note same = within_same [OF w l0]
    have "within ns1 ns' left right"
      using within_mono [OF w less.prems(1) st(2,4) l0(2)] .
    moreover have "ns_symbol (ns' ! nat k) \<le> ns_symbol base" if "left \<le> k" "k < m" for k
    proof (cases "k < l")
      case True then show ?thesis using lo same [of k] that less.prems(1) by simp
    next
      case False then show ?thesis using ih that by simp
    qed
    moreover have "ns_symbol base \<le> ns_symbol (ns' ! nat k)" if "m < k" "k \<le> right" for k
    proof (cases "r < k")
      case True then show ?thesis using hi same [of k] that l0 st(3) by simp
    next
      case False then show ?thesis using ih that by simp
    qed
    ultimately have "within ns ns' left right"
      "\<forall>k. left \<le> k \<longrightarrow> k < m \<longrightarrow> ns_symbol (ns' ! nat k) \<le> ns_symbol base"
      "\<forall>k. m < k \<longrightarrow> k \<le> right \<longrightarrow> ns_symbol base \<le> ns_symbol (ns' ! nat k)"
      using within_trans [OF st(6)] by simp_all
    moreover have "left \<le> m" "m \<le> right" "ns' ! nat m = base" using ih st(2,4) by simp_all
    ultimately show ?thesis by simp
  qed
qed

lemma sort_loop_bounds:
  "left \<le> right \<Longrightarrow> left \<le> snd (sort_loop ns base left right) \<and> snd (sort_loop ns base left right) \<le> right"
proof (induction "nat (right - left)" arbitrary: ns left right rule: less_induct)
  case (less left right ns)
  define r where "r = scan_down ns base left right"
  define ns1 where "ns1 = (if left < r then swap_symbol ns left r else ns)"
  define l1 where "l1 = (if left < r then left + 1 else left)"
  define l where "l = scan_up ns1 base l1 r"
  have r: "left \<le> r" "r \<le> right" using scan_down_range [OF less.prems] by (simp_all add: r_def)
  then have l: "l1 \<le> l" "l \<le> r" using scan_up_range [of l1 r ns1 base] by (auto simp: l_def l1_def)
  show ?case
  proof (cases "left < right")
    case False
    then show ?thesis using less.prems by (subst (1 2) sort_loop.simps) simp
  next
    case True
    have "sort_loop ns base left right = (if l < r then sort_loop (swap_symbol ns1 l r) base l (r - 1) else sort_loop ns1 base l r)"
      using True by (subst sort_loop.simps) (simp add: Let_def r_def [symmetric] ns1_def l1_def l_def)
    moreover have "nat (r - 1 - l) < nat (right - left)" "l < r \<Longrightarrow> l \<le> r - 1" using True r l by (auto simp: l1_def split: if_splits)
    moreover have "\<not> l < r \<Longrightarrow> nat (r - l) < nat (right - left)" using True l by simp
    ultimately show ?thesis
      using less.hyps [of "r - 1" l "swap_symbol ns1 l r"] less.hyps [of r l ns1] r l
      by (cases "l < r") (auto simp del: order_antisym_conv split: if_splits simp: l1_def)
  qed
qed

function quick_sort_symbols :: "native_symbol list \<Rightarrow> int \<Rightarrow> int \<Rightarrow> native_symbol list" where
  "quick_sort_symbols ns left right =
     (if left \<ge> right then ns
      else
        let base = ns ! nat left;
            (ns1, m) = sort_loop ns base left right;
            ns2 = ns1[nat m := base];
            ns3 = quick_sort_symbols ns2 left (m - 1)
        in quick_sort_symbols ns3 (m + 1) right)"
  by auto
termination
proof (relation "measure (\<lambda>(ns, left, right). nat (right - left))", goal_cases)
  case (2 ns left right base p ns1 m ns2)
  then have "left \<le> m" "m \<le> right" using sort_loop_bounds [of left right ns base] by (auto dest!: sym [of "(_, _)"])
  then show ?case using 2(1) by simp
next
  case (3 ns left right base p ns1 m ns2 ns3)
  then have "left \<le> m" "m \<le> right" using sort_loop_bounds [of left right ns base] by (auto dest!: sym [of "(_, _)"])
  then show ?case using 3(1) by simp
qed simp

declare quick_sort_symbols.simps [simp del]

lemma quick_sort_sorts:
  "0 \<le> left \<Longrightarrow> right < int (length ns) \<Longrightarrow> left \<le> right + 1 \<Longrightarrow>
   within ns (quick_sort_symbols ns left right) left right \<and>
   (\<forall>i j. left \<le> i \<longrightarrow> i < j \<longrightarrow> j \<le> right \<longrightarrow>
      ns_symbol (quick_sort_symbols ns left right ! nat i) \<le> ns_symbol (quick_sort_symbols ns left right ! nat j))"
proof (induction "nat (right - left + 1)" arbitrary: ns left right rule: less_induct)
  case (less left right ns)
  show ?case
  proof (cases "left < right")
    case False
    then have "quick_sort_symbols ns left right = ns" by (subst quick_sort_symbols.simps) simp
    then show ?thesis using False by auto
  next
    case True
    let ?base = "ns ! nat left"
    obtain ns1 m where loop: "sort_loop ns ?base left right = (ns1, m)" by fastforce
    have le: "left \<le> right" using True by simp
    note sp = sort_loop_split [OF less.prems(1) le less.prems(2) refl loop]
    have m: "left \<le> m" "m \<le> right" "0 \<le> m" using sp less.prems(1) by simp_all
    have w1: "within ns ns1 left right" and base: "ns1 ! nat m = ?base" using sp by blast+
    have lo: "ns_symbol (ns1 ! nat k) \<le> ns_symbol ?base" if "left \<le> k" "k < m" for k using sp that by blast
    have hi: "ns_symbol ?base \<le> ns_symbol (ns1 ! nat k)" if "m < k" "k \<le> right" for k using sp that by blast
    have len1: "length ns1 = length ns" by (rule within_length [OF w1])
    have put: "ns1[nat m := ?base] = ns1" using base by (metis list_update_id)
    define ns3 where "ns3 = quick_sort_symbols ns1 left (m - 1)"
    define ns4 where "ns4 = quick_sort_symbols ns3 (m + 1) right"
    have run: "quick_sort_symbols ns left right = ns4"
      using True by (subst quick_sort_symbols.simps) (simp add: Let_def loop put ns3_def ns4_def)
    have h3: "nat (m - 1 - left + 1) < nat (right - left + 1)" "m - 1 < int (length ns1)" "left \<le> m - 1 + 1"
      using m less.prems(2) len1 True by auto
    note ih3 = less.hyps [OF h3(1) less.prems(1) h3(2,3), folded ns3_def]
    have w3: "within ns1 ns3 left (m - 1)" using ih3 by blast
    have len3: "length ns3 = length ns" using within_length [OF w3] len1 by simp
    have h4: "nat (right - (m + 1) + 1) < nat (right - left + 1)" "0 \<le> m + 1" "right < int (length ns3)" "m + 1 \<le> right + 1"
      using m less.prems(2) len3 True by auto
    note ih4 = less.hyps [OF h4, folded ns4_def]
    have w4: "within ns3 ns4 (m + 1) right" using ih4 by blast
    have same4: "ns4 ! nat k = ns3 ! nat k" if "0 \<le> k" "k \<le> m" for k
      using within_same [OF w4 h4(2) h4(4)] that by simp
    have same3: "ns3 ! nat k = ns1 ! nat k" if "m \<le> k" for k
      using within_same [OF w3 less.prems(1)] h3(3) that m by simp
    have low: "ns_symbol (ns4 ! nat k) \<le> ns_symbol ?base" if "left \<le> k" "k < m" for k
      using within_all [OF w3 less.prems(1) h3(2), where P = "\<lambda>x. ns_symbol x \<le> ns_symbol ?base" and k = k]
        lo same4 [of k] that less.prems(1) by simp
    have mid: "ns4 ! nat m = ?base" using same4 [of m] same3 [of m] base m by simp
    have high: "ns_symbol ?base \<le> ns_symbol (ns4 ! nat k)" if "m < k" "k \<le> right" for k
      using within_all [OF w4 h4(2) h4(3), where P = "\<lambda>x. ns_symbol ?base \<le> ns_symbol x" and k = k]
        hi same3 that by simp
    have "within ns ns4 left right"
      by (rule within_trans [OF w1 within_trans [OF within_mono [OF w3 less.prems(1)] within_mono [OF w4 less.prems(1)]]])
        (use m in auto)
    moreover have "ns_symbol (ns4 ! nat i) \<le> ns_symbol (ns4 ! nat j)" if ij: "left \<le> i" "i < j" "j \<le> right" for i j
    proof -
      consider "j < m" | "i < m" "j = m" | "i < m" "m < j" | "i = m" | "m < i" using ij by linarith
      then show ?thesis
      proof cases
        case 1
        then have "ns_symbol (ns3 ! nat i) \<le> ns_symbol (ns3 ! nat j)" using ih3 ij by simp
        then show ?thesis using same4 [of i] same4 [of j] 1 ij less.prems(1) by simp
      next
        case 2 then show ?thesis using low [of i] ij mid by simp
      next
        case 3 then show ?thesis using low [of i] high [of j] ij by (meson order_trans)
      next
        case 4 then show ?thesis using high [of j] ij mid by simp
      next
        case 5 then show ?thesis using ih4 ij by simp
      qed
    qed
    ultimately show ?thesis unfolding run by blast
  qed
qed

subsection \<open>Looking up an import\<close>

function lookup_loop :: "native_symbol list \<Rightarrow> string \<Rightarrow> int \<Rightarrow> int \<Rightarrow> native_symbol option" where
  "lookup_loop ns symbol low high =
     (if low \<le> high then
        let mid = (low + high) div 2;
            ret = strcmp symbol (ns_symbol (ns ! nat mid))
        in if ret = 0 then Some (ns ! nat mid)
           else if ret < 0 then lookup_loop ns symbol low (mid - 1)
           else lookup_loop ns symbol (mid + 1) high
      else None)"
  by auto
termination by (relation "measure (\<lambda>(ns, symbol, low, high). nat (high - low + 1))") auto

declare lookup_loop.simps [simp del]

definition lookup_symbol :: "native_symbol list \<Rightarrow> string \<Rightarrow> native_symbol option" where
  "lookup_symbol native_symbols symbol =
     lookup_loop native_symbols symbol 0 (int (length native_symbols) - 1)"

text \<open>In a table sorted by name the search finds the entry of a name wherever it is, and gives nothing
  for other names.\<close>

lemma lookup_loop_finds:
  assumes "\<forall>i j. 0 \<le> i \<longrightarrow> i < j \<longrightarrow> j < int (length ns) \<longrightarrow> ns_symbol (ns ! nat i) < ns_symbol (ns ! nat j)"
  shows "0 \<le> low \<Longrightarrow> high < int (length ns) \<Longrightarrow> low \<le> k \<Longrightarrow> k \<le> high \<Longrightarrow>
    lookup_loop ns (ns_symbol (ns ! nat k)) low high = Some (ns ! nat k)"
proof (induction "nat (high - low + 1)" arbitrary: low high rule: less_induct)
  case less
  let ?mid = "(low + high) div 2"
  have mid: "low \<le> ?mid" "?mid \<le> high" using less.prems by linarith+
  consider "k = ?mid" | "k < ?mid" | "?mid < k" by linarith
  then show ?case
  proof cases
    case 1
    then show ?thesis using less.prems by (subst lookup_loop.simps) (simp add: Let_def)
  next
    case 2
    then have "ns_symbol (ns ! nat k) < ns_symbol (ns ! nat ?mid)" using assms less.prems mid by simp
    moreover have "lookup_loop ns (ns_symbol (ns ! nat k)) low (?mid - 1) = Some (ns ! nat k)"
      by (rule less.hyps) (use less.prems mid 2 in auto)
    ultimately show ?thesis using less.prems by (subst lookup_loop.simps) (simp add: Let_def less_imp_neq)
  next
    case 3
    then have "ns_symbol (ns ! nat ?mid) < ns_symbol (ns ! nat k)" using assms less.prems mid by simp
    moreover have "lookup_loop ns (ns_symbol (ns ! nat k)) (?mid + 1) high = Some (ns ! nat k)"
      by (rule less.hyps) (use less.prems mid 3 in auto)
    ultimately show ?thesis
      using less.prems by (subst lookup_loop.simps) (auto simp add: Let_def dest: less_imp_neq)
  qed
qed

lemma lookup_loop_sound:
  "0 \<le> low \<Longrightarrow> high < int (length ns) \<Longrightarrow> lookup_loop ns symbol low high = Some s \<Longrightarrow>
    s \<in> set ns \<and> ns_symbol s = symbol"
proof (induction ns symbol low high rule: lookup_loop.induct)
  case (1 ns symbol low high)
  let ?mid = "(low + high) div 2"
  show ?case
  proof (cases "low \<le> high")
    case True
    then have "nat ?mid < length ns" using 1(3,4) by linarith
    moreover have "0 \<le> ?mid + 1" "?mid - 1 < int (length ns)" using True 1(3,4) by linarith+
    ultimately show ?thesis
      using 1(1) [OF True refl refl] 1(2) [OF True refl refl] 1(3-5) True
      by (subst (asm) (3) lookup_loop.simps) (auto simp: Let_def split: if_splits)
  next
    case False
    then show ?thesis using 1(5) by (subst (asm) lookup_loop.simps) simp
  qed
qed

subsection \<open>Registering and resolving\<close>

record natives_node =
  nd_module_name :: string
  nd_symbols :: "native_symbol list"
  nd_call_conv_raw :: bool

text \<open>\<open>g_native_symbols_list\<close> as a list; \<open>alloc\<close> is whether the allocation of the node succeeds.\<close>

definition register_natives ::
  "bool \<Rightarrow> string \<Rightarrow> native_symbol list \<Rightarrow> bool \<Rightarrow> natives_node list \<Rightarrow> bool \<times> natives_node list" where
  "register_natives alloc module_name native_symbols call_conv_raw nodes =
     (if \<not> alloc then (False, nodes)
      else (True, nodes @ [\<lparr>nd_module_name = module_name,
        nd_symbols = quick_sort_symbols native_symbols 0 (int (length native_symbols) - 1),
        nd_call_conv_raw = call_conv_raw\<rparr>]))"

datatype valtype = I32 | I64 | F32 | F64

record wasm_type =
  wt_params :: "valtype list"
  wt_results :: "valtype list"

definition sig_map :: "valtype \<Rightarrow> char" where
  "sig_map t = (case t of I32 \<Rightarrow> CHR ''i'' | I64 \<Rightarrow> CHR ''I'' | F32 \<Rightarrow> CHR ''f'' | F64 \<Rightarrow> CHR ''F'')"

text \<open>The loop over the parameters: what is left of the signature after them.\<close>

fun check_params :: "valtype list \<Rightarrow> string \<Rightarrow> string option" where
  "check_params [] p = Some p"
| "check_params (t # ts) [] = None"
| "check_params (t # ts) (sig # p) =
     (if sig = sig_map t then check_params ts p
      else if t \<noteq> I32 then None
      else if sig = CHR ''*'' then
        (if ts \<noteq> [] \<and> hd ts = I32 \<and> p \<noteq> [] \<and> hd p = CHR ''~''
         then check_params (tl ts) (tl p) else check_params ts p)
      else if sig = CHR ''$'' then check_params ts p
      else None)"

definition check_symbol_signature :: "wasm_type \<Rightarrow> string \<Rightarrow> bool" where
  "check_symbol_signature type signature =
     (if length signature < 2 then False
      else if hd signature \<noteq> CHR ''('' then False
      else if length (tl signature) < length (wt_params type) + 1 then False
      else case check_params (wt_params type) (tl signature) of
        None \<Rightarrow> False
      | Some p \<Rightarrow>
          if p = [] \<or> hd p \<noteq> CHR '')'' then False
          else (case wt_results type of
              [] \<Rightarrow> tl p = []
            | r # rs \<Rightarrow> tl p \<noteq> [] \<and> hd (tl p) = sig_map r \<and> tl (tl p) = []))"

text \<open>The loop over the nodes: the symbol by its name, or by its name without a leading underscore.\<close>

definition node_lookup :: "native_symbol list \<Rightarrow> string \<Rightarrow> native_symbol option" where
  "node_lookup ns symbol = (case lookup_symbol ns symbol of
     Some s \<Rightarrow> if ns_func_ptr s \<noteq> 0 then Some s else None | None \<Rightarrow> None)"

fun find_symbol :: "natives_node list \<Rightarrow> string \<Rightarrow> string \<Rightarrow> (native_symbol \<times> bool) option" where
  "find_symbol [] module_name field_name = None"
| "find_symbol (node # nodes) module_name field_name =
     (if nd_module_name node = module_name then
        (case node_lookup (nd_symbols node) field_name of
           Some s \<Rightarrow> Some (s, nd_call_conv_raw node)
         | None \<Rightarrow>
             if field_name \<noteq> [] \<and> hd field_name = CHR ''_'' then
               (case node_lookup (nd_symbols node) (tl field_name) of
                  Some s \<Rightarrow> Some (s, nd_call_conv_raw node)
                | None \<Rightarrow> find_symbol nodes module_name field_name)
             else find_symbol nodes module_name field_name)
      else find_symbol nodes module_name field_name)"

definition resolve_symbol ::
  "natives_node list \<Rightarrow> string \<Rightarrow> string \<Rightarrow> wasm_type \<Rightarrow> (nat \<times> string option) option" where
  "resolve_symbol nodes module_name field_name func_type =
     (case find_symbol nodes module_name field_name of
        None \<Rightarrow> None
      | Some (s, raw) \<Rightarrow>
          (case ns_signature s of
             None \<Rightarrow> Some (ns_func_ptr s, None)
           | Some sig \<Rightarrow>
               if sig = [] then Some (ns_func_ptr s, None)
               else if check_symbol_signature func_type sig then Some (ns_func_ptr s, Some sig)
               else None))"

text \<open>The table of the glue (examples/wamr-hello/bb.c), in its order.\<close>

definition box1_native_symbols :: "native_symbol list" where
  "box1_native_symbols =
    [\<lparr>ns_symbol = ''__box_abort'', ns_func_ptr = 1, ns_signature = Some ''(i)''\<rparr>,
     \<lparr>ns_symbol = ''__box_write'', ns_func_ptr = 2, ns_signature = Some ''(i*i)i''\<rparr>,
     \<lparr>ns_symbol = ''__box_flush'', ns_func_ptr = 3, ns_signature = Some ''(i)i''\<rparr>,
     \<lparr>ns_symbol = ''sys_ping'', ns_func_ptr = 4, ns_signature = Some ''(i)i''\<rparr>]"

lemma sorted_names:
  assumes "distinct (map ns_symbol symbols)"
  defines "table \<equiv> quick_sort_symbols symbols 0 (int (length symbols) - 1)"
  shows "set table = set symbols" and "length table = length symbols"
    and "\<forall>i j. 0 \<le> i \<longrightarrow> i < j \<longrightarrow> j < int (length table) \<longrightarrow> ns_symbol (table ! nat i) < ns_symbol (table ! nat j)"
proof -
  have q: "within symbols table 0 (int (length symbols) - 1)"
    "\<forall>i j. 0 \<le> i \<longrightarrow> i < j \<longrightarrow> j \<le> int (length symbols) - 1 \<longrightarrow> ns_symbol (table ! nat i) \<le> ns_symbol (table ! nat j)"
    using quick_sort_sorts [of 0 "int (length symbols) - 1" symbols] unfolding table_def by auto
  have m: "mset table = mset symbols" "length table = length symbols"
    using q(1) by (simp_all add: within_def reorders_def)
  show "set table = set symbols" "length table = length symbols" using m by (metis set_mset_mset) (rule m)
  have "mset (map ns_symbol table) = mset (map ns_symbol symbols)" using m by simp
  then have d: "distinct (map ns_symbol table)" using assms(1) by (metis mset_eq_imp_distinct_iff)
  have "ns_symbol (table ! nat i) \<noteq> ns_symbol (table ! nat j)" if "0 \<le> i" "i < j" "j < int (length table)" for i j
    using nth_eq_iff_index_eq [OF d, of "nat i" "nat j"] that by simp
  then show "\<forall>i j. 0 \<le> i \<longrightarrow> i < j \<longrightarrow> j < int (length table) \<longrightarrow> ns_symbol (table ! nat i) < ns_symbol (table ! nat j)"
    using q(2) m(2) by (simp add: order_less_le)
qed

text \<open>C33: every import a box's table offers can be found once the table is registered, and only those:
  after the in-place sort the binary search gives the entry of each name of the table, in whatever order
  the table was written, and nothing for any other name.\<close>

theorem registered_symbols_found:
  assumes "distinct (map ns_symbol symbols)"
  defines "table \<equiv> quick_sort_symbols symbols 0 (int (length symbols) - 1)"
  shows "(\<forall>s \<in> set symbols. lookup_symbol table (ns_symbol s) = Some s) \<and>
    (\<forall>name. name \<notin> ns_symbol ` set symbols \<longrightarrow> lookup_symbol table name = None)"
proof (intro conjI ballI allI impI)
  note sn = sorted_names [OF assms(1), folded table_def]
  fix s assume "s \<in> set symbols"
  then obtain k where k: "k < length table" "table ! k = s" using sn(1) by (metis in_set_conv_nth)
  then show "lookup_symbol table (ns_symbol s) = Some s"
    using lookup_loop_finds [OF sn(3), of 0 "int (length table) - 1" "int k"] by (simp add: lookup_symbol_def)
next
  note sn = sorted_names [OF assms(1), folded table_def]
  fix name assume out: "name \<notin> ns_symbol ` set symbols"
  show "lookup_symbol table name = None"
  proof (rule ccontr)
    assume "lookup_symbol table name \<noteq> None"
    then obtain s where "lookup_loop table name 0 (int (length table) - 1) = Some s"
      by (auto simp: lookup_symbol_def)
    then show False using lookup_loop_sound [of 0 "int (length table) - 1" table name s] out sn(1) by auto
  qed
qed

theorem registered_symbols_found_witness:
  "lookup_symbol (quick_sort_symbols box1_native_symbols 0 3) ''__box_flush'' =
     Some \<lparr>ns_symbol = ''__box_flush'', ns_func_ptr = 3, ns_signature = Some ''(i)i''\<rparr> \<and>
   lookup_symbol (quick_sort_symbols box1_native_symbols 0 3) ''sys_pong'' = None"
proof -
  have d: "distinct (map ns_symbol box1_native_symbols)" by (simp add: box1_native_symbols_def)
  have n: "int (length box1_native_symbols) - 1 = 3" by (simp add: box1_native_symbols_def)
  show ?thesis
    using registered_symbols_found [OF d] unfolding n by (auto simp: box1_native_symbols_def)
qed

text \<open>The table of the glue is not in the order of its names and is declared \<^verbatim>\<open>const\<close>, so it lies in flash;
  the registration casts the \<^verbatim>\<open>const\<close> away and sorts it where it is. Were its writes ignored, the search
  would miss an import.\<close>

lemma unsorted_table_misses:
  "lookup_symbol box1_native_symbols ''__box_flush'' = None"
  "map ns_symbol (quick_sort_symbols box1_native_symbols 0 3) = [''__box_abort'', ''__box_flush'', ''__box_write'', ''sys_ping'']"
  by code_simp+

end
