(* ===== verification/WamrArgs.thy ===== *)
theory WamrArgs
  imports WamrNative
begin

text \<open>
  Module instances of the WebAssembly interpreter and the arguments of native calls
  (extra/wamr-modified/interpreter/wasm_runtime.c and \<^verbatim>\<open>wasm_runtime_invoke_native\<close> of
  common/wasm_runtime_common.c, in its variant for 32-bit Arm). An instance is its linear memory and its
  current exception; a box gives addresses as offsets into that memory and the interpreter turns them into
  host addresses, checked by the signature the glue registered.
\<close>

record wasm_instance =
  memory_data :: u32
  memory_data_end :: u32
  num_bytes_per_page :: u32
  cur_page_count :: u32
  cur_exception :: string

text \<open>The buffer of the exception has 128 bytes; \<open>None\<close> is \<^verbatim>\<open>NULL\<close>.\<close>

definition wasm_set_exception :: "string option \<Rightarrow> wasm_instance \<Rightarrow> wasm_instance" where
  "wasm_set_exception exception inst = (case exception of
     Some e \<Rightarrow> inst\<lparr>cur_exception := take 127 (''Exception: '' @ e)\<rparr>
   | None \<Rightarrow> inst\<lparr>cur_exception := []\<rparr>)"

definition wasm_get_exception :: "wasm_instance \<Rightarrow> string option" where
  "wasm_get_exception inst = (if cur_exception inst = [] then None else Some (cur_exception inst))"

definition memory_data_size :: "wasm_instance \<Rightarrow> u32" where
  "memory_data_size inst = num_bytes_per_page inst * cur_page_count inst"

definition wasm_validate_app_addr :: "u32 \<Rightarrow> u32 \<Rightarrow> wasm_instance \<Rightarrow> bool \<times> wasm_instance" where
  "wasm_validate_app_addr app_offset sz inst =
     (if app_offset + sz < app_offset then (False, wasm_set_exception (Some ''out of bounds memory access'') inst)
      else if app_offset + sz \<le> memory_data_size inst then (True, inst)
      else (False, wasm_set_exception (Some ''out of bounds memory access'') inst))"

definition wasm_addr_app_to_native :: "wasm_instance \<Rightarrow> u32 \<Rightarrow> u32" where
  "wasm_addr_app_to_native inst app_offset =
     (let addr = memory_data inst + app_offset in
      if memory_data inst \<le> addr \<and> addr < memory_data_end inst then addr else 0)"

definition wasm_addr_native_to_app :: "wasm_instance \<Rightarrow> u32 \<Rightarrow> u32" where
  "wasm_addr_native_to_app inst addr =
     (if memory_data inst \<le> addr \<and> addr < memory_data_end inst then addr - memory_data inst else 0)"

definition wasm_get_app_addr_range :: "wasm_instance \<Rightarrow> u32 \<Rightarrow> (u32 \<times> u32) option" where
  "wasm_get_app_addr_range inst app_offset =
     (if app_offset < memory_data_size inst then Some (0, memory_data_size inst) else None)"

text \<open>The search for the end of a string, over the \<open>n\<close> bytes from \<open>str\<close>.\<close>

fun str_loop :: "byte_mem \<Rightarrow> u32 \<Rightarrow> nat \<Rightarrow> bool" where
  "str_loop mem str 0 = False"
| "str_loop mem str (Suc n) = (if mem str \<noteq> 0 then str_loop mem (str + 1) n else True)"

definition wasm_validate_app_str_addr :: "byte_mem \<Rightarrow> u32 \<Rightarrow> wasm_instance \<Rightarrow> bool \<times> wasm_instance" where
  "wasm_validate_app_str_addr mem app_str_offset inst =
     (case wasm_get_app_addr_range inst app_str_offset of
        None \<Rightarrow> (False, wasm_set_exception (Some ''out of bounds memory access'') inst)
      | Some (start_offset, end_offset) \<Rightarrow>
          if str_loop mem (wasm_addr_app_to_native inst app_str_offset) (unat (end_offset - app_str_offset))
          then (True, inst)
          else (False, wasm_set_exception (Some ''out of bounds memory access'') inst))"

text \<open>Character \<open>k\<close> of a signature, the closing NUL included.\<close>

definition sig_char :: "string \<Rightarrow> nat \<Rightarrow> char" where
  "sig_char sig k = (if k < length sig then sig ! k else CHR 0x00)"

text \<open>An integer argument: \<open>next_arg\<close> is the word after it.\<close>

definition convert_i32 ::
  "byte_mem \<Rightarrow> string option \<Rightarrow> nat \<Rightarrow> u32 \<Rightarrow> u32 \<Rightarrow> wasm_instance \<Rightarrow> u32 option \<times> wasm_instance" where
  "convert_i32 mem signature i arg next_arg inst =
     (case signature of
        None \<Rightarrow> (Some arg, inst)
      | Some sig \<Rightarrow>
          if sig_char sig (i + 1) = CHR ''*'' then
            let ptr_len = (if sig_char sig (i + 2) = CHR ''~'' then next_arg else 1) in
            case wasm_validate_app_addr arg ptr_len inst of
              (False, inst) \<Rightarrow> (None, inst)
            | (True, inst) \<Rightarrow> (Some (wasm_addr_app_to_native inst arg), inst)
          else if sig_char sig (i + 1) = CHR ''$'' then
            (case wasm_validate_app_str_addr mem arg inst of
              (False, inst) \<Rightarrow> (None, inst)
            | (True, inst) \<Rightarrow> (Some (wasm_addr_app_to_native inst arg), inst))
          else (Some arg, inst))"

text \<open>The loop over the parameters, from parameter \<open>i\<close>: \<open>argv\<close> is what is left of the words the box
  passed, \<open>argv1\<close> the words for the native function. The padding word of a 64-bit value is left as it
  was, here 0.\<close>

fun convert_args :: "byte_mem \<Rightarrow> string option \<Rightarrow> valtype list \<Rightarrow> nat \<Rightarrow> u32 list \<Rightarrow> u32 list \<Rightarrow> wasm_instance \<Rightarrow>
  u32 list option \<times> wasm_instance" where
  "convert_args mem signature [] i argv argv1 inst = (Some argv1, inst)"
| "convert_args mem signature (t # ts) i argv argv1 inst =
     (case t of
        I32 \<Rightarrow>
          (case convert_i32 mem signature i (argv ! 0) (argv ! 1) inst of
             (None, inst) \<Rightarrow> (None, inst)
           | (Some a, inst) \<Rightarrow> convert_args mem signature ts (i + 1) (drop 1 argv) (argv1 @ [a]) inst)
      | F32 \<Rightarrow> convert_args mem signature ts (i + 1) (drop 1 argv) (argv1 @ [argv ! 0]) inst
      | _ \<Rightarrow> convert_args mem signature ts (i + 1) (drop 2 argv)
               ((if odd (length argv1) then argv1 @ [0] else argv1) @ [argv ! 0, argv ! 1]) inst)"

definition invoke_native_args ::
  "byte_mem \<Rightarrow> u32 \<Rightarrow> string option \<Rightarrow> wasm_type \<Rightarrow> u32 list \<Rightarrow> wasm_instance \<Rightarrow> u32 list option \<times> wasm_instance" where
  "invoke_native_args mem exec_env signature func_type argv inst =
     convert_args mem signature (wt_params func_type) 0 argv [exec_env] inst"

subsection \<open>Checked pointers stay within the memory\<close>

text \<open>An instance as it is created: the end of the memory is where its size says.\<close>

definition memory_ok :: "wasm_instance \<Rightarrow> bool" where
  "memory_ok inst \<longleftrightarrow> unat (memory_data inst) + unat (memory_data_size inst) = unat (memory_data_end inst) \<and>
     0 < memory_data inst"

lemma exception_memory [simp]:
  "memory_data (wasm_set_exception e inst) = memory_data inst"
  "memory_data_end (wasm_set_exception e inst) = memory_data_end inst"
  "memory_data_size (wasm_set_exception e inst) = memory_data_size inst"
  by (auto simp: wasm_set_exception_def memory_data_size_def split: option.splits)

lemma validate_app_addr_iff:
  "fst (wasm_validate_app_addr off sz inst) \<longleftrightarrow> unat off + unat sz \<le> unat (memory_data_size inst)"
proof (cases "unat off + unat sz < 2 ^ 32")
  case True
  then have "unat (off + sz) = unat off + unat sz" by (subst unat_add_lem [symmetric]) simp
  then show ?thesis by (auto simp: wasm_validate_app_addr_def word_le_nat_alt word_less_nat_alt)
next
  case False
  then have "off + sz < off"
    using unat_add_lem [of off sz] no_olen_add_nat [of off sz] by (simp add: not_le)
  moreover have "unat (memory_data_size inst) < 2 ^ 32" using unat_u32_less [of "memory_data_size inst"] by simp
  ultimately show ?thesis using False by (simp add: wasm_validate_app_addr_def)
qed

lemma validate_app_addr_true: "wasm_validate_app_addr off sz inst = (True, inst') \<Longrightarrow> inst' = inst"
  by (auto simp: wasm_validate_app_addr_def split: if_splits)

lemma app_to_native_within:
  assumes "memory_ok inst" and "unat off < unat (memory_data_size inst)"
  shows "wasm_addr_app_to_native inst off = memory_data inst + off"
    and "unat (wasm_addr_app_to_native inst off) = unat (memory_data inst) + unat off"
proof -
  have "unat (memory_data inst) + unat off < unat (memory_data_end inst)" using assms by (simp add: memory_ok_def)
  moreover have "unat (memory_data_end inst) < 2 ^ 32" using unat_u32_less [of "memory_data_end inst"] by simp
  ultimately have sum: "unat (memory_data inst + off) = unat (memory_data inst) + unat off"
    by (subst unat_add_lem [symmetric]) simp
  then show a: "wasm_addr_app_to_native inst off = memory_data inst + off"
    using assms by (auto simp: wasm_addr_app_to_native_def memory_ok_def word_le_nat_alt word_less_nat_alt)
  then show "unat (wasm_addr_app_to_native inst off) = unat (memory_data inst) + unat off" using sum by simp
qed

lemma convert_i32_same: "convert_i32 mem signature i arg next_arg inst = (Some a, inst') \<Longrightarrow> inst' = inst"
  by (auto simp: convert_i32_def Let_def wasm_validate_app_str_addr_def
      split: option.splits if_splits prod.splits bool.splits dest: validate_app_addr_true)

text \<open>A loop that gets through has converted each argument by itself.\<close>

lemma convert_args_each:
  "convert_args mem signature (replicate n I32) i argv acc inst = (Some argv1, inst') \<Longrightarrow> length argv = n \<Longrightarrow>
    inst' = inst \<and> length argv1 = length acc + n \<and> take (length acc) argv1 = acc \<and>
    (\<forall>k<n. convert_i32 mem signature (i + k) (argv ! k) (drop k argv ! 1) inst = (Some (argv1 ! (length acc + k)), inst))"
proof (induction n arbitrary: i argv acc)
  case (Suc n)
  obtain x xs where argv: "argv = x # xs" "length xs = n" using Suc.prems(2) by (cases argv) auto
  obtain a inst1 where a: "convert_i32 mem signature i x (argv ! 1) inst = (Some a, inst1)"
    and rest: "convert_args mem signature (replicate n I32) (Suc i) xs (acc @ [a]) inst1 = (Some argv1, inst')"
    using Suc.prems(1) argv by (auto split: prod.splits option.splits)
  have i1: "inst1 = inst" by (rule convert_i32_same [OF a])
  note ih = Suc.IH [OF rest [unfolded i1] argv(2)]
  have t: "take (Suc (length acc)) argv1 = acc @ [a]" "Suc (length acc) \<le> length argv1" using ih by simp_all
  then have nth: "argv1 ! length acc = a" using nth_take [of "length acc" "Suc (length acc)" argv1] by simp
  have "take (length acc) argv1 = take (length acc) (take (Suc (length acc)) argv1)" by simp
  then have "take (length acc) argv1 = acc" unfolding t by simp
  moreover have "convert_i32 mem signature (i + k) (argv ! k) (drop k argv ! 1) inst = (Some (argv1 ! (length acc + k)), inst)"
    if "k < Suc n" for k
  proof (cases k)
    case 0
    then show ?thesis using a i1 argv(1) nth by simp
  next
    case (Suc l)
    then show ?thesis using ih argv(1) that by simp
  qed
  ultimately show ?case using ih by simp
qed auto

lemma check_params_drop: "check_params ts p = Some p' \<Longrightarrow> p' = drop (length ts) p \<and> length ts \<le> length p"
proof (induction ts p rule: check_params.induct)
  case (3 t ts sig p)
  show ?case
  proof (cases "ts \<noteq> [] \<and> hd ts = I32 \<and> p \<noteq> [] \<and> hd p = CHR ''~'' \<and> t = I32 \<and> sig = CHR ''*''")
    case True
    then have "check_params (tl ts) (tl p) = Some p'" using 3 by (simp add: sig_map_def)
    then have "p' = drop (length (tl ts)) (tl p) \<and> length (tl ts) \<le> length (tl p)"
      using 3(2) True by (simp add: sig_map_def)
    then show ?thesis using True by (cases ts; cases p) simp_all
  next
    case False
    then have "check_params ts p = Some p'" using 3(5) by (auto split: if_splits)
    moreover have "\<not> (ts \<noteq> [] \<and> hd ts = I32 \<and> p \<noteq> [] \<and> hd p = CHR ''~'')" if "t = I32" "sig = CHR ''*''"
      using False that by simp
    ultimately have "p' = drop (length ts) p \<and> length ts \<le> length p"
      using 3(1,3,4) 3(5) by (simp split: if_splits)
    then show ?thesis by simp
  qed
qed auto

lemma convert_i32_pointer:
  assumes "convert_i32 mem (Some sig) i arg next_arg inst = (Some a, inst')" and "sig_char sig (i + 1) = CHR ''*''"
  shows "wasm_validate_app_addr arg (if sig_char sig (i + 2) = CHR ''~'' then next_arg else 1) inst = (True, inst)"
    and "a = wasm_addr_app_to_native inst arg"
proof -
  obtain ok inst1 where v: "wasm_validate_app_addr arg (if sig_char sig (i + 2) = CHR ''~'' then next_arg else 1) inst = (ok, inst1)"
    by fastforce
  then have "ok" "a = wasm_addr_app_to_native inst1 arg" using assms by (auto simp: convert_i32_def Let_def split: bool.splits)
  then show "wasm_validate_app_addr arg (if sig_char sig (i + 2) = CHR ''~'' then next_arg else 1) inst = (True, inst)"
    "a = wasm_addr_app_to_native inst arg"
    using v validate_app_addr_true by auto
qed

lemma checked_signature_end:
  assumes "check_symbol_signature ty sig"
  shows "sig_char sig (length (wt_params ty) + 1) = CHR '')''"
proof -
  obtain p where p: "check_params (wt_params ty) (tl sig) = Some p" "p \<noteq> []" "hd p = CHR '')''"
    using assms by (auto simp: check_symbol_signature_def split: if_splits option.splits)
  have d: "p = drop (length (wt_params ty)) (tl sig)" using check_params_drop [OF p(1)] by blast
  have "sig \<noteq> []" using assms by (auto simp: check_symbol_signature_def)
  then obtain c cs where sig: "sig = c # cs" by (cases sig) auto
  have "length (wt_params ty) < length cs" using p(2) d sig by (cases "length (wt_params ty) < length cs") auto
  moreover have "hd p = cs ! length (wt_params ty)" using d sig calculation by (simp add: hd_drop_conv_nth)
  ultimately show ?thesis using p(3) sig by (simp add: sig_char_def)
qed

text \<open>C32: a pointer that a box passes to the host is checked for as many bytes as the signature of the
  import tells, and no more. For a checked signature over 32-bit arguments, an argument marked as pointer
  that gets to the native function is the host address of its offset, and it lies within the linear memory
  together with the number of bytes of the next argument where the signature marks that one as its length,
  and with one byte otherwise.\<close>

theorem native_pointers_checked:
  assumes "memory_ok inst" and "check_symbol_signature ty sig" and "wt_params ty = replicate n I32"
    and "length argv = n" and "invoke_native_args mem exec_env (Some sig) ty argv inst = (Some argv1, inst')"
    and "i < n" and "sig_char sig (i + 1) = CHR ''*''"
    and "sz = (if sig_char sig (i + 2) = CHR ''~'' then argv ! (i + 1) else 1)" and "sz \<noteq> 0"
  shows "inst' = inst \<and> length argv1 = n + 1 \<and>
    unat (argv1 ! (i + 1)) = unat (memory_data inst) + unat (argv ! i) \<and>
    unat (argv1 ! (i + 1)) + unat sz \<le> unat (memory_data_end inst)"
proof -
  have run: "convert_args mem (Some sig) (replicate n I32) 0 argv [exec_env] inst = (Some argv1, inst')"
    using assms(3,5) by (simp add: invoke_native_args_def)
  note each = convert_args_each [OF run assms(4)]
  have conv: "convert_i32 mem (Some sig) i (argv ! i) (drop i argv ! 1) inst = (Some (argv1 ! (i + 1)), inst)"
    using each assms(6) by simp
  have "drop i argv ! 1 = argv ! (i + 1)" if "sig_char sig (i + 2) = CHR ''~''"
  proof -
    have "i + 1 \<noteq> n" using checked_signature_end [OF assms(2)] that assms(3) by auto
    then show ?thesis using assms(4,6) by simp
  qed
  then have len: "(if sig_char sig (i + 2) = CHR ''~'' then drop i argv ! 1 else 1) = sz"
    unfolding assms(8) by (rule if_cong [OF refl _ refl])
  have "wasm_validate_app_addr (argv ! i) sz inst = (True, inst)" "argv1 ! (i + 1) = wasm_addr_app_to_native inst (argv ! i)"
    using convert_i32_pointer [OF conv assms(7)] unfolding len by simp_all
  moreover from this(1) have fits: "unat (argv ! i) + unat sz \<le> unat (memory_data_size inst)"
    using validate_app_addr_iff [of "argv ! i" sz inst] by simp
  moreover have "0 < unat sz" using assms(9) by (simp add: unat_gt_0)
  ultimately have "unat (argv1 ! (i + 1)) = unat (memory_data inst) + unat (argv ! i)"
    using app_to_native_within(2) [OF assms(1)] by simp
  then show ?thesis using each fits assms(1) by (simp add: memory_ok_def)
qed

text \<open>A page of memory at \<open>0x20001000\<close>.\<close>

definition one_page :: wasm_instance where
  "one_page = \<lparr>memory_data = 0x20001000, memory_data_end = 0x20011000, num_bytes_per_page = 0x10000,
    cur_page_count = 1, cur_exception = []\<rparr>"

theorem native_pointers_checked_witness:
  "0x20001010 + unat (0x20 :: u32) \<le> unat (memory_data_end one_page)"
proof -
  have ok: "memory_ok one_page" by (simp add: memory_ok_def one_page_def memory_data_size_def)
  let ?ty = "\<lparr>wt_params = [I32, I32, I32], wt_results = [I32]\<rparr>"
  have sig: "check_symbol_signature ?ty ''(i*~)i''" by code_simp
  have run: "invoke_native_args (\<lambda>_. 0) 0x20000500 (Some ''(i*~)i'') ?ty [1, 0x10, 0x20] one_page =
      (Some [0x20000500, 1, 0x20001010, 0x20], one_page)"
    by code_simp
  have c: "sig_char ''(i*~)i'' (1 + 1) = CHR ''*''" "sig_char ''(i*~)i'' (1 + 2) = CHR ''~''" by code_simp+
  have "unat ([0x20000500, 1, 0x20001010, 0x20 :: u32] ! (1 + 1)) + unat (0x20 :: u32) \<le> unat (memory_data_end one_page)"
    using native_pointers_checked [OF ok sig _ _ run _ c(1), of 3 "0x20"] c(2) by (simp add: numeral_3_eq_3)
  then show ?thesis by simp
qed

text \<open>The signatures of the glue mark no lengths: the host's write gets a checked address and whatever
  length the box gives, up to the end of the address space.\<close>

lemma box_write_length_unchecked:
  assumes "memory_ok inst" and "0 < memory_data_size inst"
  shows "invoke_native_args mem exec_env (Some ''(i*i)i'') \<lparr>wt_params = [I32, I32, I32], wt_results = [I32]\<rparr> [fd, 0, sz] inst =
    (Some [exec_env, fd, memory_data inst, sz], inst)"
proof -
  have "unat (0 :: u32) < unat (memory_data_size inst)" using assms(2) by (simp add: word_less_nat_alt)
  from app_to_native_within(1) [OF assms(1) this] have a: "wasm_addr_app_to_native inst 0 = memory_data inst" by simp
  have "fst (wasm_validate_app_addr 0 1 inst)" unfolding validate_app_addr_iff using assms(2) by (simp add: word_less_nat_alt)
  then have v: "wasm_validate_app_addr 0 1 inst = (True, inst)"
    by (metis prod.collapse validate_app_addr_true)
  show ?thesis
    by (simp add: invoke_native_args_def convert_i32_def sig_char_def v a)
qed

end
