(* ===== verification/WamrHost.thy ===== *)
theory WamrHost
  imports WamrArgs BoxLifecycle
begin

text \<open>
  The host's side of a box in the WebAssembly interpreter (examples/wamr-hello/bb.c): bringing the box up,
  calling its exports, its abort and the data stack in its linear memory.

  The state is the glue's variables, the module instance (theory \<open>WamrArgs\<close>), the list of registered
  natives (theory \<open>WamrNative\<close>), how many modules, instances and environments of the interpreter are alive, and the rest of the
  machine as \<open>'w\<close>. The parts of the interpreter that the glue calls and that are not modelled are
  parameters (\<open>wamr_api\<close>), and so are the exported functions of the box: a body gets the words of its
  arguments and gives the words of its results, or stops the system.
\<close>

record 'w wamr_sys =
  wm_runtime :: bool
  wm_initialized :: bool
  wm_datasp :: u32
  wm_module :: bool
  wm_inst :: "wasm_instance option"
  wm_exec_env :: bool
  wm_err :: int
  wm_natives :: "natives_node list"
  wm_live :: "nat \<times> nat \<times> nat"
  wm_world :: 'w

record 'w wamr_api =
  api_runtime_init :: "'w \<Rightarrow> bool \<times> 'w"
  api_node_alloc :: "'w \<Rightarrow> bool \<times> 'w"
  api_load :: "'w \<Rightarrow> bool \<times> 'w"
  api_instantiate :: "'w \<Rightarrow> wasm_instance option \<times> 'w"
  api_exec_env :: "'w \<Rightarrow> bool \<times> 'w"

type_synonym 'w wamr_op = "'w wamr_sys \<Rightarrow> (box_stop + int) \<times> 'w wamr_sys"

record 'w wasm_function =
  wf_param_cells :: nat
  wf_body :: "u32 list \<Rightarrow> 'w wamr_sys \<Rightarrow> (box_stop + u32 list) \<times> 'w wamr_sys"

definition on_inst :: "(wasm_instance \<Rightarrow> wasm_instance) \<Rightarrow> 'w wamr_sys \<Rightarrow> 'w wamr_sys" where
  "on_inst f s = s\<lparr>wm_inst := map_option f (wm_inst s)\<rparr>"

definition has_exception :: "'w wamr_sys \<Rightarrow> bool" where
  "has_exception s = (case wm_inst s of None \<Rightarrow> False | Some inst \<Rightarrow> wasm_get_exception inst \<noteq> None)"

text \<open>The abort of a box, an import: it only notes the error and raises an exception in the instance.\<close>

definition wamr_box1_abort :: "int \<Rightarrow> 'w wamr_sys \<Rightarrow> 'w wamr_sys" where
  "wamr_box1_abort err s = on_inst (wasm_set_exception (Some ''__box_abort'')) (s\<lparr>wm_err := err\<rparr>)"

text \<open>\<^verbatim>\<open>wasm_interp_call_wasm\<close>: the words in \<^verbatim>\<open>argv\<close> after the call. The message has the two numbers in the
  code; its checks of the stacks are left to the body, which can end them in an exception as well.\<close>

definition wasm_interp_call_wasm ::
  "'w wasm_function \<Rightarrow> nat \<Rightarrow> u32 list \<Rightarrow> 'w wamr_sys \<Rightarrow> (box_stop + u32 list) \<times> 'w wamr_sys" where
  "wasm_interp_call_wasm f argc argv s =
     (if argc \<noteq> wf_param_cells f
      then (Inr argv, on_inst (wasm_set_exception (Some ''invalid argument count'')) s)
      else case wf_body f (take argc argv) s of
        (Inl e, s1) \<Rightarrow> (Inl e, s1)
      | (Inr ret, s1) \<Rightarrow>
          if \<not> has_exception s1 then (Inr (ret @ drop (length ret) argv), s1) else (Inr argv, s1))"

text \<open>\<^verbatim>\<open>wasm_call_function\<close>: whether the call succeeded, and \<^verbatim>\<open>argv\<close>.\<close>

definition wamr_call_wasm ::
  "'w wasm_function \<Rightarrow> nat \<Rightarrow> u32 list \<Rightarrow> 'w wamr_sys \<Rightarrow> (box_stop + bool \<times> u32 list) \<times> 'w wamr_sys" where
  "wamr_call_wasm f argc argv s =
     (case wasm_interp_call_wasm f argc argv s of
        (Inl e, s1) \<Rightarrow> (Inl e, s1)
      | (Inr argv, s1) \<Rightarrow> (Inr (\<not> has_exception s1, argv), s1))"

subsection \<open>Bringing the box up and down\<close>

definition wamr_box1_load :: int where
  "wamr_box1_load = 0"

definition wamr_set_world :: "'w \<Rightarrow> 'w wamr_sys \<Rightarrow> 'w wamr_sys" where
  "wamr_set_world w s = s\<lparr>wm_world := w\<rparr>"

text \<open>The steps of the initialisation, each with its early return.\<close>

definition init_exec_env :: "'w wamr_api \<Rightarrow> 'w wamr_op" where
  "init_exec_env api s =
     (case api_exec_env api (wm_world s) of
        (ok, w) \<Rightarrow>
          let s = (wamr_set_world w s)\<lparr>wm_exec_env := ok\<rparr> in
          if \<not> ok then (Inr (fail_with ENOEXEC), s)
          else (Inr 0, s\<lparr>wm_live := (fst (wm_live s), fst (snd (wm_live s)), snd (snd (wm_live s)) + 1),
                  wm_datasp := 4, wm_initialized := True\<rparr>))"

definition init_instance :: "'w wamr_api \<Rightarrow> 'w wamr_op" where
  "init_instance api s =
     (case api_instantiate api (wm_world s) of
        (inst, w) \<Rightarrow>
          let s = (wamr_set_world w s)\<lparr>wm_inst := inst\<rparr> in
          if inst = None then (Inr (fail_with ENOEXEC), s)
          else init_exec_env api
            (s\<lparr>wm_live := (fst (wm_live s), fst (snd (wm_live s)) + 1, snd (snd (wm_live s)))\<rparr>))"

definition init_module :: "'w wamr_api \<Rightarrow> 'w wamr_op" where
  "init_module api s =
     (case api_load api (wm_world s) of
        (ok, w) \<Rightarrow>
          let s = (wamr_set_world w s)\<lparr>wm_module := ok\<rparr> in
          if \<not> ok then (Inr (fail_with ENOEXEC), s)
          else init_instance api (s\<lparr>wm_live := (fst (wm_live s) + 1, snd (wm_live s))\<rparr>))"

definition init_natives :: "'w wamr_api \<Rightarrow> 'w wamr_op" where
  "init_natives api s =
     (if wm_module s then init_module api s
      else case api_node_alloc api (wm_world s) of
        (alloc, w) \<Rightarrow>
          let s = wamr_set_world w s;
              (ok, nodes) = register_natives alloc ''env'' box1_native_symbols False (wm_natives s);
              s = s\<lparr>wm_natives := nodes\<rparr>
          in if \<not> ok then (Inr (fail_with EGENERAL), s) else init_module api s)"

definition wamr_box1_init :: "'w wamr_api \<Rightarrow> 'w wamr_op" where
  "wamr_box1_init api s =
     (if wm_initialized s then (Inr 0, s)
      else if wamr_box1_load \<noteq> 0 then (Inr wamr_box1_load, s)
      else if wm_runtime s then init_natives api s
      else case api_runtime_init api (wm_world s) of
        (ok, w) \<Rightarrow>
          let s = wamr_set_world w s in
          if \<not> ok then (Inr (fail_with EGENERAL), s)
          else init_natives api (s\<lparr>wm_runtime := True\<rparr>))"

definition wamr_box1_clobber :: "'w wamr_op" where
  "wamr_box1_clobber s =
     (let s = (if wm_initialized s
        then s\<lparr>wm_live := (fst (wm_live s) - 1, fst (snd (wm_live s)) - 1, snd (snd (wm_live s)) - 1)\<rparr> else s)
      in (Inr 0, s\<lparr>wm_initialized := False\<rparr>))"

subsection \<open>Exports\<close>

text \<open>All exports have the same text around their name and the words of their arguments. The frame has
  at least one word, which is not initialised for an export without arguments, here 0.\<close>

definition wamr_run_export ::
  "(string \<Rightarrow> 'w wasm_function option) \<Rightarrow> string \<Rightarrow> u32 list \<Rightarrow> 'w wamr_op" where
  "wamr_run_export exports name args s =
     (case exports name of
        None \<Rightarrow> (Inr (fail_with ENOEXEC), s)
      | Some f \<Rightarrow>
          let s = s\<lparr>wm_err := 0\<rparr>;
              frame = (if args = [] then [0] else args)
          in case wamr_call_wasm f (length args) frame s of
            (Inl e, s) \<Rightarrow> (Inl e, s)
          | (Inr (res, frame), s) \<Rightarrow>
              if \<not> res then
                if wm_err s \<noteq> 0 then (Inr (wm_err s), on_inst (wasm_set_exception None) s)
                else (Inr (fail_with EFAULT), s)
              else (Inr (sint (frame ! 0)), s))"

definition wamr_export ::
  "'w wamr_api \<Rightarrow> (string \<Rightarrow> 'w wasm_function option) \<Rightarrow> string \<Rightarrow> u32 list \<Rightarrow> 'w wamr_op" where
  "wamr_export api exports name args s =
     (if \<not> wm_initialized s
      then case wamr_box1_init api s of
          (Inl e, s1) \<Rightarrow> (Inl e, s1)
        | (Inr err, s1) \<Rightarrow> if err \<noteq> 0 then (Inr err, s1) else wamr_run_export exports name args s1
      else wamr_run_export exports name args s)"

definition wamr_box1_hello :: "'w wamr_api \<Rightarrow> (string \<Rightarrow> 'w wasm_function option) \<Rightarrow> 'w wamr_op" where
  "wamr_box1_hello api exports = wamr_export api exports ''box1_hello'' []"

definition wamr_box1_ping :: "'w wamr_api \<Rightarrow> (string \<Rightarrow> 'w wasm_function option) \<Rightarrow> u32 \<Rightarrow> 'w wamr_op" where
  "wamr_box1_ping api exports a0 = wamr_export api exports ''box1_ping'' [a0]"

definition wamr_box1_ping_abort :: "'w wamr_api \<Rightarrow> (string \<Rightarrow> 'w wasm_function option) \<Rightarrow> u32 \<Rightarrow> 'w wamr_op" where
  "wamr_box1_ping_abort api exports a0 = wamr_export api exports ''box1_ping_abort'' [a0]"

definition wamr_box1_ping_import :: "'w wamr_api \<Rightarrow> (string \<Rightarrow> 'w wasm_function option) \<Rightarrow> u32 \<Rightarrow> 'w wamr_op" where
  "wamr_box1_ping_import api exports a0 = wamr_export api exports ''box1_ping_import'' [a0]"

subsection \<open>The data stack\<close>

definition wamr_box1_push :: "u32 \<Rightarrow> 'w wamr_sys \<Rightarrow> u32 \<times> 'w wamr_sys" where
  "wamr_box1_push sz s =
     (let psp = wm_datasp s in
      if psp + sz > 16384 then (0, s)
      else (case wm_inst s of None \<Rightarrow> 0 | Some inst \<Rightarrow> wasm_addr_app_to_native inst psp, s\<lparr>wm_datasp := psp + sz\<rparr>))"

definition wamr_box1_pop :: "u32 \<Rightarrow> 'w wamr_sys \<Rightarrow> box_stop + 'w wamr_sys" where
  "wamr_box1_pop sz s =
     (if \<not> 0 \<le> wm_datasp s - sz then Inl (Halted (-1))
      else Inr (s\<lparr>wm_datasp := wm_datasp s - sz\<rparr>))"

subsection \<open>The life of the box\<close>

lemma init_exec_env_up: "init_exec_env api s = (Inr 0, s') \<Longrightarrow> wm_initialized s'"
  by (auto simp: init_exec_env_def Let_def fail_with_def split: prod.splits if_splits)

lemma init_natives_up: "init_natives api s = (Inr 0, s') \<Longrightarrow> wm_initialized s'"
  by (auto simp: init_natives_def init_module_def init_instance_def Let_def fail_with_def
      split: prod.splits if_splits dest: init_exec_env_up)

interpretation wamr_life: box_life wm_initialized "wamr_box1_init api" wamr_box1_clobber
  by unfold_locales
    (auto simp: wamr_box1_init_def wamr_box1_clobber_def Let_def fail_with_def wamr_box1_load_def
      split: prod.splits if_splits dest: init_natives_up)

lemma wamr_export_lazy:
  "(\<exists>s1. wm_initialized s1 \<and> wamr_box1_init api s = (Inr 0, s1) \<and>
      wamr_export api exports name args s = wamr_run_export exports name args s1) \<or>
   (\<not> wm_initialized s \<and> wamr_export api exports name args s = wamr_box1_init api s \<and>
      fst (wamr_export api exports name args s) \<noteq> Inr 0)"
  using wamr_life.lazy_call [where call = "wamr_export api exports name args"
      and imp = "wamr_run_export exports name args" and api = api and s = s]
  by (auto simp: wamr_export_def)

subsection \<open>Aborts and traps\<close>

lemma exception_set [simp]:
  "wasm_get_exception (wasm_set_exception (Some e) inst) = Some (take 127 (''Exception: '' @ e))"
  "wasm_get_exception (wasm_set_exception None inst) = None"
  by (simp_all add: wasm_get_exception_def wasm_set_exception_def)

lemma call_wasm_frame:
  assumes "wf_param_cells f = length args"
  shows "wamr_call_wasm f (length args) (if args = [] then [0] else args) s =
    (case wf_body f args s of (Inl e, s1) \<Rightarrow> (Inl e, s1)
     | (Inr ret, s1) \<Rightarrow> if has_exception s1 then (Inr (False, if args = [] then [0] else args), s1)
         else (Inr (True, ret @ drop (length ret) (if args = [] then [0] else args)), s1))"
  using assms by (auto simp: wamr_call_wasm_def wasm_interp_call_wasm_def split: prod.splits sum.splits)

text \<open>An abort of a box in the interpreter ends its call and leaves the box up. Its error, when
  nonzero, is what the export returns, the exception that carried it is cleared, and the next export runs
  in the same instance without a new initialisation, where the other runtimes take the box down.\<close>

theorem wamr_abort_recovers:
  assumes "wm_initialized s" and "exports name = Some f" and "wf_param_cells f = length args"
    and "wf_body f args (s\<lparr>wm_err := 0\<rparr>) = (Inr ret, wamr_box1_abort err s1)"
    and "err \<noteq> 0" and "wm_inst s1 = Some inst" and "wm_initialized s1"
  shows "\<exists>s'. wamr_export api exports name args s = (Inr err, s') \<and> wm_world s' = wm_world s1 \<and>
    \<not> has_exception s' \<and> wm_live s' = wm_live s1 \<and>
    wamr_export api exports name' args' s' = wamr_run_export exports name' args' s'"
  using assms
  by (auto simp: wamr_export_def wamr_run_export_def Let_def call_wasm_frame wamr_box1_abort_def on_inst_def
      has_exception_def)

text \<open>A box whose instance holds an exception nobody cleared.\<close>

definition wamr_dead :: "'w wamr_sys \<Rightarrow> bool" where
  "wamr_dead s \<longleftrightarrow> wm_initialized s \<and> has_exception s"

text \<open>A trap, or an abort with error 0, leaves the box in that state.\<close>

lemma wamr_trap_kills:
  assumes "wm_initialized s" and "exports name = Some f" and "wf_param_cells f = length args"
    and "wf_body f args (s\<lparr>wm_err := 0\<rparr>) = (Inr ret, s1)" and "has_exception s1" and "wm_err s1 = 0"
    and "wm_initialized s1"
  shows "wamr_export api exports name args s = (Inr (fail_with EFAULT), s1) \<and> wamr_dead s1"
  using assms by (simp add: wamr_export_def wamr_run_export_def Let_def call_wasm_frame wamr_dead_def)






definition trapped_box :: "unit wamr_sys" where
  "trapped_box = \<lparr>wm_runtime = True, wm_initialized = True, wm_datasp = 4, wm_module = True,
     wm_inst = Some (wasm_set_exception (Some ''unreachable'') one_page), wm_exec_env = True, wm_err = 0,
     wm_natives = [], wm_live = (1, 1, 1), wm_world = ()\<rparr>"


theorem wamr_abort_recovers_witness:
  "\<exists>s'. wamr_export api (\<lambda>name. Some \<lparr>wf_param_cells = 1, wf_body = (\<lambda>args s. (Inr [], wamr_box1_abort (- 5) s))\<rparr>)
     ''box1_ping_abort'' [5] (trapped_box\<lparr>wm_inst := Some one_page\<rparr>) = (Inr (- 5), s') \<and> \<not> has_exception s'"
  using wamr_abort_recovers [of "trapped_box\<lparr>wm_inst := Some one_page\<rparr>"
      "\<lambda>name. Some \<lparr>wf_param_cells = 1, wf_body = (\<lambda>args s. (Inr [], wamr_box1_abort (- 5) s))\<rparr>" "''box1_ping_abort''"
      "\<lparr>wf_param_cells = 1, wf_body = (\<lambda>args s. (Inr [], wamr_box1_abort (- 5) s))\<rparr>" "[5]" "[]" "- 5"
      "(trapped_box\<lparr>wm_inst := Some one_page\<rparr>)\<lparr>wm_err := 0\<rparr>" one_page api]
  by (auto simp: trapped_box_def)

text \<open>Clobbering a dead box and initialising it anew revives it, when the new instance starts without an
  exception.\<close>

lemma wamr_clobber_revives:
  assumes "wamr_box1_init api (snd (wamr_box1_clobber s)) = (Inr 0, s')"
    and "\<And>w inst w'. api_instantiate api w = (Some inst, w') \<Longrightarrow> cur_exception inst = []"
  shows "wm_initialized s' \<and> \<not> has_exception s'"
proof -
  have "\<not> has_exception s'" if "init_natives api t = (Inr 0, s')" for t
    using that assms(2)
    by (auto simp: init_natives_def init_module_def init_instance_def init_exec_env_def Let_def fail_with_def
        wamr_set_world_def has_exception_def wasm_get_exception_def split: prod.splits if_splits option.splits)
  then show ?thesis
    using assms(1) wamr_life.init_up [OF assms(1)]
    by (auto simp: wamr_box1_init_def wamr_box1_clobber_def Let_def fail_with_def wamr_box1_load_def
        split: prod.splits if_splits)
qed

subsection \<open>Failed initialisations\<close>

text \<open>A module that cannot be instantiated stays loaded: each attempt to bring the box up leaks one.\<close>

lemma wamr_init_leaks:
  assumes "\<not> wm_initialized s" and "wm_runtime s" and "wm_module s"
    and "\<And>w. fst (api_load api w)" and "\<And>w. fst (api_instantiate api w) = None"
  shows "\<exists>s'. wamr_box1_init api s = (Inr (fail_with ENOEXEC), s') \<and> fst (wm_live s') = fst (wm_live s) + 1 \<and>
    \<not> wm_initialized s' \<and> snd (wamr_box1_clobber s') = s'"
proof -
  obtain w1 where l: "api_load api (wm_world s) = (True, w1)" using assms(4) by (metis prod.collapse)
  obtain w2 where i: "api_instantiate api w1 = (None, w2)" using assms(5) by (metis prod.collapse)
  show ?thesis
    using assms(1-3)
    by (simp add: wamr_box1_init_def wamr_box1_load_def init_natives_def init_module_def init_instance_def l i Let_def
        wamr_set_world_def wamr_box1_clobber_def)
qed

subsection \<open>The data stack grows up and is hardly checked\<close>

lemma wamr_pop_never_stops: "wamr_box1_pop sz s = Inr (s\<lparr>wm_datasp := wm_datasp s - sz\<rparr>)"
  by (simp add: wamr_box1_pop_def)

lemma wamr_pushes_pops: "pushes wamr_box1_push ns s = Some s' \<Longrightarrow> pops wamr_box1_pop ns s' = Inr s"
proof (induction ns arbitrary: s)
  case (Cons n ns)
  then obtain p s1 where p: "wamr_box1_push n s = (p, s1)" "p \<noteq> 0" "pushes wamr_box1_push ns s1 = Some s'"
    by (auto split: prod.splits if_splits)
  then have "s1 = s\<lparr>wm_datasp := wm_datasp s + n\<rparr>" by (auto simp: wamr_box1_push_def Let_def split: if_splits)
  then show ?case using Cons.IH [OF p(3)] by (simp add: wamr_pop_never_stops)
qed simp

text \<open>A push of four bytes less than the address space wraps past the check and hands out memory.\<close>

lemma wamr_push_wraps:
  assumes "wm_datasp s = 4" and "wm_inst s = Some one_page"
  shows "wamr_box1_push 0xfffffffc s = (0x20001004, s\<lparr>wm_datasp := 0\<rparr>)"
  using assms by (simp add: wamr_box1_push_def wasm_addr_app_to_native_def one_page_def)

end
