(* ===== verification/Wasm3Host.thy ===== *)
theory Wasm3Host
  imports BoxLifecycle
begin

text \<open>
  The host's side of a box in wasm3 (examples/wasm3-hello/bb.c). The interpreter is a submodule: its
  operations are parameters of the initialisation (\<open>wasm3_api\<close>), the functions of the box are what it
  finds by name, with a body that works on the runtime's stack and ends in a result of the interpreter.
\<close>

subsection \<open>Results of the interpreter\<close>

text \<open>An \<^verbatim>\<open>M3Result\<close> is a pointer to one of the interpreter's messages; \<open>m3Err_other\<close> is any other
  pointer.\<close>

datatype (plugins only: size) m3_result =
    m3Err_none | m3Err_typeListOverflow | m3Err_mallocFailed | m3Err_incompatibleWasmVersion | m3Err_wasmMalformed
  | m3Err_misorderedWasmSection | m3Err_wasmUnderrun | m3Err_wasmOverrun | m3Err_wasmMissingInitExpr
  | m3Err_lebOverflow | m3Err_missingUTF8 | m3Err_wasmSectionUnderrun | m3Err_wasmSectionOverrun
  | m3Err_invalidTypeId | m3Err_tooManyMemorySections | m3Err_moduleAlreadyLinked | m3Err_functionLookupFailed
  | m3Err_functionImportMissing | m3Err_malformedFunctionSignature | m3Err_funcSignatureMissingReturnType
  | m3Err_noCompiler | m3Err_unknownOpcode | m3Err_functionStackOverflow | m3Err_functionStackUnderrun
  | m3Err_mallocFailedCodePage | m3Err_settingImmutableGlobal | m3Err_optimizerFailed | m3Err_missingCompiledCode
  | m3Err_wasmMemoryOverflow | m3Err_globalMemoryNotAllocated | m3Err_globaIndexOutOfBounds
  | m3Err_argumentCountMismatch | m3Err_trapOutOfBoundsMemoryAccess | m3Err_trapDivisionByZero
  | m3Err_trapIntegerOverflow | m3Err_trapIntegerConversion | m3Err_trapIndirectCallTypeMismatch
  | m3Err_trapTableIndexOutOfRange | m3Err_trapTableElementIsNull | m3Err_trapExit | m3Err_trapAbort
  | m3Err_trapUnreachable | m3Err_trapStackOverflow | m3Err_other

primrec wasm3_toerr :: "m3_result \<Rightarrow> int" where
  "wasm3_toerr m3Err_none = 0"
| "wasm3_toerr m3Err_typeListOverflow = fail_with ENOMEM"
| "wasm3_toerr m3Err_mallocFailed = fail_with ENOMEM"
| "wasm3_toerr m3Err_incompatibleWasmVersion = fail_with ENOEXEC"
| "wasm3_toerr m3Err_wasmMalformed = fail_with ENOEXEC"
| "wasm3_toerr m3Err_misorderedWasmSection = fail_with ENOEXEC"
| "wasm3_toerr m3Err_wasmUnderrun = fail_with ENOEXEC"
| "wasm3_toerr m3Err_wasmOverrun = fail_with ENOEXEC"
| "wasm3_toerr m3Err_wasmMissingInitExpr = fail_with ENOEXEC"
| "wasm3_toerr m3Err_lebOverflow = fail_with ENOEXEC"
| "wasm3_toerr m3Err_missingUTF8 = fail_with ENOEXEC"
| "wasm3_toerr m3Err_wasmSectionUnderrun = fail_with ENOEXEC"
| "wasm3_toerr m3Err_wasmSectionOverrun = fail_with ENOEXEC"
| "wasm3_toerr m3Err_invalidTypeId = fail_with ENOEXEC"
| "wasm3_toerr m3Err_tooManyMemorySections = fail_with ENOEXEC"
| "wasm3_toerr m3Err_moduleAlreadyLinked = fail_with ENOEXEC"
| "wasm3_toerr m3Err_functionLookupFailed = fail_with ENOEXEC"
| "wasm3_toerr m3Err_functionImportMissing = fail_with ENOEXEC"
| "wasm3_toerr m3Err_malformedFunctionSignature = fail_with ENOEXEC"
| "wasm3_toerr m3Err_funcSignatureMissingReturnType = fail_with ENOEXEC"
| "wasm3_toerr m3Err_noCompiler = fail_with ENOEXEC"
| "wasm3_toerr m3Err_unknownOpcode = fail_with ENOEXEC"
| "wasm3_toerr m3Err_functionStackOverflow = fail_with EOVERFLOW"
| "wasm3_toerr m3Err_functionStackUnderrun = fail_with ENOEXEC"
| "wasm3_toerr m3Err_mallocFailedCodePage = fail_with ENOMEM"
| "wasm3_toerr m3Err_settingImmutableGlobal = fail_with ENOEXEC"
| "wasm3_toerr m3Err_optimizerFailed = fail_with ENOEXEC"
| "wasm3_toerr m3Err_missingCompiledCode = fail_with ENOEXEC"
| "wasm3_toerr m3Err_wasmMemoryOverflow = fail_with ENOEXEC"
| "wasm3_toerr m3Err_globalMemoryNotAllocated = fail_with ENOEXEC"
| "wasm3_toerr m3Err_globaIndexOutOfBounds = fail_with ENOEXEC"
| "wasm3_toerr m3Err_argumentCountMismatch = fail_with ENOEXEC"
| "wasm3_toerr m3Err_trapOutOfBoundsMemoryAccess = fail_with EFAULT"
| "wasm3_toerr m3Err_trapDivisionByZero = fail_with EDOM"
| "wasm3_toerr m3Err_trapIntegerOverflow = fail_with ERANGE"
| "wasm3_toerr m3Err_trapIntegerConversion = fail_with ERANGE"
| "wasm3_toerr m3Err_trapIndirectCallTypeMismatch = fail_with ENOEXEC"
| "wasm3_toerr m3Err_trapTableIndexOutOfRange = fail_with EFAULT"
| "wasm3_toerr m3Err_trapTableElementIsNull = fail_with EFAULT"
| "wasm3_toerr m3Err_trapExit = fail_with ECANCELED"
| "wasm3_toerr m3Err_trapAbort = fail_with ECANCELED"
| "wasm3_toerr m3Err_trapUnreachable = fail_with EFAULT"
| "wasm3_toerr m3Err_trapStackOverflow = fail_with EOVERFLOW"
| "wasm3_toerr m3Err_other = fail_with EGENERAL"

lemma wasm3_toerr_cases: "wasm3_toerr r = 0 \<longleftrightarrow> r = m3Err_none" "wasm3_toerr r \<le> 0"
  by (cases r; simp add: fail_with_def)+

subsection \<open>State\<close>

record m3_runtime =
  m3_exit_code :: int
  m3_stack :: "u64 list"
  m3_mem_data :: u32

text \<open>Besides the variables of the glue: how many runtimes of the interpreter are alive.\<close>

record 'w wasm3_sys =
  w3_environment :: bool
  w3_initialized :: bool
  w3_runtime :: "m3_runtime option"
  w3_module :: bool
  w3_datasp :: u32
  w3_live :: nat
  w3_world :: 'w

type_synonym 'w wasm3_op = "'w wasm3_sys \<Rightarrow> (box_stop + int) \<times> 'w wasm3_sys"

record 'w wasm3_function =
  w3f_compiled :: bool
  w3f_numArgs :: nat
  w3f_body :: "'w wasm3_sys \<Rightarrow> (box_stop + m3_result) \<times> 'w wasm3_sys"

record 'w wasm3_api =
  w3_new_environment :: "'w \<Rightarrow> bool \<times> 'w"
  w3_new_runtime :: "'w \<Rightarrow> m3_runtime option \<times> 'w"
  w3_parse_module :: "'w \<Rightarrow> m3_result \<times> 'w"
  w3_load_module :: "'w \<Rightarrow> m3_result \<times> 'w"
  w3_link_raw_function :: "string \<Rightarrow> string \<Rightarrow> 'w \<Rightarrow> m3_result \<times> 'w"

subsection \<open>Bringing the box up and down\<close>

definition w3_set_world :: "'w \<Rightarrow> 'w wasm3_sys \<Rightarrow> 'w wasm3_sys" where
  "w3_set_world w s = s\<lparr>w3_world := w\<rparr>"

definition wasm3_box1_load :: int where
  "wasm3_box1_load = 0"

text \<open>The imports that are linked, each with its signature; a function that the module does not import
  is no error.\<close>

fun link_imports :: "'w wasm3_api \<Rightarrow> (string \<times> string) list \<Rightarrow> 'w wasm3_op" where
  "link_imports api [] s = (Inr 0, s)"
| "link_imports api ((name, signature) # rest) s =
     (case w3_link_raw_function api name signature (w3_world s) of
        (res, w) \<Rightarrow>
          let s = w3_set_world w s in
          if res \<noteq> m3Err_none \<and> res \<noteq> m3Err_functionLookupFailed then (Inr (wasm3_toerr res), s)
          else link_imports api rest s)"

definition wasm3_imports :: "(string \<times> string) list" where
  "wasm3_imports = [(''__box_abort'', ''v(i)''), (''__box_write'', ''i(i*i)''), (''__box_flush'', ''i(i)''),
    (''sys_ping'', ''i(i)'')]"

definition w3_init_module :: "'w wasm3_api \<Rightarrow> 'w wasm3_op" where
  "w3_init_module api s =
     (case w3_parse_module api (w3_world s) of
        (res, w) \<Rightarrow>
          let s = w3_set_world w s in
          if res \<noteq> m3Err_none then (Inr (wasm3_toerr res), s)
          else case w3_load_module api (w3_world s) of
            (res, w) \<Rightarrow>
              let s = (w3_set_world w s)\<lparr>w3_module := True\<rparr> in
              if res \<noteq> m3Err_none then (Inr (wasm3_toerr res), s)
              else case link_imports api wasm3_imports s of
                (Inl e, s) \<Rightarrow> (Inl e, s)
              | (Inr err, s) \<Rightarrow>
                  if err \<noteq> 0 then (Inr err, s)
                  else (Inr 0, s\<lparr>w3_datasp := 4, w3_initialized := True\<rparr>))"

definition w3_init_runtime :: "'w wasm3_api \<Rightarrow> 'w wasm3_op" where
  "w3_init_runtime api s =
     (case w3_new_runtime api (w3_world s) of
        (rt, w) \<Rightarrow>
          let s = (w3_set_world w s)\<lparr>w3_runtime := rt\<rparr> in
          if rt = None then (Inr (fail_with ENOMEM), s)
          else w3_init_module api (s\<lparr>w3_live := w3_live s + 1\<rparr>))"

definition wasm3_box1_init :: "'w wasm3_api \<Rightarrow> 'w wasm3_op" where
  "wasm3_box1_init api s =
     (if w3_initialized s then (Inr 0, s)
      else if wasm3_box1_load \<noteq> 0 then (Inr wasm3_box1_load, s)
      else if w3_environment s then w3_init_runtime api s
      else case w3_new_environment api (w3_world s) of
        (ok, w) \<Rightarrow>
          let s = (w3_set_world w s)\<lparr>w3_environment := ok\<rparr> in
          if \<not> ok then (Inr (fail_with ENOMEM), s) else w3_init_runtime api s)"

definition wasm3_box1_clobber :: "'w wasm3_op" where
  "wasm3_box1_clobber s =
     (let s = (if w3_initialized s then s\<lparr>w3_live := w3_live s - 1\<rparr> else s)
      in (Inr 0, s\<lparr>w3_initialized := False\<rparr>))"

subsection \<open>The data stack and the abort\<close>

definition wasm3_fromptr :: "m3_runtime \<Rightarrow> u32 \<Rightarrow> u32" where
  "wasm3_fromptr rt ptr = ptr - m3_mem_data rt"

definition wasm3_toptr :: "m3_runtime \<Rightarrow> u32 \<Rightarrow> u32" where
  "wasm3_toptr rt ptr = m3_mem_data rt + ptr"

definition wasm3_box1_push :: "u32 \<Rightarrow> 'w wasm3_sys \<Rightarrow> u32 \<times> 'w wasm3_sys" where
  "wasm3_box1_push sz s =
     (let psp = w3_datasp s in
      if psp + sz > 16384 then (0, s)
      else (case w3_runtime s of None \<Rightarrow> 0 | Some rt \<Rightarrow> wasm3_toptr rt psp, s\<lparr>w3_datasp := psp + sz\<rparr>))"

definition wasm3_box1_pop :: "u32 \<Rightarrow> 'w wasm3_sys \<Rightarrow> box_stop + 'w wasm3_sys" where
  "wasm3_box1_pop sz s =
     (if \<not> 0 \<le> w3_datasp s - sz then Inl (Halted (-1)) else Inr (s\<lparr>w3_datasp := w3_datasp s - sz\<rparr>))"

definition on_runtime :: "(m3_runtime \<Rightarrow> m3_runtime) \<Rightarrow> 'w wasm3_sys \<Rightarrow> 'w wasm3_sys" where
  "on_runtime f s = s\<lparr>w3_runtime := map_option f (w3_runtime s)\<rparr>"

definition wasm3_box1_abort :: "int \<Rightarrow> 'w wasm3_sys \<Rightarrow> m3_result \<times> 'w wasm3_sys" where
  "wasm3_box1_abort err s = (m3Err_trapExit, on_runtime (\<lambda>rt. rt\<lparr>m3_exit_code := err\<rparr>) s)"

subsection \<open>Exports\<close>

text \<open>A 32-bit argument goes to the low word of a stack slot, and the result is read there.\<close>

definition put_arg :: "nat \<Rightarrow> u32 \<Rightarrow> u64 list \<Rightarrow> u64 list" where
  "put_arg k a stack = stack[k := push_bit 32 (drop_bit 32 (stack ! k)) + ucast a]"

definition get_result :: "u64 list \<Rightarrow> int" where
  "get_result stack = sint (ucast (stack ! 0) :: u32)"

fun put_args :: "nat \<Rightarrow> u32 list \<Rightarrow> u64 list \<Rightarrow> u64 list" where
  "put_args k [] stack = stack"
| "put_args k (a # args) stack = put_args (k + 1) args (put_arg k a stack)"

text \<open>What all exports do once the box is up. \<open>find_function\<close> is \<^verbatim>\<open>m3_FindFunction\<close>; the runtime exists in a box
  that is up.\<close>

definition wasm3_run_export ::
  "(string \<Rightarrow> m3_result \<times> 'w wasm3_function) \<Rightarrow> string \<Rightarrow> u32 list \<Rightarrow> 'w wasm3_op" where
  "wasm3_run_export find_function name args s =
     (case find_function name of
        (res, f) \<Rightarrow>
          if res \<noteq> m3Err_none \<or> \<not> w3f_compiled f \<or> w3f_numArgs f \<noteq> length args then (Inr (fail_with ENOEXEC), s)
          else case w3f_body f (on_runtime (\<lambda>rt. rt\<lparr>m3_stack := put_args 0 args (m3_stack rt)\<rparr>) s) of
            (Inl e, s) \<Rightarrow> (Inl e, s)
          | (Inr res, s) \<Rightarrow>
              (case w3_runtime s of
                 None \<Rightarrow> (Inl OutOfBounds, s)
               | Some rt \<Rightarrow>
                   if res \<noteq> m3Err_none then
                     (if res = m3Err_trapExit then (Inr (m3_exit_code rt), s) else (Inr (wasm3_toerr res), s))
                   else (Inr (get_result (m3_stack rt)), s)))"

definition wasm3_export ::
  "'w wasm3_api \<Rightarrow> (string \<Rightarrow> m3_result \<times> 'w wasm3_function) \<Rightarrow> string \<Rightarrow> u32 list \<Rightarrow> 'w wasm3_op" where
  "wasm3_export api find_function name args s =
     (if \<not> w3_initialized s
      then case wasm3_box1_init api s of
          (Inl e, s1) \<Rightarrow> (Inl e, s1)
        | (Inr err, s1) \<Rightarrow> if err \<noteq> 0 then (Inr err, s1) else wasm3_run_export find_function name args s1
      else wasm3_run_export find_function name args s)"

definition wasm3_box1_hello :: "'w wasm3_api \<Rightarrow> (string \<Rightarrow> m3_result \<times> 'w wasm3_function) \<Rightarrow> 'w wasm3_op" where
  "wasm3_box1_hello api find_function = wasm3_export api find_function ''box1_hello'' []"

definition wasm3_box1_ping :: "'w wasm3_api \<Rightarrow> (string \<Rightarrow> m3_result \<times> 'w wasm3_function) \<Rightarrow> u32 \<Rightarrow> 'w wasm3_op" where
  "wasm3_box1_ping api find_function a0 = wasm3_export api find_function ''box1_ping'' [a0]"

definition wasm3_box1_ping_abort ::
  "'w wasm3_api \<Rightarrow> (string \<Rightarrow> m3_result \<times> 'w wasm3_function) \<Rightarrow> u32 \<Rightarrow> 'w wasm3_op" where
  "wasm3_box1_ping_abort api find_function a0 = wasm3_export api find_function ''box1_ping_abort'' [a0]"

definition wasm3_box1_ping_import ::
  "'w wasm3_api \<Rightarrow> (string \<Rightarrow> m3_result \<times> 'w wasm3_function) \<Rightarrow> u32 \<Rightarrow> 'w wasm3_op" where
  "wasm3_box1_ping_import api find_function a0 = wasm3_export api find_function ''box1_ping_import'' [a0]"

subsection \<open>The life of the box\<close>

lemma link_imports_result: "link_imports api ls s = (r, s') \<Longrightarrow> \<exists>err. r = Inr err"
  by (induction ls arbitrary: s) (auto simp: Let_def split: prod.splits if_splits)

lemma w3_init_runtime_up: "w3_init_runtime api s = (Inr 0, s') \<Longrightarrow> w3_initialized s'"
  by (auto simp: w3_init_runtime_def w3_init_module_def Let_def wasm3_toerr_cases fail_with_def
      split: prod.splits if_splits sum.splits)

interpretation wasm3_life: box_life w3_initialized "wasm3_box1_init api" wasm3_box1_clobber
  by unfold_locales
    (auto simp: wasm3_box1_init_def wasm3_box1_clobber_def Let_def fail_with_def wasm3_box1_load_def
      split: prod.splits if_splits dest: w3_init_runtime_up)

lemma wasm3_export_lazy:
  "(\<exists>s1. w3_initialized s1 \<and> wasm3_box1_init api s = (Inr 0, s1) \<and>
      wasm3_export api find_function name args s = wasm3_run_export find_function name args s1) \<or>
   (\<not> w3_initialized s \<and> wasm3_export api find_function name args s = wasm3_box1_init api s \<and>
      fst (wasm3_export api find_function name args s) \<noteq> Inr 0)"
  using wasm3_life.lazy_call [where call = "wasm3_export api find_function name args"
      and imp = "wasm3_run_export find_function name args" and api = api and s = s]
  by (auto simp: wasm3_export_def)

subsection \<open>Arguments, aborts and traps\<close>

lemma put_arg_low: "k < length stack \<Longrightarrow> (ucast (put_arg k a stack ! k) :: u32) = a"
proof (rule bit_word_eqI)
  fix n assume k: "k < length stack" and "n < LENGTH(32)"
  then have n: "n < 32" by simp
  have "push_bit 32 (drop_bit 32 (stack ! k)) + ucast a = or (push_bit 32 (drop_bit 32 (stack ! k))) (ucast a :: u64)"
    by (intro disjunctive_add) (auto simp: bit_simps dest: bit_imp_le_length)
  then show "bit (ucast (put_arg k a stack ! k) :: u32) n = bit a n"
    using k n by (simp add: put_arg_def bit_simps)
qed

lemma get_put_arg: "stack \<noteq> [] \<Longrightarrow> get_result (put_arg 0 a stack) = sint a"
  by (simp add: get_result_def put_arg_low)

lemma put_args_above: "i < k \<Longrightarrow> put_args k args stack ! i = stack ! i"
  by (induction k args stack rule: put_args.induct) (simp_all add: put_arg_def)

lemma put_args_length: "length (put_args k args stack) = length stack"
  by (induction k args stack rule: put_args.induct) (simp_all add: put_arg_def)

text \<open>Each argument can be read from its slot.\<close>

lemma put_args_nth:
  "k + length args \<le> length stack \<Longrightarrow> i < length args \<Longrightarrow> (ucast (put_args k args stack ! (k + i)) :: u32) = args ! i"
proof (induction k args stack arbitrary: i rule: put_args.induct)
  case (2 k a args stack)
  have len: "length (put_arg k a stack) = length stack" by (simp add: put_arg_def)
  show ?case
  proof (cases i)
    case 0
    then show ?thesis using 2(2) by (simp add: put_args_above put_arg_low)
  next
    case (Suc l)
    then show ?thesis using 2(1) [of l] 2(2,3) len by simp
  qed
qed simp

text \<open>what an export of a box in wasm3 makes of the way its function ends. A function that returns
  gives its result; an abort of the box gives the error the box chose, and any other trap a negative error
  number of the trap; in each case the box stays up and the next export calls into the same runtime. An
  abort with error 0 gives 0 and cannot be told from a call that returned 0.\<close>

theorem wasm3_export_ends:
  assumes "w3_initialized s" and "find_function name = (m3Err_none, f)" and "w3f_compiled f"
    and "w3f_numArgs f = length args"
    and "w3f_body f (on_runtime (\<lambda>rt. rt\<lparr>m3_stack := put_args 0 args (m3_stack rt)\<rparr>) s) = (Inr res, t)"
    and "w3_initialized t" and "w3_runtime t = Some rt"
  shows "wasm3_export api find_function name args s =
      (Inr (if res = m3Err_none then get_result (m3_stack rt)
            else if res = m3Err_trapExit then m3_exit_code rt else wasm3_toerr res), t) \<and>
    (res \<noteq> m3Err_none \<longrightarrow> wasm3_toerr res < 0) \<and>
    (\<forall>err u. (res, t) = wasm3_box1_abort err u \<longrightarrow> wasm3_export api find_function name args s = (Inr err, t)) \<and>
    wasm3_export api find_function name' args' t = wasm3_run_export find_function name' args' t"
proof -
  have e: "wasm3_export api find_function name args s =
      (Inr (if res = m3Err_none then get_result (m3_stack rt)
            else if res = m3Err_trapExit then m3_exit_code rt else wasm3_toerr res), t)"
    using assms by (simp add: wasm3_export_def wasm3_run_export_def)
  moreover have "res \<noteq> m3Err_none \<longrightarrow> wasm3_toerr res < 0" using wasm3_toerr_cases [of res] by linarith
  moreover have "wasm3_export api find_function name args s = (Inr err, t)" if "(res, t) = wasm3_box1_abort err u" for err u
    using e that assms(7) by (auto simp: wasm3_box1_abort_def on_runtime_def)
  ultimately show ?thesis using assms(6) by (auto simp: wasm3_export_def)
qed

text \<open>A box that is up.\<close>

definition up_box :: "unit wasm3_sys" where
  "up_box = \<lparr>w3_environment = True, w3_initialized = True,
     w3_runtime = Some \<lparr>m3_exit_code = 0, m3_stack = [0, 0], m3_mem_data = 0x20001000\<rparr>,
     w3_module = True, w3_datasp = 4, w3_live = 1, w3_world = ()\<rparr>"

theorem wasm3_export_ends_witness:
  "\<forall>api. wasm3_export api (\<lambda>name. (m3Err_none, \<lparr>w3f_compiled = True, w3f_numArgs = 1, w3f_body =
      (\<lambda>s. let (res, s1) = wasm3_box1_abort 0 s in (Inr res, s1))\<rparr>)) ''box1_ping_abort'' [5] up_box =
    (Inr 0, up_box\<lparr>w3_runtime := Some \<lparr>m3_exit_code = 0, m3_stack = [5, 0], m3_mem_data = 0x20001000\<rparr>\<rparr>)"
  by (rule allI, subst wasm3_export_ends [where f = "\<lparr>w3f_compiled = True, w3f_numArgs = 1, w3f_body =
          (\<lambda>s. let (res, s1) = wasm3_box1_abort 0 s in (Inr res, s1))\<rparr>" and res = m3Err_trapExit
        and t = "up_box\<lparr>w3_runtime := Some \<lparr>m3_exit_code = 0, m3_stack = [5, 0], m3_mem_data = 0x20001000\<rparr>\<rparr>"
        and rt = "\<lparr>m3_exit_code = 0, m3_stack = [5, 0], m3_mem_data = 0x20001000\<rparr>", THEN conjunct1])
    (simp_all add: up_box_def wasm3_box1_abort_def on_runtime_def put_arg_def)

subsection \<open>Failed initialisations and the data stack\<close>

text \<open>A module that does not parse leaves the new runtime behind; clobbering the box does not free it.\<close>

lemma wasm3_init_leaks:
  assumes "\<not> w3_initialized s" and "w3_environment s" and "\<And>w. fst (w3_new_runtime api w) \<noteq> None"
    and "\<And>w. fst (w3_parse_module api w) = m3Err_wasmMalformed"
  shows "\<exists>s'. wasm3_box1_init api s = (Inr (fail_with ENOEXEC), s') \<and> w3_live s' = w3_live s + 1 \<and>
    \<not> w3_initialized s' \<and> snd (wasm3_box1_clobber s') = s'"
proof -
  obtain rt w1 where r: "w3_new_runtime api (w3_world s) = (Some rt, w1)"
    using assms(3) by (metis option.exhaust prod.collapse)
  obtain w2 where p: "w3_parse_module api w1 = (m3Err_wasmMalformed, w2)" using assms(4) by (metis prod.collapse)
  show ?thesis
    using assms(1,2)
    by (simp add: wasm3_box1_init_def wasm3_box1_load_def w3_init_runtime_def w3_init_module_def r p Let_def
        w3_set_world_def wasm3_box1_clobber_def)
qed

lemma wasm3_pop_never_stops: "wasm3_box1_pop sz s = Inr (s\<lparr>w3_datasp := w3_datasp s - sz\<rparr>)"
  by (simp add: wasm3_box1_pop_def)

lemma wasm3_push_wraps: "w3_datasp s = 4 \<Longrightarrow> snd (wasm3_box1_push 0xfffffffc s) = s\<lparr>w3_datasp := 0\<rparr>"
  by (simp add: wasm3_box1_push_def)

lemma wasm3_pointers: "wasm3_toptr rt (wasm3_fromptr rt ptr) = ptr" "wasm3_fromptr rt (wasm3_toptr rt off) = off"
  by (simp_all add: wasm3_toptr_def wasm3_fromptr_def)

end
