(* ===== verification/LfsBox.thy ===== *)
theory LfsBox
  imports RamDisk
begin

text \<open>
  The littlefs box (examples/armv7m-mpu-littlefs/lfsbox/main.c): file descriptors over littlefs. Its
  state is which of the four descriptors are open, the configuration, and the state \<open>'l\<close> of littlefs,
  whose functions are the fields of \<open>lfs_ops\<close>; a file object \<^verbatim>\<open>files[fd]\<close> is its index. Buffers and
  paths are addresses, and what they hold is part of \<open>'l\<close>. \<open>None\<close> is an access outside of the
  arrays.
\<close>

definition FILE_COUNT :: nat where "FILE_COUNT = 4"

record lfs_config =
  read_size :: u32
  prog_size :: u32
  block_size :: u32
  block_count :: u32
  block_cycles :: int
  cache_size :: u32
  lookahead_size :: u32

record 'l lfs_ops =
  lfs_format :: "lfs_config \<Rightarrow> 'l \<Rightarrow> int \<times> 'l"
  lfs_mount :: "lfs_config \<Rightarrow> 'l \<Rightarrow> int \<times> 'l"
  lfs_unmount :: "'l \<Rightarrow> int \<times> 'l"
  lfs_rename :: "u32 \<Rightarrow> u32 \<Rightarrow> 'l \<Rightarrow> int \<times> 'l"
  lfs_file_open :: "nat \<Rightarrow> u32 \<Rightarrow> u32 \<Rightarrow> 'l \<Rightarrow> int \<times> 'l"
  lfs_file_close :: "nat \<Rightarrow> 'l \<Rightarrow> int \<times> 'l"
  lfs_file_read :: "nat \<Rightarrow> u32 \<Rightarrow> u32 \<Rightarrow> 'l \<Rightarrow> int \<times> 'l"
  lfs_file_write :: "nat \<Rightarrow> u32 \<Rightarrow> u32 \<Rightarrow> 'l \<Rightarrow> int \<times> 'l"
  lfs_file_seek :: "nat \<Rightarrow> int \<Rightarrow> u32 \<Rightarrow> 'l \<Rightarrow> int \<times> 'l"

record 'l lfs_box =
  files_opened :: "bool list"
  cfg :: lfs_config
  lfs :: 'l

subsection \<open>The code\<close>

definition lfsbox_configure :: "lfs_config" where
  "lfsbox_configure =
     \<lparr>read_size = 1, prog_size = 1, block_size = bd_block_size, block_count = bd_block_count,
      block_cycles = 100, cache_size = 16, lookahead_size = 16\<rparr>"

definition lfsbox_format :: "'l lfs_ops \<Rightarrow> 'l lfs_box \<Rightarrow> int \<times> 'l lfs_box" where
  "lfsbox_format ops s =
     (let s = s\<lparr>cfg := lfsbox_configure\<rparr>; (r, l) = lfs_format ops (cfg s) (lfs s)
      in (r, s\<lparr>lfs := l\<rparr>))"

definition lfsbox_mount :: "'l lfs_ops \<Rightarrow> 'l lfs_box \<Rightarrow> int \<times> 'l lfs_box" where
  "lfsbox_mount ops s =
     (let s = s\<lparr>cfg := lfsbox_configure\<rparr>;
          (err, l) = lfs_mount ops (cfg s) (lfs s);
          s = s\<lparr>lfs := l\<rparr>
      in if err \<noteq> 0 then (err, s)
         else (0, s\<lparr>files_opened := replicate FILE_COUNT False\<rparr>))"

definition lfsbox_unmount :: "'l lfs_ops \<Rightarrow> 'l lfs_box \<Rightarrow> int \<times> 'l lfs_box" where
  "lfsbox_unmount ops s = (let (r, l) = lfs_unmount ops (lfs s) in (r, s\<lparr>lfs := l\<rparr>))"

definition lfsbox_rename :: "'l lfs_ops \<Rightarrow> u32 \<Rightarrow> u32 \<Rightarrow> 'l lfs_box \<Rightarrow> int \<times> 'l lfs_box" where
  "lfsbox_rename ops oldpath newpath s =
     (let (r, l) = lfs_rename ops oldpath newpath (lfs s) in (r, s\<lparr>lfs := l\<rparr>))"

text \<open>The search for a free descriptor.\<close>

fun free_fd :: "bool list \<Rightarrow> nat" where
  "free_fd [] = 0"
| "free_fd (opened # bs) = (if \<not> opened then 0 else Suc (free_fd bs))"

definition lfsbox_file_open :: "'l lfs_ops \<Rightarrow> u32 \<Rightarrow> u32 \<Rightarrow> 'l lfs_box \<Rightarrow> int \<times> 'l lfs_box" where
  "lfsbox_file_open ops path flags s =
     (let fd = free_fd (files_opened s) in
      if fd \<ge> FILE_COUNT then (fail_with EMFILE, s)
      else
        let (err, l) = lfs_file_open ops fd path flags (lfs s);
            s = s\<lparr>lfs := l\<rparr>
        in if err \<noteq> 0 then (err, s)
           else (int fd, s\<lparr>files_opened := (files_opened s)[fd := True]\<rparr>))"

definition lfsbox_file_close :: "'l lfs_ops \<Rightarrow> int \<Rightarrow> 'l lfs_box \<Rightarrow> (int \<times> 'l lfs_box) option" where
  "lfsbox_file_close ops fd s =
     (if fd \<ge> int FILE_COUNT then Some (fail_with ENFILE, s)
      else if fd < 0 then None
      else
        let (err, l) = lfs_file_close ops (nat fd) (lfs s);
            s = s\<lparr>lfs := l\<rparr>
        in if err \<noteq> 0 then Some (err, s)
           else Some (0, s\<lparr>files_opened := (files_opened s)[nat fd := False]\<rparr>))"

text \<open>Read, write and seek differ in the littlefs function \<open>f\<close> they call.\<close>

definition on_file :: "(nat \<Rightarrow> 'l \<Rightarrow> int \<times> 'l) \<Rightarrow> int \<Rightarrow> 'l lfs_box \<Rightarrow> (int \<times> 'l lfs_box) option" where
  "on_file f fd s =
     (if fd \<ge> int FILE_COUNT then Some (fail_with ENFILE, s)
      else if fd < 0 then None
      else let (r, l) = f (nat fd) (lfs s) in Some (r, s\<lparr>lfs := l\<rparr>))"

definition lfsbox_file_read :: "'l lfs_ops \<Rightarrow> int \<Rightarrow> u32 \<Rightarrow> u32 \<Rightarrow> 'l lfs_box \<Rightarrow> (int \<times> 'l lfs_box) option" where
  "lfsbox_file_read ops fd buffer sz s = on_file (\<lambda>i. lfs_file_read ops i buffer sz) fd s"

definition lfsbox_file_write :: "'l lfs_ops \<Rightarrow> int \<Rightarrow> u32 \<Rightarrow> u32 \<Rightarrow> 'l lfs_box \<Rightarrow> (int \<times> 'l lfs_box) option" where
  "lfsbox_file_write ops fd buffer sz s = on_file (\<lambda>i. lfs_file_write ops i buffer sz) fd s"

definition lfsbox_file_seek :: "'l lfs_ops \<Rightarrow> int \<Rightarrow> int \<Rightarrow> u32 \<Rightarrow> 'l lfs_box \<Rightarrow> (int \<times> 'l lfs_box) option" where
  "lfsbox_file_seek ops fd off whence s = on_file (\<lambda>i. lfs_file_seek ops i off whence) fd s"

subsection \<open>Calls of the box\<close>

datatype lfs_call =
    Format | Mount | Unmount | Rename u32 u32 | Open u32 u32 | Close int
  | Read int u32 u32 | Write int u32 u32 | Seek int int u32

fun lfs_step :: "'l lfs_ops \<Rightarrow> lfs_call \<Rightarrow> 'l lfs_box \<Rightarrow> (int \<times> 'l lfs_box) option" where
  "lfs_step ops Format s = Some (lfsbox_format ops s)"
| "lfs_step ops Mount s = Some (lfsbox_mount ops s)"
| "lfs_step ops Unmount s = Some (lfsbox_unmount ops s)"
| "lfs_step ops (Rename p q) s = Some (lfsbox_rename ops p q s)"
| "lfs_step ops (Open p flags) s = Some (lfsbox_file_open ops p flags s)"
| "lfs_step ops (Close fd) s = lfsbox_file_close ops fd s"
| "lfs_step ops (Read fd b n) s = lfsbox_file_read ops fd b n s"
| "lfs_step ops (Write fd b n) s = lfsbox_file_write ops fd b n s"
| "lfs_step ops (Seek fd off wh) s = lfsbox_file_seek ops fd off wh s"

inductive lfs_reach :: "'l lfs_ops \<Rightarrow> 'l lfs_box \<Rightarrow> 'l lfs_box \<Rightarrow> bool" for ops where
  start: "lfs_reach ops s s"
| call: "lfs_reach ops s t \<Longrightarrow> lfs_step ops c t = Some (r, t') \<Longrightarrow> lfs_reach ops s t'"

text \<open>What littlefs documents of its open files: \<open>opens l\<close> are the file objects that are open. Opening
  one can fail or open it, closing can only close, and nothing else opens a file; a successful
  mount starts with none.\<close>

definition lfs_tracks :: "('l \<Rightarrow> nat set) \<Rightarrow> 'l lfs_ops \<Rightarrow> bool" where
  "lfs_tracks opens ops \<longleftrightarrow>
     (\<forall>c l. opens (snd (lfs_format ops c l)) \<subseteq> opens l) \<and>
     (\<forall>c l. opens (snd (lfs_mount ops c l)) \<subseteq> (if fst (lfs_mount ops c l) = 0 then {} else opens l)) \<and>
     (\<forall>l. opens (snd (lfs_unmount ops l)) \<subseteq> opens l) \<and>
     (\<forall>p q l. opens (snd (lfs_rename ops p q l)) \<subseteq> opens l) \<and>
     (\<forall>i p f l. opens (snd (lfs_file_open ops i p f l)) \<subseteq>
        (if fst (lfs_file_open ops i p f l) = 0 then insert i (opens l) else opens l)) \<and>
     (\<forall>i l. opens (snd (lfs_file_close ops i l)) \<subseteq> opens l \<and>
        (fst (lfs_file_close ops i l) = 0 \<longrightarrow> i \<notin> opens (snd (lfs_file_close ops i l)))) \<and>
     (\<forall>i b n l. opens (snd (lfs_file_read ops i b n l)) \<subseteq> opens l) \<and>
     (\<forall>i b n l. opens (snd (lfs_file_write ops i b n l)) \<subseteq> opens l) \<and>
     (\<forall>i off w l. opens (snd (lfs_file_seek ops i off w l)) \<subseteq> opens l)"

definition fd_inv :: "('l \<Rightarrow> nat set) \<Rightarrow> 'l lfs_box \<Rightarrow> bool" where
  "fd_inv opens s \<longleftrightarrow> length (files_opened s) = FILE_COUNT \<and>
     opens (lfs s) \<subseteq> {i. i < FILE_COUNT \<and> files_opened s ! i}"

lemma free_fd_le: "free_fd bs \<le> length bs"
  by (induction bs) auto

lemma free_fd_closed: "free_fd bs < length bs \<Longrightarrow> \<not> bs ! free_fd bs"
  by (induction bs) auto

lemma free_fd_least: "i < free_fd bs \<Longrightarrow> bs ! i"
proof (induction bs arbitrary: i)
  case (Cons b bs)
  then show ?case by (cases i) (auto split: if_splits)
qed simp

lemma fd_inv_lfs:
  assumes "fd_inv opens s" and "opens l \<subseteq> opens (lfs s)"
  shows "fd_inv opens (s\<lparr>lfs := l\<rparr>)" "fd_inv opens (s\<lparr>cfg := c, lfs := l\<rparr>)"
  using assms by (auto simp: fd_inv_def)

lemma fd_inv_step:
  assumes tr: "lfs_tracks opens ops" and inv: "fd_inv opens s" and step: "lfs_step ops c s = Some (r, s')"
  shows "fd_inv opens s'"
proof (cases c)
  case Format
  have "opens (snd (lfs_format ops lfsbox_configure (lfs s))) \<subseteq> opens (lfs s)" using tr by (simp add: lfs_tracks_def)
  then show ?thesis using step Format fd_inv_lfs [OF inv] by (auto simp: lfsbox_format_def split: prod.splits)
next
  case Mount
  obtain err l where m: "lfs_mount ops lfsbox_configure (lfs s) = (err, l)" by fastforce
  have "opens (snd (lfs_mount ops lfsbox_configure (lfs s))) \<subseteq>
      (if fst (lfs_mount ops lfsbox_configure (lfs s)) = 0 then {} else opens (lfs s))"
    using tr by (simp only: lfs_tracks_def)
  then show ?thesis using step Mount m inv fd_inv_lfs(2) [OF inv, of l]
    by (auto simp: lfsbox_mount_def fd_inv_def split: if_splits)
next
  case Unmount
  have "opens (snd (lfs_unmount ops (lfs s))) \<subseteq> opens (lfs s)" using tr by (simp add: lfs_tracks_def)
  then show ?thesis using step Unmount fd_inv_lfs [OF inv] by (auto simp: lfsbox_unmount_def split: prod.splits)
next
  case (Rename p q)
  have "opens (snd (lfs_rename ops p q (lfs s))) \<subseteq> opens (lfs s)" using tr by (simp add: lfs_tracks_def)
  then show ?thesis using step Rename fd_inv_lfs [OF inv] by (auto simp: lfsbox_rename_def split: prod.splits)
next
  case (Open p flags)
  let ?fd = "free_fd (files_opened s)"
  obtain err l where o: "lfs_file_open ops ?fd p flags (lfs s) = (err, l)" by fastforce
  have "opens (snd (lfs_file_open ops ?fd p flags (lfs s))) \<subseteq>
      (if fst (lfs_file_open ops ?fd p flags (lfs s)) = 0 then insert ?fd (opens (lfs s)) else opens (lfs s))"
    using tr by (simp only: lfs_tracks_def)
  then show ?thesis using step Open o inv
    by (auto simp: lfsbox_file_open_def fd_inv_def Let_def nth_list_update split: if_splits) blast+
next
  case (Close fd)
  obtain err l where cl: "lfs_file_close ops (nat fd) (lfs s) = (err, l)" by fastforce
  have "opens (snd (lfs_file_close ops (nat fd) (lfs s))) \<subseteq> opens (lfs s) \<and>
      (fst (lfs_file_close ops (nat fd) (lfs s)) = 0 \<longrightarrow> nat fd \<notin> opens (snd (lfs_file_close ops (nat fd) (lfs s))))"
    using tr unfolding lfs_tracks_def by (elim conjE) (blast dest: spec)
  then show ?thesis using step Close cl inv
    by (auto simp: lfsbox_file_close_def fd_inv_def Let_def nth_list_update split: if_splits) blast+
next
  case (Read fd b n)
  have "opens (snd (lfs_file_read ops (nat fd) b n (lfs s))) \<subseteq> opens (lfs s)" using tr by (simp add: lfs_tracks_def)
  then show ?thesis using step Read fd_inv_lfs [OF inv] inv
    by (auto simp: lfsbox_file_read_def on_file_def split: prod.splits if_splits)
next
  case (Write fd b n)
  have "opens (snd (lfs_file_write ops (nat fd) b n (lfs s))) \<subseteq> opens (lfs s)" using tr by (simp add: lfs_tracks_def)
  then show ?thesis using step Write fd_inv_lfs [OF inv] inv
    by (auto simp: lfsbox_file_write_def on_file_def split: prod.splits if_splits)
next
  case (Seek fd off w)
  have "opens (snd (lfs_file_seek ops (nat fd) off w (lfs s))) \<subseteq> opens (lfs s)" using tr by (simp add: lfs_tracks_def)
  then show ?thesis using step Seek fd_inv_lfs [OF inv] inv
    by (auto simp: lfsbox_file_seek_def on_file_def split: prod.splits if_splits)
qed

lemma fd_inv_reach:
  assumes "lfs_reach ops s t" and "lfs_tracks opens ops" and "fd_inv opens s"
  shows "fd_inv opens t"
  using assms by (induction rule: lfs_reach.induct) (auto intro: fd_inv_step)

subsection \<open>Properties\<close>

text \<open>C35: an open never disturbs an open file. After any calls of the box, whatever they returned,
  \<^verbatim>\<open>lfsbox_file_open\<close> takes the lowest descriptor whose file is not open in littlefs either, or
  refuses with \<^verbatim>\<open>-EMFILE\<close> when all four are taken.\<close>

theorem lfsbox_open_fresh:
  assumes "lfs_tracks opens ops" and "fd_inv opens s" and "lfs_reach ops s t"
    and "lfsbox_file_open ops path flags t = (r, t')"
  shows "(r = fail_with EMFILE \<and> t' = t \<and> (\<forall>i<FILE_COUNT. files_opened t ! i)) \<or>
    (\<exists>fd<FILE_COUNT. fd \<notin> opens (lfs t) \<and> \<not> files_opened t ! fd \<and> (\<forall>i<fd. files_opened t ! i) \<and>
       lfs t' = snd (lfs_file_open ops fd path flags (lfs t)) \<and>
       (if fst (lfs_file_open ops fd path flags (lfs t)) = 0
        then r = int fd \<and> files_opened t' = (files_opened t)[fd := True]
        else r = fst (lfs_file_open ops fd path flags (lfs t)) \<and> files_opened t' = files_opened t))"
proof -
  let ?fd = "free_fd (files_opened t)"
  have inv: "fd_inv opens t" using fd_inv_reach assms(1-3) by blast
  then have len: "length (files_opened t) = FILE_COUNT" by (simp add: fd_inv_def)
  have least: "\<forall>i<?fd. files_opened t ! i" using free_fd_least by blast
  show ?thesis
  proof (cases "?fd < FILE_COUNT")
    case True
    then have "\<not> files_opened t ! ?fd" using free_fd_closed [of "files_opened t"] len by simp
    moreover have "?fd \<notin> opens (lfs t)" using inv \<open>\<not> files_opened t ! ?fd\<close> by (auto simp: fd_inv_def)
    ultimately show ?thesis
      using True assms(4) least
      by (intro disjI2 exI [of _ ?fd]) (auto simp: lfsbox_file_open_def Let_def split: prod.splits if_splits)
  next
    case False
    then have "?fd = FILE_COUNT" using free_fd_le [of "files_opened t"] len by simp
    then show ?thesis using assms(4) least by (auto simp: lfsbox_file_open_def Let_def)
  qed
qed

text \<open>A littlefs that only keeps its open files.\<close>

definition demo_lfs :: "nat list lfs_ops" where
  "demo_lfs = \<lparr>lfs_format = (\<lambda>c l. (0, [])), lfs_mount = (\<lambda>c l. (0, [])), lfs_unmount = (\<lambda>l. (0, l)),
     lfs_rename = (\<lambda>p q l. (0, l)), lfs_file_open = (\<lambda>i p f l. (0, i # l)),
     lfs_file_close = (\<lambda>i l. (0, removeAll i l)), lfs_file_read = (\<lambda>i b n l. (0, l)),
     lfs_file_write = (\<lambda>i b n l. (0, l)), lfs_file_seek = (\<lambda>i off w l. (0, l))\<rparr>"

definition demo_box :: "bool list \<Rightarrow> nat list \<Rightarrow> nat list lfs_box" where
  "demo_box bs l = \<lparr>files_opened = bs, cfg = lfsbox_configure, lfs = l\<rparr>"

theorem lfsbox_open_fresh_witness:
  "lfsbox_file_open demo_lfs 0x100 2 (demo_box [True, False, True, False] [2, 0]) =
     (1, demo_box [True, True, True, False] [1, 2, 0])"
proof -
  let ?s = "demo_box [True, False, True, False] [2, 0]"
  obtain r t' where o: "lfsbox_file_open demo_lfs 0x100 2 ?s = (r, t')" by fastforce
  have "lfs_tracks set demo_lfs" by (auto simp: lfs_tracks_def demo_lfs_def)
  moreover have "fd_inv set ?s" by (auto simp: fd_inv_def demo_box_def FILE_COUNT_def)
  ultimately have "(r = fail_with EMFILE \<and> t' = ?s \<and> (\<forall>i<FILE_COUNT. files_opened ?s ! i)) \<or>
    (\<exists>fd<FILE_COUNT. fd \<notin> set (lfs ?s) \<and> \<not> files_opened ?s ! fd \<and> (\<forall>i<fd. files_opened ?s ! i) \<and>
       lfs t' = snd (lfs_file_open demo_lfs fd 0x100 2 (lfs ?s)) \<and>
       (if fst (lfs_file_open demo_lfs fd 0x100 2 (lfs ?s)) = 0
        then r = int fd \<and> files_opened t' = (files_opened ?s)[fd := True]
        else r = fst (lfs_file_open demo_lfs fd 0x100 2 (lfs ?s)) \<and> files_opened t' = files_opened ?s))"
    using o by (rule lfsbox_open_fresh [OF _ _ start])
  then show ?thesis using o
    by (auto simp: demo_box_def demo_lfs_def lfsbox_file_open_def FILE_COUNT_def Let_def)
qed

text \<open>Two gaps. A descriptor is checked from above only: a failed open returns a negative one, and
  the program in \<^verbatim>\<open>main\<close> goes on to read from it after \<^verbatim>\<open>-ENOENT\<close>. And a descriptor that is not open
  reaches littlefs.\<close>

lemma negative_fd_leaves_array:
  "lfsbox_file_read ops (fail_with ENOENT) buffer sz s = None"
  "lfsbox_file_write ops (fail_with ENOENT) buffer sz s = None"
  "lfsbox_file_seek ops (fail_with ENOENT) off whence s = None"
  "lfsbox_file_close ops (fail_with ENOENT) s = None"
  by (simp_all add: lfsbox_file_read_def lfsbox_file_write_def lfsbox_file_seek_def lfsbox_file_close_def
      on_file_def fail_with_def FILE_COUNT_def)

lemma closed_fd_reaches_littlefs:
  assumes "fd < FILE_COUNT"
  shows "lfsbox_file_read ops (int fd) buffer sz s =
    Some (let (r, l) = lfs_file_read ops fd buffer sz (lfs s) in (r, s\<lparr>lfs := l\<rparr>))"
  using assms by (auto simp: lfsbox_file_read_def on_file_def split: prod.splits)

lemma mount_closes_all:
  assumes "lfsbox_mount ops s = (0, s')"
  shows "\<forall>i<FILE_COUNT. \<not> files_opened s' ! i"
  using assms by (auto simp: lfsbox_mount_def Let_def split: prod.splits if_splits)

end
