(* ===== verification/CBox.thy ===== *)
theory CBox
  imports Qsort BoxErrors
begin

text \<open>
  The rest of the C box (examples/c/main.c, also examples/multilang/boxc/main.c): its allocators, which hand
  out one static buffer of 64 bytes each, and the Fibonacci routines. A buffer is the list of its words; a
  routine gives \<open>None\<close> when it indexes past it.
\<close>

definition boxc_add2 :: "u32 \<Rightarrow> u32 \<Rightarrow> u32" where
  "boxc_add2 a b = a + b"

text \<open>The address of the buffer, or \<^verbatim>\<open>NULL\<close>.\<close>

definition boxc_fib_alloc :: "u32 \<Rightarrow> u32 \<Rightarrow> u32" where
  "boxc_fib_alloc fib_buffer sz = (if sz > 64 then 0 else fib_buffer)"

definition boxc_qsort_alloc :: "u32 \<Rightarrow> u32 \<Rightarrow> u32" where
  "boxc_qsort_alloc qsort_buffer sz = (if sz > 64 then 0 else qsort_buffer)"

text \<open>The value that is stored through \<^verbatim>\<open>next\<close>.\<close>

definition boxc_fib_next :: "u32 \<Rightarrow> u32 \<Rightarrow> int \<times> u32" where
  "boxc_fib_next a b = (0, a + b)"

definition put_word :: "u32 list \<Rightarrow> nat \<Rightarrow> u32 \<Rightarrow> u32 list option" where
  "put_word buffer i v = (if i < length buffer then Some (buffer[i := v]) else None)"

text \<open>The loop from \<open>i\<close>, with \<open>n\<close> iterations to go.\<close>

fun fib_loop :: "u32 list \<Rightarrow> nat \<Rightarrow> nat \<Rightarrow> u32 list option" where
  "fib_loop buffer i 0 = Some buffer"
| "fib_loop buffer i (Suc n) =
     (case put_word buffer i (buffer ! (i - 1) + buffer ! (i - 2)) of
        None \<Rightarrow> None
      | Some buffer \<Rightarrow> fib_loop buffer (Suc i) n)"

definition boxc_fib :: "u32 list \<Rightarrow> u32 \<Rightarrow> u32 \<Rightarrow> u32 \<Rightarrow> (int \<times> u32 list) option" where
  "boxc_fib buffer sz a b =
     (if sz < 2 then Some (fail_with EINVAL, buffer)
      else case put_word buffer 0 a of
        None \<Rightarrow> None
      | Some buffer \<Rightarrow>
          (case put_word buffer 1 b of
             None \<Rightarrow> None
           | Some buffer \<Rightarrow> map_option (Pair 0) (fib_loop buffer 2 (unat sz - 2))))"

subsection \<open>Properties\<close>

text \<open>The sequence that starts with \<open>a\<close> and \<open>b\<close>.\<close>

fun fib_seq :: "u32 \<Rightarrow> u32 \<Rightarrow> nat \<Rightarrow> u32" where
  "fib_seq a b 0 = a"
| "fib_seq a b (Suc 0) = b"
| "fib_seq a b (Suc (Suc k)) = fib_seq a b (Suc k) + fib_seq a b k"

lemma fib_loop_fits:
  "2 \<le> i \<Longrightarrow> i + n \<le> length buffer \<Longrightarrow> \<forall>k<i. buffer ! k = fib_seq a b k \<Longrightarrow>
    \<exists>buffer'. fib_loop buffer i n = Some buffer' \<and> length buffer' = length buffer \<and>
      (\<forall>k<i + n. buffer' ! k = fib_seq a b k) \<and> (\<forall>k\<ge>i + n. buffer' ! k = buffer ! k)"
proof (induction n arbitrary: buffer i)
  case (Suc n)
  obtain j where j: "i = Suc (Suc j)" using Suc.prems(1) by (metis add_2_eq_Suc le_Suc_ex)
  let ?buffer = "buffer[i := buffer ! (i - 1) + buffer ! (i - 2)]"
  have "buffer ! (i - 1) + buffer ! (i - 2) = fib_seq a b i" using Suc.prems(3) j by simp
  then have "\<forall>k<Suc i. ?buffer ! k = fib_seq a b k" using Suc.prems by (auto simp: less_Suc_eq)
  from Suc.IH [OF _ _ this] Suc.prems
  obtain buffer' where b: "fib_loop ?buffer (Suc i) n = Some buffer'" "length buffer' = length buffer"
    "\<forall>k<Suc i + n. buffer' ! k = fib_seq a b k" "\<forall>k\<ge>Suc i + n. buffer' ! k = ?buffer ! k"
    by auto
  then show ?case using Suc.prems by (auto simp: put_word_def)
qed simp

text \<open>A buffer with room for \<open>sz\<close> words gets the first \<open>sz\<close> numbers of the sequence.\<close>

lemma boxc_fib_fills:
  assumes "2 \<le> sz" and "unat sz \<le> length buffer"
  shows "\<exists>buffer'. boxc_fib buffer sz a b = Some (0, buffer') \<and> length buffer' = length buffer \<and>
    (\<forall>k<unat sz. buffer' ! k = fib_seq a b k) \<and> (\<forall>k\<ge>unat sz. buffer' ! k = buffer ! k)"
proof -
  have n: "2 \<le> unat sz" using assms(1) by (simp add: word_le_nat_alt)
  let ?buffer = "buffer[0 := a, 1 := b]"
  have "\<forall>k<2. ?buffer ! k = fib_seq a b k" using assms(2) n by (cases buffer; cases "tl buffer") (auto simp: less_2_cases_iff)
  then have "\<exists>buffer'. fib_loop ?buffer 2 (unat sz - 2) = Some buffer' \<and> length buffer' = length ?buffer \<and>
      (\<forall>k<2 + (unat sz - 2). buffer' ! k = fib_seq a b k) \<and> (\<forall>k\<ge>2 + (unat sz - 2). buffer' ! k = ?buffer ! k)"
    using assms(2) n by (intro fib_loop_fits) simp_all
  moreover have "2 + (unat sz - 2) = unat sz" using n by simp
  ultimately obtain buffer' where "fib_loop ?buffer 2 (unat sz - 2) = Some buffer'" "length buffer' = length buffer"
    "\<forall>k<unat sz. buffer' ! k = fib_seq a b k" "\<forall>k\<ge>unat sz. buffer' ! k = ?buffer ! k"
    by auto
  then show ?thesis
    using assms n by (auto simp: boxc_fib_def put_word_def word_less_nat_alt)
qed

lemma fib_loop_overruns: "length buffer < i + n \<Longrightarrow> i \<le> length buffer \<Longrightarrow> fib_loop buffer i n = None"
  by (induction n arbitrary: buffer i) (auto simp: put_word_def)

text \<open>The size counts words. The host asks the allocator for bytes and passes the same number on as the
  size, so 40 for 10 numbers: the box writes past the 16 words of its buffer.\<close>

lemma boxc_fib_overruns:
  assumes "length buffer = 16" and "fib_buffer \<noteq> 0"
  shows "boxc_fib_alloc fib_buffer 40 \<noteq> 0" and "boxc_fib buffer 40 0 1 = None"
proof -
  show "boxc_fib_alloc fib_buffer 40 \<noteq> 0" using assms(2) by (simp add: boxc_fib_alloc_def)
  show "boxc_fib buffer 40 0 1 = None"
    using assms(1) by (simp add: boxc_fib_def put_word_def fib_loop_overruns)
qed

end
