(* ===== verification/Maze.thy ===== *)
theory Maze
  imports BoxErrors
begin

text \<open>
  The maze that the host of the maze example keeps for its boxes (examples/armv7m-mpu-maze/main.c, also in
  the other maze examples): the random numbers, the accesses by cell and as a whole, and the picture. The
  benchmark hooks are the parameters \<open>stop\<close> and \<open>start\<close>; an access outside of the array is \<open>None\<close>.
\<close>

unbundle bit_operations_syntax

subsection \<open>The code\<close>

text \<open>The new state is also the result.\<close>

definition random_get :: "u32 \<Rightarrow> u32" where
  "random_get xorshift32_state =
     (let x = xorshift32_state;
          x = x XOR push_bit 13 x;
          x = x XOR drop_bit 17 x;
          x = x XOR push_bit 5 x
      in x)"

definition MAZE_WIDTH_MAX :: nat where "MAZE_WIDTH_MAX = 160 - 1"
definition MAZE_HEIGHT_MAX :: nat where "MAZE_HEIGHT_MAX = 160 - 1"

record 'c maze_sys =
  maze :: "u8 list"
  maze_width :: u32
  maze_height :: u32
  mclk :: 'c

definition maze_init :: "('c \<Rightarrow> 'c) \<Rightarrow> ('c \<Rightarrow> 'c) \<Rightarrow> u32 \<Rightarrow> u32 \<Rightarrow> 'c maze_sys \<Rightarrow> (int \<times> 'c maze_sys) option" where
  "maze_init stop start width height s =
     (let s = s\<lparr>mclk := stop (mclk s), maze_width := width, maze_height := height\<rparr>;
          n = unat (width * height)
      in if length (maze s) < n then None
         else Some (0, s\<lparr>maze := replicate n 1 @ drop n (maze s), mclk := start (mclk s)\<rparr>))"

definition maze_getwidth :: "'c maze_sys \<Rightarrow> u32" where "maze_getwidth s = maze_width s"
definition maze_getheight :: "'c maze_sys \<Rightarrow> u32" where "maze_getheight s = maze_height s"

definition maze_get :: "('c \<Rightarrow> 'c) \<Rightarrow> ('c \<Rightarrow> 'c) \<Rightarrow> u32 \<Rightarrow> u32 \<Rightarrow> 'c maze_sys \<Rightarrow> (int \<times> 'c maze_sys) option" where
  "maze_get stop start x y s =
     (let s = s\<lparr>mclk := start (stop (mclk s))\<rparr>; i = unat (x + y * maze_width s) in
      if x \<ge> maze_width s \<or> y \<ge> maze_height s then Some (fail_with EDOM, s)
      else if i < length (maze s) then Some (uint (maze s ! i), s) else None)"

definition maze_set :: "('c \<Rightarrow> 'c) \<Rightarrow> ('c \<Rightarrow> 'c) \<Rightarrow> u32 \<Rightarrow> u32 \<Rightarrow> u8 \<Rightarrow> 'c maze_sys \<Rightarrow> (int \<times> 'c maze_sys) option" where
  "maze_set stop start x y v s =
     (let s = s\<lparr>mclk := start (stop (mclk s))\<rparr>; i = unat (x + y * maze_width s) in
      if x \<ge> maze_width s \<or> y \<ge> maze_height s then Some (fail_with EDOM, s)
      else if i < length (maze s) then Some (0, s\<lparr>maze := (maze s)[i := v]\<rparr>) else None)"

text \<open>The bytes that are copied to the buffer of the caller, which is left alone on an error.\<close>

definition maze_getall ::
  "('c \<Rightarrow> 'c) \<Rightarrow> ('c \<Rightarrow> 'c) \<Rightarrow> u32 \<Rightarrow> 'c maze_sys \<Rightarrow> (int \<times> u8 list \<times> 'c maze_sys) option" where
  "maze_getall stop start sz s =
     (let s = s\<lparr>mclk := start (stop (mclk s))\<rparr> in
      if sz \<noteq> maze_width s * maze_height s then Some (fail_with EDOM, [], s)
      else if unat sz \<le> length (maze s) then Some (0, take (unat sz) (maze s), s) else None)"

text \<open>\<open>buffer\<close> is what the caller's buffer holds.\<close>

definition maze_setall ::
  "('c \<Rightarrow> 'c) \<Rightarrow> ('c \<Rightarrow> 'c) \<Rightarrow> u8 list \<Rightarrow> u32 \<Rightarrow> 'c maze_sys \<Rightarrow> (int \<times> 'c maze_sys) option" where
  "maze_setall stop start buffer sz s =
     (let s = s\<lparr>mclk := start (stop (mclk s))\<rparr> in
      if sz \<noteq> maze_width s * maze_height s then Some (fail_with EDOM, s)
      else if unat sz \<le> length (maze s) \<and> unat sz \<le> length buffer
      then Some (0, s\<lparr>maze := take (unat sz) buffer @ drop (unat sz) (maze s)\<rparr>) else None)"

text \<open>One character shows two cells, one above the other.\<close>

definition maze_char :: "u8 \<Rightarrow> u8 \<Rightarrow> char" where
  "maze_char v1 v2 =
     (if v1 > 1 \<or> v2 > 1 then CHR ''x'' else if v1 \<noteq> 0 \<and> v2 \<noteq> 0 then CHR '':''
      else if v1 \<noteq> 0 then CHR 0x27 else if v2 \<noteq> 0 then CHR ''.'' else CHR '' '')"

definition maze_row :: "nat \<Rightarrow> nat \<Rightarrow> u8 list \<Rightarrow> nat \<Rightarrow> string" where
  "maze_row w h cells y = map (\<lambda>x. maze_char (cells ! (x + y * w)) (if y + 1 < h then cells ! (x + (y + 1) * w) else 0)) [0..<w]"

text \<open>The rows from \<open>y\<close> on.\<close>

function maze_rows :: "nat \<Rightarrow> nat \<Rightarrow> u8 list \<Rightarrow> nat \<Rightarrow> string" where
  "maze_rows w h cells y = (if y < h then maze_row w h cells y @ [CHR 0x0A] @ maze_rows w h cells (y + 2) else [])"
  by auto
termination by (relation "measure (\<lambda>(w, h, cells, y). h - y)") auto

declare maze_rows.simps [simp del]

definition maze_print :: "('c \<Rightarrow> 'c) \<Rightarrow> ('c \<Rightarrow> 'c) \<Rightarrow> 'c maze_sys \<Rightarrow> string \<times> 'c maze_sys" where
  "maze_print stop start s =
     (maze_rows (unat (maze_width s)) (unat (maze_height s)) (maze s) 0, s\<lparr>mclk := start (stop (mclk s))\<rparr>)"

subsection \<open>The random numbers\<close>

text \<open>Each step of the generator can be undone, so it never reaches 0, where it would stay.\<close>

lemma xorshift_left_inj:
  fixes x y :: "'a::len word"
  assumes "x XOR push_bit k x = y XOR push_bit k y" and "0 < k"
  shows "x = y"
proof (rule bit_word_eqI)
  fix n assume "n < LENGTH('a)"
  then show "bit x n = bit y n"
  proof (induction n rule: less_induct)
    case (less n)
    have "bit (x XOR push_bit k x) n = bit (y XOR push_bit k y) n" using assms(1) by simp
    then show ?case using less assms(2) by (cases "k \<le> n") (auto simp: bit_simps)
  qed
qed

lemma xorshift_right_inj:
  fixes x y :: "'a::len word"
  assumes "x XOR drop_bit k x = y XOR drop_bit k y" and "0 < k"
  shows "x = y"
proof (rule bit_word_eqI)
  fix n assume "n < LENGTH('a)"
  then show "bit x n = bit y n"
  proof (induction "LENGTH('a) - n" arbitrary: n rule: less_induct)
    case (less n)
    have "bit (x XOR drop_bit k x) n = bit (y XOR drop_bit k y) n" using assms(1) by simp
    moreover have "bit x (k + n) = bit y (k + n)"
    proof (cases "k + n < LENGTH('a)")
      case True then show ?thesis using less assms(2) by (intro less.hyps) auto
    next
      case False then show ?thesis by (auto dest: bit_imp_le_length)
    qed
    ultimately show ?case by (cases "bit y (k + n)") (simp_all add: bit_simps)
  qed
qed

lemma random_get_inj: "random_get x = random_get y \<Longrightarrow> x = y"
  unfolding random_get_def Let_def
  by (rule xorshift_left_inj [of _ 13], rule xorshift_right_inj [of _ 17], rule xorshift_left_inj [of _ 5]) simp_all

lemma random_get_nonzero: "random_get x = 0 \<longleftrightarrow> x = 0"
  using random_get_inj [of x 0] by (auto simp: random_get_def)

lemma random_never_stuck: "(random_get ^^ n) 42 \<noteq> 0"
  by (induction n) (simp_all add: random_get_nonzero)

subsection \<open>The cells\<close>

text \<open>A maze that fits its array.\<close>

definition maze_ok :: "'c maze_sys \<Rightarrow> bool" where
  "maze_ok s \<longleftrightarrow> length (maze s) = MAZE_WIDTH_MAX * MAZE_HEIGHT_MAX \<and>
     unat (maze_width s) * unat (maze_height s) \<le> MAZE_WIDTH_MAX * MAZE_HEIGHT_MAX"

lemma maze_area: "maze_ok s \<Longrightarrow> unat (maze_width s * maze_height s) = unat (maze_width s) * unat (maze_height s)"
  by (subst unat_mult_nat) (auto simp: maze_ok_def MAZE_WIDTH_MAX_def MAZE_HEIGHT_MAX_def)

lemma cell_index:
  assumes "maze_ok s" and "x < maze_width s" and "y < maze_height s"
  shows "unat (x + y * maze_width s) = unat x + unat y * unat (maze_width s)" and "unat (x + y * maze_width s) < length (maze s)"
proof -
  have b: "unat x < unat (maze_width s)" "unat y < unat (maze_height s)" using assms(2,3) by (simp_all add: word_less_nat_alt)
  have "unat x + unat y * unat (maze_width s) < unat (maze_width s) + unat y * unat (maze_width s)" using b by simp
  also have "\<dots> = Suc (unat y) * unat (maze_width s)" by simp
  also have "\<dots> \<le> unat (maze_height s) * unat (maze_width s)" using b by (intro mult_le_mono1) simp
  finally have lt: "unat x + unat y * unat (maze_width s) < MAZE_WIDTH_MAX * MAZE_HEIGHT_MAX"
    using assms(1) by (simp add: maze_ok_def mult.commute)
  then have "unat (y * maze_width s) = unat y * unat (maze_width s)"
    by (subst unat_mult_nat) (auto simp: MAZE_WIDTH_MAX_def MAZE_HEIGHT_MAX_def)
  moreover have "unat (x + y * maze_width s) = unat x + unat (y * maze_width s)"
    using lt calculation by (subst unat_add_lem [symmetric]) (simp add: MAZE_WIDTH_MAX_def MAZE_HEIGHT_MAX_def)
  ultimately show i: "unat (x + y * maze_width s) = unat x + unat y * unat (maze_width s)" by simp
  show "unat (x + y * maze_width s) < length (maze s)" unfolding i using lt assms(1) by (simp add: maze_ok_def)
qed

text \<open>In such a maze every access returns, an error exactly for a cell outside; a cell holds what was set
  last and other cells stay.\<close>

lemma maze_get_cases:
  assumes "maze_ok s"
  shows "\<exists>r s'. maze_get stop start x y s = Some (r, s') \<and> maze s' = maze s \<and> maze_ok s' \<and>
    (r < 0 \<longleftrightarrow> maze_width s \<le> x \<or> maze_height s \<le> y)"
  using assms cell_index [OF assms, of x y]
  by (auto simp: maze_get_def Let_def maze_ok_def fail_with_def not_le)

lemma maze_set_get:
  assumes "maze_ok s" and "x < maze_width s" and "y < maze_height s"
  shows "\<exists>s'. maze_set stop start x y v s = Some (0, s') \<and> maze_ok s' \<and>
    (\<exists>t. maze_get stop start x y s' = Some (uint v, t)) \<and>
    (\<forall>x' y'. x' < maze_width s \<longrightarrow> y' < maze_height s \<longrightarrow> (x', y') \<noteq> (x, y) \<longrightarrow>
      map_option fst (maze_get stop start x' y' s') = map_option fst (maze_get stop start x' y' s))"
proof -
  note i = cell_index [OF assms]
  define s' where "s' = s\<lparr>mclk := start (stop (mclk s)), maze := (maze s)[unat (x + y * maze_width s) := v]\<rparr>"
  have set: "maze_set stop start x y v s = Some (0, s')" using assms i by (simp add: maze_set_def Let_def s'_def not_le [symmetric])
  have ok: "maze_ok s'" using assms(1) by (simp add: maze_ok_def s'_def)
  have "\<exists>t. maze_get stop start x y s' = Some (uint v, t)"
    using assms i by (simp add: maze_get_def Let_def s'_def not_le [symmetric])
  moreover have "map_option fst (maze_get stop start x' y' s') = map_option fst (maze_get stop start x' y' s)"
    if c: "x' < maze_width s" "y' < maze_height s" "(x', y') \<noteq> (x, y)" for x' y'
  proof -
    note i' = cell_index [OF assms(1) c(1,2)]
    have "unat (x' + y' * maze_width s) \<noteq> unat (x + y * maze_width s)"
    proof
      assume e: "unat (x' + y' * maze_width s) = unat (x + y * maze_width s)"
      have lt: "unat x < unat (maze_width s)" "unat x' < unat (maze_width s)"
        using assms(2) c(1) by (simp_all add: word_less_nat_alt)
      from arg_cong [OF e, of "\<lambda>n. n mod unat (maze_width s)"] arg_cong [OF e, of "\<lambda>n. n div unat (maze_width s)"]
      have "unat x' = unat x" "unat y' = unat y" using lt by (simp_all add: i i')
      then show False using c(3) by (auto dest: word_unat_eq_iff [THEN iffD2])
    qed
    then show ?thesis using c i' by (simp add: maze_get_def Let_def s'_def not_le [symmetric])
  qed
  ultimately show ?thesis using set ok by blast
qed

text \<open>All cells at once: what was set is what is got.\<close>

lemma maze_setall_getall:
  assumes "maze_ok s" and "length buffer = unat (maze_width s) * unat (maze_height s)"
  shows "\<exists>s'. maze_setall stop start buffer (maze_width s * maze_height s) s = Some (0, s') \<and> maze_ok s' \<and>
    (\<exists>t. maze_getall stop start (maze_width s * maze_height s) s' = Some (0, buffer, t))"
  using assms by (simp add: maze_setall_def maze_getall_def Let_def maze_area) (simp add: maze_ok_def)

lemma maze_init_ok:
  assumes "length (maze s) = MAZE_WIDTH_MAX * MAZE_HEIGHT_MAX" and "unat w \<le> MAZE_WIDTH_MAX" and "unat h \<le> MAZE_HEIGHT_MAX"
  shows "\<exists>s'. maze_init stop start w h s = Some (0, s') \<and> maze_ok s'"
proof -
  have le: "unat w * unat h \<le> MAZE_WIDTH_MAX * MAZE_HEIGHT_MAX" using assms(2,3) by (rule mult_le_mono)
  then have "unat (w * h) = unat w * unat h"
    by (subst unat_mult_nat) (simp_all add: MAZE_WIDTH_MAX_def MAZE_HEIGHT_MAX_def)
  then show ?thesis using assms(1) le by (simp add: maze_init_def Let_def maze_ok_def)
qed

subsection \<open>The picture\<close>

text \<open>A line for every two rows of the maze, as wide as the maze.\<close>

lemma maze_rows_length: "length (maze_rows w h cells y) = (w + 1) * ((h + 1 - y) div 2)"
proof (induction w h cells y rule: maze_rows.induct)
  case (1 w h cells y)
  show ?case
  proof (cases "y < h")
    case True
    then have "(h + 1 - y) div 2 = Suc ((h + 1 - (y + 2)) div 2)" by (cases "y + 1 < h") auto
    then show ?thesis using 1 True by (subst maze_rows.simps) (simp add: maze_row_def)
  next
    case False
    then show ?thesis by (subst maze_rows.simps) simp
  qed
qed

end
