(* ===== verification/TlsBox.thy ===== *)
theory TlsBox
  imports BoxLifecycle
begin

text \<open>
  The box that keeps RSA keys for the other boxes (examples/armv7m-mpu-rsa/tlsbox/main.c). Its state
  is the four key contexts, the random generator, the buffers it has allocated and not freed, and the
  big numbers it has initialised and not freed. mbedtls is a submodule: its functions are the fields
  of \<open>mbedtls\<close>, on a key context \<open>'r\<close>, a generator \<open>'g\<close> and a big number \<open>'m\<close>. A text is the
  bytes in front of its NUL, and the progress messages are left out.
\<close>

record ('r, 'g, 'm) mbedtls =
  key_check_failed :: int
  rsa_zero :: 'r
  rsa_init :: 'r
  rsa_check_pubkey :: "'r \<Rightarrow> int"
  rsa_gen_key :: "u32 \<Rightarrow> int \<Rightarrow> 'g \<Rightarrow> 'r \<Rightarrow> int \<times> 'r \<times> 'g"
  rsa_free :: "'r \<Rightarrow> 'r"
  rsa_export_pub :: "'r \<Rightarrow> int \<times> 'm list"
  rsa_export_priv :: "'r \<Rightarrow> int \<times> 'm list"
  rsa_import_pub :: "'m list \<Rightarrow> 'r \<Rightarrow> int \<times> 'r"
  rsa_import_priv :: "'m list \<Rightarrow> 'r \<Rightarrow> int \<times> 'r"
  rsa_complete :: "'r \<Rightarrow> int \<times> 'r"
  rsa_pkcs1_encrypt :: "u8 list \<Rightarrow> 'g \<Rightarrow> 'r \<Rightarrow> int \<times> u8 list \<times> 'g \<times> 'r"
  rsa_pkcs1_decrypt :: "u8 list \<Rightarrow> u32 \<Rightarrow> 'g \<Rightarrow> 'r \<Rightarrow> int \<times> u8 list \<times> 'g \<times> 'r"
  mpi_read_string :: "u8 list \<Rightarrow> int \<times> 'm"
  mpi_write_string :: "'m \<Rightarrow> nat \<Rightarrow> int \<times> u8 list"
  drbg_init :: 'g
  ctr_drbg_seed :: "(nat \<Rightarrow> int \<times> u8 list \<times> nat) \<Rightarrow> 'g \<Rightarrow> int \<times> 'g"
  may_alloc :: "nat list \<Rightarrow> nat \<Rightarrow> bool"

record ('r, 'g, 'm) tls_box =
  rsa_contexts :: "'r list"
  tlsbox_drbg_initialized :: bool
  tlsbox_drbg :: 'g
  temps :: "nat list"
  mpis :: "'m list"

definition TLSBOX_KEY_COUNT :: nat where "TLSBOX_KEY_COUNT = 4"

text \<open>The box as its init leaves it.\<close>

definition tls_fresh :: "('r, 'g, 'm) mbedtls \<Rightarrow> ('r, 'g, 'm) tls_box" where
  "tls_fresh M =
     \<lparr>rsa_contexts = replicate TLSBOX_KEY_COUNT (rsa_zero M), tlsbox_drbg_initialized = False,
      tlsbox_drbg = drbg_init M, temps = [], mpis = []\<rparr>"

subsection \<open>Random numbers\<close>

text \<open>A source of entropy gives a result and bytes; the callback passes on the bytes and how many
  there are.\<close>

definition tlsbox_entropy_poll :: "(nat \<Rightarrow> int \<times> u8 list) \<Rightarrow> nat \<Rightarrow> int \<times> u8 list \<times> nat" where
  "tlsbox_entropy_poll sys_poll len =
     (case sys_poll len of (res, bs) \<Rightarrow> if res < 0 then (res, bs, 0) else (0, bs, nat res))"

definition tlsbox_drbg_seed ::
  "('r, 'g, 'm) mbedtls \<Rightarrow> (nat \<Rightarrow> int \<times> u8 list) \<Rightarrow> ('r, 'g, 'm) tls_box \<Rightarrow> int \<times> ('r, 'g, 'm) tls_box"
where
  "tlsbox_drbg_seed M sys_poll t =
     (let t = t\<lparr>tlsbox_drbg_initialized := False\<rparr>;
          (err, g) = ctr_drbg_seed M (tlsbox_entropy_poll sys_poll) (drbg_init M);
          t = t\<lparr>tlsbox_drbg := g\<rparr>
      in if err \<noteq> 0 then (err, t) else (0, t\<lparr>tlsbox_drbg_initialized := True\<rparr>))"

subsection \<open>The slots\<close>

fun find_key :: "('r, 'g, 'm) mbedtls \<Rightarrow> 'r list \<Rightarrow> nat \<Rightarrow> int" where
  "find_key M [] i = fail_with ENOMEM"
| "find_key M (r # rs) i =
     (let res = rsa_check_pubkey M r in
      if res < 0 \<and> res \<noteq> key_check_failed M then res
      else if res = key_check_failed M then int i + 1
      else find_key M rs (i + 1))"

definition tlsbox_rsa_findnextkey :: "('r, 'g, 'm) mbedtls \<Rightarrow> ('r, 'g, 'm) tls_box \<Rightarrow> int" where
  "tlsbox_rsa_findnextkey M t = find_key M (rsa_contexts t) 0"

text \<open>The context of a key, as its index.\<close>

definition tlsbox_rsa_fromkey :: "('r, 'g, 'm) mbedtls \<Rightarrow> int \<Rightarrow> ('r, 'g, 'm) tls_box \<Rightarrow> int + nat" where
  "tlsbox_rsa_fromkey M key t =
     (let k = key - 1 in
      if \<not> (k \<ge> 0 \<and> k < int TLSBOX_KEY_COUNT) then Inl (fail_with EINVAL)
      else
        let res = rsa_check_pubkey M (rsa_contexts t ! nat k) in
        if res \<noteq> 0 then Inl res else Inr (nat k))"

abbreviation put_context :: "nat \<Rightarrow> 'r \<Rightarrow> ('r, 'g, 'm) tls_box \<Rightarrow> ('r, 'g, 'm) tls_box" where
  "put_context i r t \<equiv> t\<lparr>rsa_contexts := (rsa_contexts t)[i := r]\<rparr>"

definition tlsbox_rsa_genkey ::
  "('r, 'g, 'm) mbedtls \<Rightarrow> u32 \<Rightarrow> int \<Rightarrow> ('r, 'g, 'm) tls_box \<Rightarrow> int \<times> ('r, 'g, 'm) tls_box"
where
  "tlsbox_rsa_genkey M key_size ex t =
     (if \<not> tlsbox_drbg_initialized t then (fail_with EINVAL, t)
      else
        let key = tlsbox_rsa_findnextkey M t in
        if key < 0 then (key, t)
        else
          let (err, r, g) = rsa_gen_key M key_size ex (tlsbox_drbg t) (rsa_init M);
              t = (put_context (nat (key - 1)) r t)\<lparr>tlsbox_drbg := g\<rparr>
          in if err \<noteq> 0 then (err, t) else (key, t))"

definition tlsbox_rsa_freekey ::
  "('r, 'g, 'm) mbedtls \<Rightarrow> int \<Rightarrow> ('r, 'g, 'm) tls_box \<Rightarrow> int \<times> ('r, 'g, 'm) tls_box"
where
  "tlsbox_rsa_freekey M key t =
     (case tlsbox_rsa_fromkey M key t of
        Inl err \<Rightarrow> (err, t)
      | Inr i \<Rightarrow> (0, put_context i (rsa_free M (rsa_contexts t ! i)) t))"

subsection \<open>Keys as text\<close>

text \<open>The loop of the two functions that write a key: big numbers in hexadecimal, one to a line.
  \<open>mpi_write_string m n\<close> is what it stores in a buffer of \<open>n\<close> bytes, the NUL included; the NUL of
  all but the last becomes a newline. The result has the bytes stored.\<close>

fun write_mpis :: "('r, 'g, 'm) mbedtls \<Rightarrow> 'm list \<Rightarrow> nat \<Rightarrow> int \<times> u8 list" where
  "write_mpis M [] sz = (0, [])"
| "write_mpis M (m # ms) sz =
     (case mpi_write_string M m sz of (err, bs) \<Rightarrow>
        if err \<noteq> 0 then (err, bs)
        else
          let bs = (if ms \<noteq> [] then bs[length bs - 1 := 10] else bs);
              (err, rest) = write_mpis M ms (sz - length bs)
          in (err, bs @ rest))"

definition write_key ::
  "('r, 'g, 'm) mbedtls \<Rightarrow> ('r \<Rightarrow> int \<times> 'm list) \<Rightarrow> int \<Rightarrow> u32 \<Rightarrow> ('r, 'g, 'm) tls_box \<Rightarrow>
    (int \<times> u8 list) \<times> ('r, 'g, 'm) tls_box"
where
  "write_key M export key sz t =
     (case tlsbox_rsa_fromkey M key t of
        Inl err \<Rightarrow> ((err, []), t)
      | Inr i \<Rightarrow>
          (case export (rsa_contexts t ! i) of (err, ms) \<Rightarrow>
            let t' = t\<lparr>mpis := ms @ mpis t\<rparr> in
            if err \<noteq> 0 then ((err, []), t')
            else
              let (err, bs) = write_mpis M ms (unat sz) in
              if err \<noteq> 0 then ((err, bs), t') else ((0, bs), t)))"

definition tlsbox_rsa_getprivkey where
  "tlsbox_rsa_getprivkey M key sz t = write_key M (rsa_export_priv M) key sz t"

definition tlsbox_rsa_getpubkey where
  "tlsbox_rsa_getpubkey M key sz t = write_key M (rsa_export_pub M) key sz t"

text \<open>The loop of the two functions that read a key: \<open>n\<close> big numbers, of which all but the last
  must end in a newline. \<open>room\<close> is the size of the temporary buffer that each is copied to; the
  result is \<open>None\<close> if a line and its NUL do not fit in it. A number is initialised before the loop, so
  what has been read is kept in every case.\<close>

fun read_mpis :: "('r, 'g, 'm) mbedtls \<Rightarrow> nat \<Rightarrow> nat \<Rightarrow> u8 list \<Rightarrow> (int \<times> 'm list) option" where
  "read_mpis M room 0 key = Some (0, [])"
| "read_mpis M room (Suc n) key =
     (let diff = length (takeWhile (\<lambda>c. c \<noteq> 10) key) in
      if diff = 0 \<or> (diff = length key \<and> n \<noteq> 0) then Some (fail_with EINVAL, [])
      else if room \<le> diff then None
      else case mpi_read_string M (take diff key) of (err, m) \<Rightarrow>
        if err \<noteq> 0 then Some (err, [m])
        else case read_mpis M room n (drop (diff + 1) key) of
            None \<Rightarrow> None
          | Some (err, ms) \<Rightarrow> Some (err, m # ms))"

definition read_key ::
  "('r, 'g, 'm) mbedtls \<Rightarrow> nat \<Rightarrow> ('m list \<Rightarrow> 'r \<Rightarrow> int \<times> 'r) \<Rightarrow> u8 list \<Rightarrow> ('r, 'g, 'm) tls_box \<Rightarrow>
    (int \<times> ('r, 'g, 'm) tls_box) option"
where
  "read_key M n import_mpis text t =
     (let key = tlsbox_rsa_findnextkey M t in
      if key < 0 then Some (key, t)
      else if \<not> may_alloc M (temps t) (length text) then Some (fail_with ENOMEM, t)
      else case read_mpis M (length text) n text of
          None \<Rightarrow> None
        | Some (err, ms) \<Rightarrow>
            let t' = t\<lparr>mpis := ms @ mpis t\<rparr> in
            if err \<noteq> 0 then Some (err, t'\<lparr>temps := length text # temps t\<rparr>)
            else case import_mpis ms (rsa_contexts t ! nat (key - 1)) of (err, r) \<Rightarrow>
              if err \<noteq> 0 then Some (err, put_context (nat (key - 1)) r t')
              else case rsa_complete M r of (err, r) \<Rightarrow>
                if err \<noteq> 0 then Some (err, put_context (nat (key - 1)) r t')
                else Some (key, put_context (nat (key - 1)) r t))"

definition tlsbox_rsa_fromprivkey where
  "tlsbox_rsa_fromprivkey M text t = read_key M 5 (rsa_import_priv M) text t"

definition tlsbox_rsa_frompubkey where
  "tlsbox_rsa_frompubkey M text t = read_key M 2 (rsa_import_pub M) text t"

subsection \<open>Encryption\<close>

definition tlsbox_rsa_pkcs1_encrypt ::
  "('r, 'g, 'm) mbedtls \<Rightarrow> int \<Rightarrow> u8 list \<Rightarrow> ('r, 'g, 'm) tls_box \<Rightarrow> (int \<times> u8 list) \<times> ('r, 'g, 'm) tls_box"
where
  "tlsbox_rsa_pkcs1_encrypt M key input t =
     (if \<not> tlsbox_drbg_initialized t then ((fail_with EINVAL, []), t)
      else case tlsbox_rsa_fromkey M key t of
        Inl err \<Rightarrow> ((err, []), t)
      | Inr i \<Rightarrow>
          (case rsa_pkcs1_encrypt M input (tlsbox_drbg t) (rsa_contexts t ! i) of (err, out, g, r) \<Rightarrow>
            let t = (put_context i r t)\<lparr>tlsbox_drbg := g\<rparr>
            in if err \<noteq> 0 then ((err, out), t) else ((0, out), t)))"

text \<open>The result of a decryption is the number of bytes, so the bytes that it stores come with it.\<close>

definition tlsbox_rsa_pkcs1_decrypt ::
  "('r, 'g, 'm) mbedtls \<Rightarrow> int \<Rightarrow> u8 list \<Rightarrow> u32 \<Rightarrow> ('r, 'g, 'm) tls_box \<Rightarrow>
    (int \<times> u8 list) \<times> ('r, 'g, 'm) tls_box"
where
  "tlsbox_rsa_pkcs1_decrypt M key input output_size t =
     (if \<not> tlsbox_drbg_initialized t then ((fail_with EINVAL, []), t)
      else case tlsbox_rsa_fromkey M key t of
        Inl err \<Rightarrow> ((err, []), t)
      | Inr i \<Rightarrow>
          (case rsa_pkcs1_decrypt M input output_size (tlsbox_drbg t) (rsa_contexts t ! i) of (err, out, g, r) \<Rightarrow>
            let t = (put_context i r t)\<lparr>tlsbox_drbg := g\<rparr>
            in if err \<noteq> 0 then ((err, out), t) else ((int (length out), out), t)))"

end
