(* ===== verification/RsaHost.thy ===== *)
theory RsaHost
  imports TlsBox
begin

text \<open>
  The system side of the RSA example (examples/armv7m-mpu-rsa/main.c): the boxes of Alice and Bob hold
  small numbers, and the system translates them, per box, to the keys of the TLS box. The calls of
  the TLS box initialise it when it is down, and its data stack carries the buffers. The state has
  the table of keys, the TLS box, and how the coming calls of the TLS box end (\<open>fates\<close>; they return
  when the list is used up). The numbers of the boxes are bound by the generated exports: 0 is Bob, 1
  is Alice.
\<close>

definition SYS_KEY_COUNT :: nat where "SYS_KEY_COUNT = 4"
definition SYS_KEY_SIZE :: u32 where "SYS_KEY_SIZE = 512"

abbreviation key_bytes :: nat where "key_bytes \<equiv> unat (SYS_KEY_SIZE div 8)"

text \<open>How a call ends: it returns, the postinit of a box that is down fails, or the box stops. (The
  init of the MPU succeeds; \<open>box1_init\<close> has that branch.)\<close>

datatype fate = Returns | Init_fails int | Stops int

text \<open>The memory of a box, and what is left of a pushed buffer and of unused stack: parameters.\<close>

record ram_layout =
  ram_start :: u32
  ram_end :: u32
  stack_end :: u32
  after_restart :: "u8 list \<Rightarrow> u8 list"
  stack_bytes :: "nat \<Rightarrow> u8 list"

record ('r, 'g, 'm) rsa_sys =
  keys :: "int list list"
  tls :: "('r, 'g, 'm) tls_box"
  tls_state :: box_state
  fates :: "fate list"

definition sys_entropy_poll :: "nat \<Rightarrow> int \<times> u8 list" where
  "sys_entropy_poll sz = (int sz, map word_of_nat [0..<sz])"

subsection \<open>The table of keys\<close>

fun free_slot :: "int list \<Rightarrow> nat \<Rightarrow> nat option" where
  "free_slot [] i = None"
| "free_slot (k # ks) i = (if k = 0 then Some i else free_slot ks (i + 1))"

definition sys_setkey :: "nat \<Rightarrow> int \<Rightarrow> int list list \<Rightarrow> int \<times> int list list" where
  "sys_setkey box key ks =
     (if key < 0 then (key, ks)
      else case free_slot (ks ! box) 0 of
          Some i \<Rightarrow> (int i + 1, ks[box := (ks ! box)[i := key]])
        | None \<Rightarrow> (fail_with ENOMEM, ks))"

definition sys_getkey :: "nat \<Rightarrow> int \<Rightarrow> int list list \<Rightarrow> int" where
  "sys_getkey box key ks =
     (if key - 1 \<ge> 0 \<and> key - 1 < int SYS_KEY_COUNT then ks ! box ! nat (key - 1)
      else fail_with EINVAL)"

definition sys_delkey :: "nat \<Rightarrow> int \<Rightarrow> int list list \<Rightarrow> int \<times> int list list" where
  "sys_delkey box key ks =
     (if key - 1 \<ge> 0 \<and> key - 1 < int SYS_KEY_COUNT
      then (ks ! box ! nat (key - 1), ks[box := (ks ! box)[nat (key - 1) := 0]])
      else (fail_with EINVAL, ks))"

subsection \<open>Calls of the TLS box\<close>

definition tls_start ::
  "('r, 'g, 'm) mbedtls \<Rightarrow> ram_layout \<Rightarrow> ('r, 'g, 'm) rsa_sys \<Rightarrow> ('r, 'g, 'm) rsa_sys" where
  "tls_start M P s =
     s\<lparr>tls := tls_fresh M,
       tls_state := (tls_state s)\<lparr>bs_initialized := True, bs_lr := 0xfffffffd, bs_sp := stack_end P\<rparr>\<rparr>"

text \<open>An export of the TLS box. \<open>f\<close> is the call; it is told whether the box has just restarted,
  because then the buffers pushed before are no longer what they were. The result has the bytes that
  the call stores in its buffer.\<close>

definition tls_call ::
  "('r, 'g, 'm) mbedtls \<Rightarrow> ram_layout \<Rightarrow>
    (bool \<Rightarrow> ('r, 'g, 'm) tls_box \<Rightarrow> (int \<times> u8 list) \<times> ('r, 'g, 'm) tls_box) \<Rightarrow>
    ('r, 'g, 'm) rsa_sys \<Rightarrow> (int \<times> u8 list) \<times> ('r, 'g, 'm) rsa_sys"
where
  "tls_call M P f s =
     (let fate = (case fates s of [] \<Rightarrow> Returns | d # ds \<Rightarrow> d);
          s = s\<lparr>fates := tl (fates s)\<rparr>;
          up = bs_initialized (tls_state s);
          s1 = (if up then s else tls_start M P s)
      in case (up, fate) of
           (False, Init_fails e) \<Rightarrow>
             ((e, []), s1\<lparr>tls_state := (tls_state s1)\<lparr>bs_initialized := False\<rparr>\<rparr>)
         | (_, Stops e) \<Rightarrow>
             ((e, []), s1\<lparr>tls_state := (tls_state s1)\<lparr>bs_initialized := False\<rparr>\<rparr>)
         | _ \<Rightarrow> (case f (\<not> up) (tls s1) of (r, t) \<Rightarrow> (r, s1\<lparr>tls := t\<rparr>)))"

definition tlsbox_clobber :: "('r, 'g, 'm) rsa_sys \<Rightarrow> int \<times> ('r, 'g, 'm) rsa_sys" where
  "tlsbox_clobber s = (0, s\<lparr>tls_state := (tls_state s)\<lparr>bs_initialized := False\<rparr>\<rparr>)"

text \<open>A call without buffers, and one that reads a text from the buffer. The text ends in front of
  the first NUL. A write past the temporary buffer, \<open>None\<close>, would be a fault; there is none, by
  \<open>read_key_total\<close>.\<close>

definition plain :: "('t \<Rightarrow> int \<times> 't) \<Rightarrow> bool \<Rightarrow> 't \<Rightarrow> (int \<times> u8 list) \<times> 't" where
  "plain f restarted t = (case f t of (r, t) \<Rightarrow> ((r, []), t))"

definition c_text :: "u8 list \<Rightarrow> u8 list" where
  "c_text bs = takeWhile (\<lambda>c. c \<noteq> 0) bs"

definition overlay :: "u8 list \<Rightarrow> u8 list \<Rightarrow> u8 list" where
  "overlay bs mem = bs @ drop (length bs) mem"

definition tls_import ::
  "ram_layout \<Rightarrow> (u8 list \<Rightarrow> 't \<Rightarrow> (int \<times> 't) option) \<Rightarrow> u8 list \<Rightarrow> bool \<Rightarrow> 't \<Rightarrow> (int \<times> u8 list) \<times> 't" where
  "tls_import P f buffer restarted t =
     (case f (c_text (if restarted then after_restart P buffer else buffer)) t of
        Some (r, t') \<Rightarrow> ((r, []), t')
      | None \<Rightarrow> ((fail_with EFAULT, []), t))"

definition tls_drbg_seed ::
  "('r, 'g, 'm) mbedtls \<Rightarrow> ram_layout \<Rightarrow> ('r, 'g, 'm) rsa_sys \<Rightarrow> (int \<times> u8 list) \<times> ('r, 'g, 'm) rsa_sys" where
  "tls_drbg_seed M P = tls_call M P (plain (tlsbox_drbg_seed M sys_entropy_poll))"

subsection \<open>The exports of the system\<close>

text \<open>Every export with a buffer pushes it on the data stack of the TLS box, works, and pops it on
  all paths; the assertion in the pop can halt the system.\<close>

definition tlsbox_push :: "ram_layout \<Rightarrow> u32 \<Rightarrow> box_state \<Rightarrow> u32 \<times> box_state" where
  "tlsbox_push P sz st = box1_push (ram_start P) sz st"

definition tlsbox_pop :: "ram_layout \<Rightarrow> u32 \<Rightarrow> box_state \<Rightarrow> box_stop + box_state" where
  "tlsbox_pop P sz st = box1_pop (ram_end P) sz st"

definition with_tlsbuffer ::
  "ram_layout \<Rightarrow> u32 \<Rightarrow> (('r, 'g, 'm) rsa_sys \<Rightarrow> (int \<times> u8 list) \<times> ('r, 'g, 'm) rsa_sys) \<Rightarrow>
    ('r, 'g, 'm) rsa_sys \<Rightarrow> (box_stop + int \<times> u8 list) \<times> ('r, 'g, 'm) rsa_sys"
where
  "with_tlsbuffer P sz body s =
     (case tlsbox_push P sz (tls_state s) of (p, st) \<Rightarrow>
        if p = 0 then (Inr (fail_with ENOMEM, []), s)
        else case body (s\<lparr>tls_state := st\<rparr>) of (r, s) \<Rightarrow>
          case tlsbox_pop P sz (tls_state s) of
            Inl e \<Rightarrow> (Inl e, s)
          | Inr st \<Rightarrow> (Inr r, s\<lparr>tls_state := st\<rparr>))"

definition set_new_key :: "nat \<Rightarrow> (int \<times> u8 list) \<times> ('r, 'g, 'm) rsa_sys \<Rightarrow> (int \<times> u8 list) \<times> ('r, 'g, 'm) rsa_sys" where
  "set_new_key box rs =
     (case rs of ((r, bs), s) \<Rightarrow>
        (case sys_setkey box r (keys s) of (k, ks) \<Rightarrow> ((k, []), s\<lparr>keys := ks\<rparr>)))"

definition sys_rsa_genkey where
  "sys_rsa_genkey M P box key_size ex s =
     (case set_new_key box (tls_call M P (plain (tlsbox_rsa_genkey M key_size ex)) s) of
        (r, s) \<Rightarrow> (Inr r :: box_stop + int \<times> u8 list, s))"

definition sys_rsa_freekey where
  "sys_rsa_freekey M P box key s =
     (case sys_delkey box key (keys s) of (nkey, ks) \<Rightarrow>
        (case tls_call M P (plain (tlsbox_rsa_freekey M nkey)) (s\<lparr>keys := ks\<rparr>) of
           (r, s) \<Rightarrow> (Inr r :: box_stop + int \<times> u8 list, s)))"

text \<open>The two functions that fetch a key as text copy the string, with its NUL, to the caller; the
  result is what is stored in the buffer of the caller.\<close>

definition fetch_text ::
  "('r, 'g, 'm) mbedtls \<Rightarrow> ram_layout \<Rightarrow>
    (int \<Rightarrow> u32 \<Rightarrow> ('r, 'g, 'm) tls_box \<Rightarrow> (int \<times> u8 list) \<times> ('r, 'g, 'm) tls_box) \<Rightarrow>
    nat \<Rightarrow> int \<Rightarrow> u32 \<Rightarrow> ('r, 'g, 'm) rsa_sys \<Rightarrow> (box_stop + int \<times> u8 list) \<times> ('r, 'g, 'm) rsa_sys"
where
  "fetch_text M P get box key sz =
     with_tlsbuffer P sz (\<lambda>s.
       case tls_call M P (\<lambda>_. get (sys_getkey box key (keys s)) sz) s of ((err, bs), s) \<Rightarrow>
         if err \<noteq> 0 then ((err, []), s)
         else ((0, c_text (overlay bs (stack_bytes P (unat sz))) @ [0]), s))"

definition sys_rsa_getpubkey where
  "sys_rsa_getpubkey M P box key sz s = fetch_text M P (tlsbox_rsa_getpubkey M) box key sz s"

definition sys_rsa_getprivkey where
  "sys_rsa_getprivkey M P box key sz s = fetch_text M P (tlsbox_rsa_getprivkey M) box key sz s"

text \<open>\<open>buffer\<close> has the bytes from the pointer of the caller on.\<close>

definition store_text where
  "store_text M P from box buffer sz =
     with_tlsbuffer P sz (\<lambda>s.
       set_new_key box
         (tls_call M P (tls_import P from (take (unat sz) buffer @ stack_bytes P (unat sz))) s))"

definition sys_rsa_frompubkey where
  "sys_rsa_frompubkey M P box buffer sz s = store_text M P (tlsbox_rsa_frompubkey M) box buffer sz s"

definition sys_rsa_fromprivkey where
  "sys_rsa_fromprivkey M P box buffer sz s = store_text M P (tlsbox_rsa_fromprivkey M) box buffer sz s"

definition sys_rsa_pkcs1_encrypt where
  "sys_rsa_pkcs1_encrypt M P box key input input_size s =
     with_tlsbuffer P (input_size + SYS_KEY_SIZE div 8) (\<lambda>s.
       case tls_call M P (\<lambda>restarted. tlsbox_rsa_pkcs1_encrypt M (sys_getkey box key (keys s))
           ((if restarted then after_restart P else id) (take (unat input_size) input))) s of
         ((err, out), s) \<Rightarrow>
           if err \<noteq> 0 then ((err, []), s)
           else ((0, take key_bytes (overlay out (stack_bytes P key_bytes))), s)) s"

definition sys_rsa_pkcs1_decrypt where
  "sys_rsa_pkcs1_decrypt M P box key input output_size s =
     with_tlsbuffer P (SYS_KEY_SIZE div 8 + output_size) (\<lambda>s.
       case tls_call M P (\<lambda>restarted. tlsbox_rsa_pkcs1_decrypt M (sys_getkey box key (keys s))
           ((if restarted then after_restart P else id) (take key_bytes input)) output_size) s of
         ((res, out), s) \<Rightarrow>
           if res < 0 then ((res, []), s)
           else ((res, take (nat res) (overlay out (stack_bytes P (unat output_size)))), s)) s"

end
