(* ===== verification/RsaKeys.thy ===== *)
theory RsaKeys
  imports RsaHost
begin

text \<open>
  Facts about the TLS box: the text of a key fits in its temporary buffer, the search for a slot gives
  the first context that fails the check, and what each call changes: one that makes a key changes
  contexts that fail the check only (\<open>makes_key\<close>), one that uses a key changes the context of that key
  (\<open>uses_key\<close>). \<open>mbed_ok\<close> is what mbedtls documents of its checks and error codes.
\<close>

subsection \<open>The text of a key fits in its temporary buffer\<close>

lemma read_mpis_total:
  "length key < room \<or> length key \<le> room \<and> 1 < n \<Longrightarrow> read_mpis M room n key \<noteq> None"
proof (induction n arbitrary: key)
  case 0
  then show ?case by simp
next
  case (Suc n)
  let ?diff = "length (takeWhile (\<lambda>c. c \<noteq> 10) key)"
  have le: "?diff \<le> length key" by (rule length_takeWhile_le)
  have "read_mpis M room n (drop (?diff + 1) key) \<noteq> None" if "n = 0 \<or> ?diff < length key"
  proof (cases "n = 0")
    case False
    then have "length (drop (?diff + 1) key) < room"
      using that Suc.prems by auto
    then show ?thesis by (intro Suc.IH) simp
  qed simp
  moreover have "?diff < room" if "n = 0 \<or> ?diff < length key"
    using that le Suc.prems by auto
  ultimately have step: "?diff < room \<and> read_mpis M room n (drop (?diff + 1) key) \<noteq> None"
    if "\<not> (?diff = length key \<and> n \<noteq> 0)"
    using that le by linarith
  show ?case
  proof (cases "?diff = 0 \<or> ?diff = length key \<and> n \<noteq> 0")
    case True
    then show ?thesis by (simp add: Let_def del: length_0_conv)
  next
    case False
    then obtain err ms where "read_mpis M room n (drop (?diff + 1) key) = Some (err, ms)"
      using step by fastforce
    then show ?thesis
      using False step by (simp add: Let_def del: length_0_conv split: prod.splits)
  qed
qed

lemma read_key_total: "1 < n \<Longrightarrow> read_key M n imp text t \<noteq> None"
  using read_mpis_total [of "text" "length text" n M]
  by (auto simp: read_key_def Let_def split: option.splits prod.splits)

subsection \<open>What mbedtls documents\<close>

text \<open>Zeroed and freed contexts fail the check, a generated key passes it, its use leaves it as it is,
  and error codes are negative.\<close>

definition mbed_ok :: "('r, 'g, 'm) mbedtls \<Rightarrow> bool" where
  "mbed_ok M \<longleftrightarrow> key_check_failed M < 0 \<and>
     rsa_check_pubkey M (rsa_zero M) = key_check_failed M \<and>
     (\<forall>r. rsa_check_pubkey M (rsa_free M r) = key_check_failed M) \<and>
     (\<forall>k e g r. case rsa_gen_key M k e g r of (err, r', g') \<Rightarrow>
        err \<le> 0 \<and> (err = 0 \<longrightarrow> rsa_check_pubkey M r' = 0)) \<and>
     (\<forall>bs g r. case rsa_pkcs1_encrypt M bs g r of (err, out, g', r') \<Rightarrow>
        rsa_check_pubkey M r' = rsa_check_pubkey M r) \<and>
     (\<forall>bs n g r. case rsa_pkcs1_decrypt M bs n g r of (err, out, g', r') \<Rightarrow>
        err \<le> 0 \<and> rsa_check_pubkey M r' = rsa_check_pubkey M r) \<and>
     (\<forall>bs. fst (mpi_read_string M bs) \<le> 0) \<and>
     (\<forall>ms r. fst (rsa_import_pub M ms r) \<le> 0 \<and> fst (rsa_import_priv M ms r) \<le> 0) \<and>
     (\<forall>r. fst (rsa_complete M r) \<le> 0)"

subsection \<open>Finding a slot\<close>

lemma find_key_cases:
  assumes "key_check_failed M < 0"
  shows "find_key M rs i < 0 \<or>
    (\<exists>j<length rs. find_key M rs i = int (i + j) + 1 \<and> rsa_check_pubkey M (rs ! j) = key_check_failed M \<and>
       (\<forall>l<j. rsa_check_pubkey M (rs ! l) \<noteq> key_check_failed M \<and> rsa_check_pubkey M (rs ! l) \<ge> 0))"
proof (induction rs arbitrary: i)
  case Nil
  then show ?case by (simp add: fail_with_def)
next
  case (Cons r rs)
  let ?res = "rsa_check_pubkey M r"
  consider "?res < 0 \<and> ?res \<noteq> key_check_failed M" | "?res = key_check_failed M"
    | "?res \<ge> 0" "?res \<noteq> key_check_failed M" by linarith
  then show ?case
  proof cases
    case 1
    then show ?thesis by simp
  next
    case 2
    then show ?thesis by (auto simp: Let_def intro!: exI [of _ 0])
  next
    case 3
    then have eq: "find_key M (r # rs) i = find_key M rs (i + 1)"
      by (simp add: Let_def)
    consider "find_key M rs (i + 1) < 0" | j where "j < length rs"
      "find_key M rs (i + 1) = int (i + 1 + j) + 1" "rsa_check_pubkey M (rs ! j) = key_check_failed M"
      "\<forall>l<j. rsa_check_pubkey M (rs ! l) \<noteq> key_check_failed M \<and> rsa_check_pubkey M (rs ! l) \<ge> 0"
      using Cons.IH [of "i + 1"] by blast
    then show ?thesis
    proof cases
      case 1
      then show ?thesis using eq by simp
    next
      case (2 j)
      then show ?thesis
        using 3 eq by (intro disjI2 exI [of _ "Suc j"]) (auto simp: less_Suc_eq_0_disj)
    qed
  qed
qed

lemma findnextkey_cases:
  assumes "key_check_failed M < 0"
  shows "tlsbox_rsa_findnextkey M t < 0 \<or>
    (\<exists>j<length (rsa_contexts t). tlsbox_rsa_findnextkey M t = int j + 1 \<and>
       rsa_check_pubkey M (rsa_contexts t ! j) = key_check_failed M)"
  using find_key_cases [OF assms, of "rsa_contexts t" 0] by (auto simp: tlsbox_rsa_findnextkey_def)

subsection \<open>What the calls of the TLS box change\<close>

lemma nth_update_less: "j < length xs \<Longrightarrow> xs[i := x] ! j = (if i = j then x else xs ! j)"
  by auto

text \<open>Contexts outside of \<open>A\<close> stay as they are.\<close>

definition changes_only :: "nat set \<Rightarrow> 'r list \<Rightarrow> 'r list \<Rightarrow> bool" where
  "changes_only A cs cs' \<longleftrightarrow> length cs' = length cs \<and> (\<forall>j<length cs. j \<notin> A \<longrightarrow> cs' ! j = cs ! j)"

lemma changes_only_refl [simp, intro]: "changes_only A cs cs"
  by (simp add: changes_only_def)

lemma changes_only_update [intro]: "i \<in> A \<Longrightarrow> changes_only A cs (cs[i := r])"
  by (auto simp: changes_only_def nth_update_less)

text \<open>A call that makes a key changes contexts that fail the check only, and gives the number of
  such a context or an error.\<close>

definition makes_key :: "('r, 'g, 'm) mbedtls \<Rightarrow> int \<Rightarrow> 'r list \<Rightarrow> 'r list \<Rightarrow> bool" where
  "makes_key M k cs cs' \<longleftrightarrow> changes_only {j. rsa_check_pubkey M (cs ! j) \<noteq> 0} cs cs' \<and>
     (k < 0 \<or> 0 < k \<and> k \<le> int (length cs) \<and> rsa_check_pubkey M (cs ! nat (k - 1)) \<noteq> 0)"

lemma genkey_makes:
  assumes ok: "mbed_ok M" and run: "tlsbox_rsa_genkey M n e t = (k, t')"
  shows "makes_key M k (rsa_contexts t) (rsa_contexts t') \<and>
    (0 < k \<longrightarrow> length (rsa_contexts t) = TLSBOX_KEY_COUNT \<longrightarrow>
      rsa_check_pubkey M (rsa_contexts t' ! nat (k - 1)) = 0)"
proof -
  have neg: "key_check_failed M < 0" using ok by (simp add: mbed_ok_def)
  obtain err r g where gen: "rsa_gen_key M n e (tlsbox_drbg t) (rsa_init M) = (err, r, g)"
    by (cases "rsa_gen_key M n e (tlsbox_drbg t) (rsa_init M)") auto
  have err: "err \<le> 0" "err = 0 \<Longrightarrow> rsa_check_pubkey M r = 0"
    using ok gen unfolding mbed_ok_def by (metis (mono_tags, lifting) case_prod_conv)+
  show ?thesis
  proof (cases "\<not> tlsbox_drbg_initialized t \<or> tlsbox_rsa_findnextkey M t < 0")
    case True
    then show ?thesis
      using run by (cases "tlsbox_drbg_initialized t")
        (auto simp: tlsbox_rsa_genkey_def makes_key_def Let_def fail_with_def)
  next
    case False
    then obtain j where j: "j < length (rsa_contexts t)" "tlsbox_rsa_findnextkey M t = int j + 1"
      "rsa_check_pubkey M (rsa_contexts t ! j) = key_check_failed M"
      using findnextkey_cases [OF neg, of t] by blast
    have t': "rsa_contexts t' = (rsa_contexts t)[j := r]" "k = (if err = 0 then int j + 1 else err)"
      using False run gen j(2) by (auto simp: tlsbox_rsa_genkey_def Let_def split: if_splits)
    show ?thesis
      using t' err j neg by (auto simp: makes_key_def)
  qed
qed

lemma read_mpis_err:
  assumes ok: "mbed_ok M"
  shows "read_mpis M room n key = Some (err, ms) \<Longrightarrow> err \<le> 0"
proof (induction n arbitrary: key err ms)
  case (Suc n)
  define d where "d = length (takeWhile (\<lambda>c. c \<noteq> 10) key)"
  obtain e m where m: "mpi_read_string M (take d key) = (e, m)" by fastforce
  then have e: "e \<le> 0" using ok unfolding mbed_ok_def by (metis fst_conv)
  have eq: "read_mpis M room (Suc n) key =
      (if d = 0 \<or> d = length key \<and> n \<noteq> 0 then Some (fail_with EINVAL, [])
       else if room \<le> d then None else if e \<noteq> 0 then Some (e, [m])
       else case read_mpis M room n (drop (d + 1) key) of
           None \<Rightarrow> None | Some (err, ms) \<Rightarrow> Some (err, m # ms))"
    unfolding read_mpis.simps Let_def d_def [symmetric] m by simp
  show ?case
    using Suc.prems Suc.IH [of "drop (d + 1) key"] e unfolding eq
    by (auto simp: fail_with_def split: if_splits option.splits)
qed simp

lemma read_key_makes:
  assumes ok: "mbed_ok M" and run: "read_key M n imp ms t = Some (k, t')"
    and imp: "\<And>ms r. fst (imp ms r) \<le> 0"
  shows "makes_key M k (rsa_contexts t) (rsa_contexts t')"
proof -
  have neg: "key_check_failed M < 0" using ok by (simp add: mbed_ok_def)
  have complete: "fst (rsa_complete M r) \<le> 0" for r using ok by (simp add: mbed_ok_def)
  show ?thesis
  proof (cases "tlsbox_rsa_findnextkey M t < 0")
    case True
    then show ?thesis using run by (auto simp: read_key_def makes_key_def)
  next
    case False
    then obtain j where j: "j < length (rsa_contexts t)" "tlsbox_rsa_findnextkey M t = int j + 1"
      "rsa_check_pubkey M (rsa_contexts t ! j) = key_check_failed M"
      using findnextkey_cases [OF neg, of t] by blast
    have err: "e < 0" if "imp xs r = (e, r')" "e \<noteq> 0" for xs r e r'
      using imp [of xs r] that by simp
    have err': "e < 0" if "rsa_complete M r = (e, r')" "e \<noteq> 0" for r e r'
      using complete [of r] that by simp
    have err'': "e < 0" if "read_mpis M room l key = Some (e, xs)" "e \<noteq> 0" for room l key e xs
      using read_mpis_err [OF ok that(1)] that(2) by simp
    have "(k < 0 \<or> k = int j + 1) \<and> (rsa_contexts t' = rsa_contexts t \<or>
        (\<exists>r. rsa_contexts t' = (rsa_contexts t)[j := r]))"
      using run j(2)
      by (auto simp: read_key_def Let_def fail_with_def dest: err err' err''
          split: if_splits prod.splits option.splits)
    then show ?thesis
      using j neg by (auto simp: makes_key_def intro!: changes_only_update)
  qed
qed

lemma fromkey_index: "tlsbox_rsa_fromkey M key t = Inr i \<Longrightarrow> 0 < key \<and> i = nat (key - 1)"
  by (auto simp: tlsbox_rsa_fromkey_def Let_def split: if_splits)

lemma freekey_changes:
  "tlsbox_rsa_freekey M key t = (r, t') \<Longrightarrow>
     changes_only (if 0 < key then {nat (key - 1)} else {}) (rsa_contexts t) (rsa_contexts t')"
  by (auto simp: tlsbox_rsa_freekey_def dest!: fromkey_index intro!: changes_only_update split: sum.splits)

lemma write_key_changes: "write_key M export key sz t = (r, t') \<Longrightarrow> rsa_contexts t' = rsa_contexts t"
  by (auto simp: write_key_def Let_def split: sum.splits prod.splits if_splits)

text \<open>Use of a key leaves the check of every context as it is.\<close>

definition uses_key :: "('r, 'g, 'm) mbedtls \<Rightarrow> int \<Rightarrow> 'r list \<Rightarrow> 'r list \<Rightarrow> bool" where
  "uses_key M key cs cs' \<longleftrightarrow> changes_only (if 0 < key then {nat (key - 1)} else {}) cs cs' \<and>
     (\<forall>j<length cs. rsa_check_pubkey M (cs' ! j) = rsa_check_pubkey M (cs ! j))"

lemma uses_key_refl [simp]: "uses_key M key cs cs"
  by (simp add: uses_key_def)

lemma uses_key_update:
  "0 < key \<Longrightarrow> rsa_check_pubkey M r = rsa_check_pubkey M (cs ! nat (key - 1)) \<Longrightarrow>
     uses_key M key cs (cs[nat (key - 1) := r])"
  by (auto simp: uses_key_def nth_update_less intro!: changes_only_update)

lemma encrypt_uses:
  assumes "mbed_ok M" and run: "tlsbox_rsa_pkcs1_encrypt M key input t = (r, t')"
  shows "uses_key M key (rsa_contexts t) (rsa_contexts t')"
proof -
  have "\<And>bs g r err out g' r'. rsa_pkcs1_encrypt M bs g r = (err, out, g', r') \<Longrightarrow>
      rsa_check_pubkey M r' = rsa_check_pubkey M r"
    using assms(1) unfolding mbed_ok_def by (metis (mono_tags, lifting) case_prod_conv)
  then show ?thesis
    using run by (auto simp: tlsbox_rsa_pkcs1_encrypt_def Let_def dest!: fromkey_index
        intro!: uses_key_update split: if_splits sum.splits prod.splits)
qed

lemma decrypt_uses:
  assumes "mbed_ok M" and run: "tlsbox_rsa_pkcs1_decrypt M key input n t = (r, t')"
  shows "uses_key M key (rsa_contexts t) (rsa_contexts t')"
proof -
  have "\<And>bs n g r err out g' r'. rsa_pkcs1_decrypt M bs n g r = (err, out, g', r') \<Longrightarrow>
      rsa_check_pubkey M r' = rsa_check_pubkey M r"
    using assms(1) unfolding mbed_ok_def by (metis (mono_tags, lifting) case_prod_conv)
  then show ?thesis
    using run by (auto simp: tlsbox_rsa_pkcs1_decrypt_def Let_def dest!: fromkey_index
        intro!: uses_key_update split: if_splits sum.splits prod.splits)
qed

subsection \<open>What goes wrong\<close>

text \<open>A text without a newline is refused, and its temporary buffer stays allocated. After a restart the
  generator has no seed, and no key can be made or used until the system seeds it again.\<close>

lemma malformed_text_leaks:
  assumes "0 < tlsbox_rsa_findnextkey M t" and "may_alloc M (temps t) (length text)" and "10 \<notin> set text"
  shows "tlsbox_rsa_frompubkey M text t = Some (fail_with EINVAL, t\<lparr>temps := length text # temps t\<rparr>)"
proof -
  have whole: "takeWhile (\<lambda>c. c \<noteq> 10) text = text" using assms(3) by auto
  have "read_mpis M room 2 text = Some (fail_with EINVAL, [])" for room
    unfolding numeral_2_eq_2 by (simp add: whole Let_def)
  then show ?thesis using assms(1,2) by (simp add: tlsbox_rsa_frompubkey_def read_key_def fail_with_def Let_def)
qed

lemma restart_unseeded:
  "tlsbox_rsa_genkey M n e (tls_fresh M) = (fail_with EINVAL, tls_fresh M)"
  "tlsbox_rsa_pkcs1_encrypt M key bs (tls_fresh M) = ((fail_with EINVAL, []), tls_fresh M)"
  "tlsbox_rsa_pkcs1_decrypt M key bs sz (tls_fresh M) = ((fail_with EINVAL, []), tls_fresh M)"
  by (simp_all add: tls_fresh_def tlsbox_rsa_genkey_def tlsbox_rsa_pkcs1_encrypt_def tlsbox_rsa_pkcs1_decrypt_def)

end
