(* ===== verification/RsaIsolation.thy ===== *)
theory RsaIsolation
  imports RsaKeys
begin

text \<open>
  The invariant of the table of keys (\<open>keys_sound\<close>): every number of a box stands for a key of the TLS
  box that passes the check, and no two numbers stand for the same key. It is kept by every export of
  the system as long as the TLS box is up and imported keys pass the check, and no call of one box
  changes what the other box has (\<open>key_view\<close>).
\<close>

subsection \<open>The table and the contexts\<close>

text \<open>Entry \<open>i\<close> of box \<open>b\<close> holds the key \<open>k\<close>.\<close>

definition holds :: "int list list \<Rightarrow> nat \<Rightarrow> nat \<Rightarrow> int \<Rightarrow> bool" where
  "holds ks b i k \<longleftrightarrow> b < length ks \<and> i < length (ks ! b) \<and> ks ! b ! i = k \<and> k \<noteq> 0"

definition keys_sound :: "('r, 'g, 'm) mbedtls \<Rightarrow> int list list \<Rightarrow> 'r list \<Rightarrow> bool" where
  "keys_sound M ks cs \<longleftrightarrow>
     length ks = 2 \<and> (\<forall>row\<in>set ks. length row = SYS_KEY_COUNT) \<and> length cs = TLSBOX_KEY_COUNT \<and>
     (\<forall>b i k. holds ks b i k \<longrightarrow> 0 < k \<and> k \<le> int TLSBOX_KEY_COUNT \<and>
        rsa_check_pubkey M (cs ! nat (k - 1)) = 0) \<and>
     (\<forall>b i c j k. holds ks b i k \<and> holds ks c j k \<longrightarrow> b = c \<and> i = j)"

text \<open>What a box has: for each of its numbers the context of the key.\<close>

definition key_view :: "int list list \<Rightarrow> 'r list \<Rightarrow> nat \<Rightarrow> 'r option list" where
  "key_view ks cs b = map (\<lambda>k. if k = 0 then None else Some (cs ! nat (k - 1))) (ks ! b)"

lemma key_view_cong:
  assumes "length (ks' ! b) = length (ks ! b)" and "b < length ks"
    and "\<And>i. i < length (ks ! b) \<Longrightarrow> ks' ! b ! i = ks ! b ! i"
    and "\<And>i k. holds ks b i k \<Longrightarrow> cs' ! nat (k - 1) = cs ! nat (k - 1)"
  shows "key_view ks' cs' b = key_view ks cs b"
proof (rule nth_equalityI)
  show "length (key_view ks' cs' b) = length (key_view ks cs b)"
    using assms(1) by (simp add: key_view_def)
next
  fix i assume "i < length (key_view ks' cs' b)"
  then have i: "i < length (ks ! b)" using assms(1) by (simp add: key_view_def)
  then show "key_view ks' cs' b ! i = key_view ks cs b ! i"
    using assms(1,2) assms(3) [OF i] assms(4) [of i "ks ! b ! i"]
    by (simp add: key_view_def holds_def)
qed

lemma soundD:
  assumes "keys_sound M ks cs"
  shows "length ks = 2" and "b < 2 \<Longrightarrow> length (ks ! b) = SYS_KEY_COUNT" and "length cs = TLSBOX_KEY_COUNT"
    and "holds ks b i k \<Longrightarrow> 0 < k" and "holds ks b i k \<Longrightarrow> k \<le> int TLSBOX_KEY_COUNT"
    and "holds ks b i k \<Longrightarrow> rsa_check_pubkey M (cs ! nat (k - 1)) = 0"
    and "holds ks b i k \<Longrightarrow> holds ks c j k \<Longrightarrow> b = c \<and> i = j"
  using assms unfolding keys_sound_def by (simp, simp, simp, blast, blast, blast, blast)

lemma sound_index: "keys_sound M ks cs \<Longrightarrow> holds ks b i k \<Longrightarrow> nat (k - 1) < length cs"
  using soundD(3) [of M ks cs] soundD(4,5) [of M ks cs b i k] by simp

lemma rows_update:
  assumes "\<forall>row\<in>set ks. length row = n" and "b < length ks"
  shows "\<forall>row\<in>set (ks[b := (ks ! b)[i := x]]). length row = n"
proof
  fix row assume "row \<in> set (ks[b := (ks ! b)[i := x]])"
  then have "row \<in> insert ((ks ! b)[i := x]) (set ks)"
    using set_update_subset_insert by fastforce
  then show "length row = n" using assms by auto
qed

text \<open>Contexts that fail the check are nobody's.\<close>

lemma sound_frame:
  assumes sound: "keys_sound M ks cs"
    and frame: "changes_only {j. rsa_check_pubkey M (cs ! j) \<noteq> 0} cs cs'"
  shows "keys_sound M ks cs' \<and> (\<forall>b<2. key_view ks cs' b = key_view ks cs b)"
proof -
  have same: "cs' ! nat (k - 1) = cs ! nat (k - 1)" if "holds ks b i k" for b i k
    using frame sound_index [OF sound that] soundD(6) [OF sound that]
    by (auto simp: changes_only_def)
  have "length cs' = length cs" using frame by (simp add: changes_only_def)
  then have "keys_sound M ks cs'"
    using sound same unfolding keys_sound_def by (metis (no_types, lifting))
  then show ?thesis
    using same soundD(1) [OF sound] by (auto intro!: key_view_cong)
qed

text \<open>A number that the box does not hold elsewhere is entered.\<close>

lemma free_slot_Some:
  "free_slot row i = Some l \<Longrightarrow> i \<le> l \<and> l - i < length row \<and> row ! (l - i) = 0"
proof (induction row arbitrary: i)
  case (Cons k row)
  then show ?case by (cases "k = 0") (fastforce simp: Suc_diff_le dest!: Cons.IH)+
qed simp

lemma holds_update:
  "holds (ks[b := (ks ! b)[i := x]]) c j k \<longleftrightarrow>
     (if c = b \<and> j = i then b < length ks \<and> i < length (ks ! b) \<and> k = x \<and> x \<noteq> 0
      else holds ks c j k)"
  by (cases "b < length ks") (auto simp: holds_def nth_list_update)

lemma setkey_sound:
  assumes sound: "keys_sound M ks cs" and box: "box < 2"
    and new: "0 < k" "k \<le> int (length cs)"
    and usable: "\<And>i. holds ks' box i k \<Longrightarrow> rsa_check_pubkey M (cs ! nat (k - 1)) = 0"
    and free: "\<And>b i. \<not> holds ks b i k"
    and set: "sys_setkey box k ks = (r, ks')"
  shows "keys_sound M ks' cs \<and> (\<forall>b<2. b \<noteq> box \<longrightarrow> key_view ks' cs b = key_view ks cs b)"
proof (cases "free_slot (ks ! box) 0")
  case None
  then show ?thesis using sound set new(1) by (simp add: sys_setkey_def)
next
  case (Some l)
  have ks': "ks' = ks[box := (ks ! box)[l := k]]"
    using set new(1) Some by (simp add: sys_setkey_def)
  have len: "length cs = TLSBOX_KEY_COUNT" and two: "length ks = 2" using soundD [OF sound] by auto
  have rows: "\<forall>row\<in>set ks'. length row = SYS_KEY_COUNT"
    using rows_update [of ks SYS_KEY_COUNT box] sound box unfolding ks' keys_sound_def by simp
  have "holds ks' box l k"
    using free_slot_Some [OF Some] new(1) box two by (auto simp: ks' holds_update)
  note check = usable [OF this]
  have "keys_sound M ks' cs"
    unfolding keys_sound_def
  proof (intro conjI allI impI)
    fix b i k' assume "holds ks' b i k'"
    then have "k' = k \<or> holds ks b i k'" by (auto simp: ks' holds_update split: if_splits)
    then show "0 < k'" "k' \<le> int TLSBOX_KEY_COUNT" "rsa_check_pubkey M (cs ! nat (k' - 1)) = 0"
      using new check len soundD(4-6) [OF sound, of b i k'] by auto
  next
    fix b i c j k' assume "holds ks' b i k' \<and> holds ks' c j k'"
    then show "b = c" "i = j"
      using free soundD(7) [OF sound] by (auto simp: ks' holds_update split: if_splits)
  qed (use rows two len ks' in auto)
  moreover have "key_view ks' cs b = key_view ks cs b" if "b \<noteq> box" for b
    using that by (simp add: key_view_def ks')
  ultimately show ?thesis by blast
qed

lemma delkey_sound:
  assumes sound: "keys_sound M ks cs" and box: "box < 2"
    and del: "sys_delkey box key ks = (k, ks')"
    and frame: "changes_only (if 0 < k then {nat (k - 1)} else {}) cs cs'"
  shows "keys_sound M ks' cs' \<and> (\<forall>b<2. b \<noteq> box \<longrightarrow> key_view ks' cs' b = key_view ks cs b)"
proof (cases "key - 1 \<ge> 0 \<and> key - 1 < int SYS_KEY_COUNT")
  case False
  then have "ks' = ks" "cs' = cs \<or> \<not> 0 < k"
    using del by (auto simp: sys_delkey_def fail_with_def)
  then show ?thesis
    using sound sound_frame [OF sound, of cs'] frame
    by (auto simp: changes_only_def)
next
  case True
  let ?i = "nat (key - 1)"
  have k: "k = ks ! box ! ?i" and ks': "ks' = ks[box := (ks ! box)[?i := 0]]"
    using del True by (auto simp: sys_delkey_def)
  have two: "length ks = 2" and row: "length (ks ! box) = SYS_KEY_COUNT"
    using soundD(1,2) [OF sound] box by auto
  have held: "holds ks b i k' \<and> \<not> (b = box \<and> i = ?i)" if "holds ks' b i k'" for b i k'
    using that by (auto simp: ks' holds_update split: if_splits)
  have own: "holds ks box ?i k" if "0 < k"
    using that k two row True box by (auto simp: holds_def)
  have same: "cs' ! nat (k' - 1) = cs ! nat (k' - 1)" if "holds ks b i k'" "\<not> (b = box \<and> i = ?i)" for b i k'
  proof -
    have "nat (k' - 1) \<notin> (if 0 < k then {nat (k - 1)} else {})"
    proof (cases "0 < k")
      case True
      then have "k' \<noteq> k" using soundD(7) [OF sound that(1), of box ?i] own that(2) by blast
      then show ?thesis using True soundD(4) [OF sound that(1)] by auto
    qed simp
    then show ?thesis using frame sound_index [OF sound that(1)] by (simp add: changes_only_def)
  qed
  have rows: "\<forall>row\<in>set ks'. length row = SYS_KEY_COUNT"
    using rows_update [of ks SYS_KEY_COUNT box] sound box unfolding ks' keys_sound_def by simp
  have len: "length cs' = TLSBOX_KEY_COUNT"
    using frame soundD(3) [OF sound] by (simp add: changes_only_def)
  have "keys_sound M ks' cs'"
    unfolding keys_sound_def
  proof (intro conjI allI impI)
    fix b i k' assume "holds ks' b i k'"
    note h = held [OF this]
    show "0 < k'" "k' \<le> int TLSBOX_KEY_COUNT" "rsa_check_pubkey M (cs' ! nat (k' - 1)) = 0"
      using h same [of b i k'] soundD(4-6) [OF sound, of b i k'] by auto
  next
    fix b i c j k' assume "holds ks' b i k' \<and> holds ks' c j k'"
    then show "b = c" "i = j"
      using held soundD(7) [OF sound] by blast+
  qed (use rows two len ks' in auto)
  moreover have "key_view ks' cs' b = key_view ks cs b" if "b \<noteq> box" "b < 2" for b
    by (rule key_view_cong) (use that same two in \<open>auto simp: ks'\<close>)
  ultimately show ?thesis by blast
qed

lemma getkey_sound:
  assumes sound: "keys_sound M ks cs" and box: "box < 2"
    and uses: "uses_key M (sys_getkey box key ks) cs cs'"
  shows "keys_sound M ks cs' \<and> (\<forall>b<2. b \<noteq> box \<longrightarrow> key_view ks cs' b = key_view ks cs b)"
proof -
  let ?k = "sys_getkey box key ks"
  have own: "\<exists>i. holds ks box i ?k" if "0 < ?k"
    using that box soundD(1,2) [OF sound]
    by (intro exI [of _ "nat (key - 1)"]) (auto simp: sys_getkey_def holds_def fail_with_def split: if_splits)
  have len: "length cs' = length cs" using uses by (simp add: uses_key_def changes_only_def)
  have check: "rsa_check_pubkey M (cs' ! nat (k - 1)) = 0" if "holds ks b i k" for b i k
    using uses sound_index [OF sound that] soundD(6) [OF sound that] by (simp add: uses_key_def)
  have sound': "keys_sound M ks cs'"
    using sound check len unfolding keys_sound_def by (metis (no_types, lifting))
  have "cs' ! nat (k - 1) = cs ! nat (k - 1)" if h: "holds ks b i k" and "b \<noteq> box" for b i k
  proof -
    have "?k \<noteq> k" if "0 < ?k"
      using own [OF that] soundD(7) [OF sound h] \<open>b \<noteq> box\<close> by metis
    then show ?thesis
      using uses sound_index [OF sound h] soundD(4) [OF sound h]
      by (auto simp: uses_key_def changes_only_def split: if_splits)
  qed
  then show ?thesis
    using sound' soundD(1) [OF sound] by (auto intro!: key_view_cong)
qed

text \<open>A key is made and entered. Entering fails only if the key is an error or the table of the box
  is full.\<close>

lemma make_sound:
  assumes sound: "keys_sound M ks cs" and box: "box < 2"
    and makes: "makes_key M key cs cs'" and set: "sys_setkey box key ks = (r, ks')"
    and usable: "\<And>i k. holds ks' box i k \<Longrightarrow> rsa_check_pubkey M (cs' ! nat (k - 1)) = 0"
  shows "keys_sound M ks' cs' \<and> (\<forall>b<2. b \<noteq> box \<longrightarrow> key_view ks' cs' b = key_view ks cs b)"
proof -
  note frame = sound_frame [OF sound makes [unfolded makes_key_def, THEN conjunct1]]
  show ?thesis
  proof (cases "key < 0")
    case True
    then have "ks' = ks" using set by (simp add: sys_setkey_def)
    then show ?thesis using frame by simp
  next
    case False
    then have key: "0 < key" "key \<le> int (length cs)" "rsa_check_pubkey M (cs ! nat (key - 1)) \<noteq> 0"
      and len: "length cs' = length cs"
      using makes by (auto simp: makes_key_def changes_only_def)
    have "\<not> holds ks b i key" for b i
      using key(3) soundD(6) [OF sound] by blast
    then show ?thesis
      using setkey_sound [OF frame [THEN conjunct1] box key(1) _ usable _ set] key(2) len frame by simp
  qed
qed

text \<open>When the new key passes the check, all keys of the box do.\<close>

lemma entered_usable:
  assumes sound: "keys_sound M ks cs" and makes: "makes_key M key cs cs'"
    and set: "sys_setkey box key ks = (r, ks')"
    and new: "0 < key \<longrightarrow> rsa_check_pubkey M (cs' ! nat (key - 1)) = 0"
    and held: "holds ks' box i k"
  shows "rsa_check_pubkey M (cs' ! nat (k - 1)) = 0"
proof -
  have "k = key \<and> 0 < key \<or> holds ks box i k"
    using set held makes soundD(4) [OF sound]
    by (auto simp: sys_setkey_def holds_update makes_key_def split: if_splits option.splits)
  then show ?thesis
    using makes new sound_index [OF sound] soundD(6) [OF sound, of box i k]
    by (auto simp: makes_key_def changes_only_def)
qed

subsection \<open>Calls of the boxes\<close>

datatype rsa_call =
    Genkey u32 int | Freekey int | Getpubkey int u32 | Getprivkey int u32
  | Frompubkey "u8 list" u32 | Fromprivkey "u8 list" u32
  | Encrypt int "u8 list" u32 | Decrypt int "u8 list" u32

fun rsa_step ::
  "('r, 'g, 'm) mbedtls \<Rightarrow> ram_layout \<Rightarrow> nat \<Rightarrow> rsa_call \<Rightarrow> ('r, 'g, 'm) rsa_sys \<Rightarrow>
    (box_stop + int \<times> u8 list) \<times> ('r, 'g, 'm) rsa_sys"
where
  "rsa_step M P box (Genkey n e) s = sys_rsa_genkey M P box n e s"
| "rsa_step M P box (Freekey key) s = sys_rsa_freekey M P box key s"
| "rsa_step M P box (Getpubkey key sz) s = sys_rsa_getpubkey M P box key sz s"
| "rsa_step M P box (Getprivkey key sz) s = sys_rsa_getprivkey M P box key sz s"
| "rsa_step M P box (Frompubkey bs sz) s = sys_rsa_frompubkey M P box bs sz s"
| "rsa_step M P box (Fromprivkey bs sz) s = sys_rsa_fromprivkey M P box bs sz s"
| "rsa_step M P box (Encrypt key bs sz) s = sys_rsa_pkcs1_encrypt M P box key bs sz s"
| "rsa_step M P box (Decrypt key bs sz) s = sys_rsa_pkcs1_decrypt M P box key bs sz s"

fun is_import :: "rsa_call \<Rightarrow> bool" where
  "is_import (Frompubkey bs sz) = True"
| "is_import (Fromprivkey bs sz) = True"
| "is_import _ = False"

text \<open>The TLS box is up, and the calls to come return.\<close>

definition steady :: "('r, 'g, 'm) rsa_sys \<Rightarrow> bool" where
  "steady s \<longleftrightarrow> bs_initialized (tls_state s) \<and> list_all (\<lambda>d. d = Returns) (fates s)"

text \<open>The keys of a box pass the check.\<close>

definition usable :: "('r, 'g, 'm) mbedtls \<Rightarrow> nat \<Rightarrow> ('r, 'g, 'm) rsa_sys \<Rightarrow> bool" where
  "usable M b s \<longleftrightarrow>
     list_all (\<lambda>k. k \<noteq> 0 \<longrightarrow> rsa_check_pubkey M (rsa_contexts (tls s) ! nat (k - 1)) = 0) (keys s ! b)"

abbreviation sound_sys :: "('r, 'g, 'm) mbedtls \<Rightarrow> ('r, 'g, 'm) rsa_sys \<Rightarrow> bool" where
  "sound_sys M s \<equiv> keys_sound M (keys s) (rsa_contexts (tls s))"

abbreviation sys_view :: "('r, 'g, 'm) rsa_sys \<Rightarrow> nat \<Rightarrow> 'r option list" where
  "sys_view s b \<equiv> key_view (keys s) (rsa_contexts (tls s)) b"

lemma usable_holds:
  "usable M b s \<Longrightarrow> holds (keys s) b i k \<Longrightarrow> rsa_check_pubkey M (rsa_contexts (tls s) ! nat (k - 1)) = 0"
  by (auto simp: usable_def holds_def list_all_length)

lemma tls_call_steady:
  "steady s \<Longrightarrow> tls_call M P f s =
     (case f False (tls s) of (r, t) \<Rightarrow> (r, s\<lparr>fates := tl (fates s), tls := t\<rparr>))"
  by (cases "fates s") (auto simp: tls_call_def steady_def Let_def split: prod.splits)

lemma steady_tl: "steady s \<Longrightarrow> steady (s\<lparr>fates := tl (fates s), tls := t\<rparr>)"
  by (cases "fates s") (auto simp: steady_def)

lemma steady_keys [simp]: "steady (s\<lparr>keys := ks\<rparr>) = steady s"
  by (simp add: steady_def)

text \<open>What a step of a box keeps.\<close>

definition keeps ::
  "('r, 'g, 'm) mbedtls \<Rightarrow> nat \<Rightarrow> ('r, 'g, 'm) rsa_sys \<Rightarrow> ('r, 'g, 'm) rsa_sys \<Rightarrow> bool"
where
  "keeps M box s s' \<longleftrightarrow> sound_sys M s' \<and> steady s' \<and> (\<forall>b<2. b \<noteq> box \<longrightarrow> sys_view s' b = sys_view s b)"

lemma with_tlsbuffer_inv:
  assumes run: "with_tlsbuffer P sz body s = (r, s')" and steady: "steady s"
  shows "(r = Inr (fail_with ENOMEM, []) \<and> s' = s) \<or>
    (\<exists>st r1 s1. steady (s\<lparr>tls_state := st\<rparr>) \<and> body (s\<lparr>tls_state := st\<rparr>) = (r1, s1) \<and>
       (isl r \<or> r = Inr r1) \<and>
       keys s' = keys s1 \<and> tls s' = tls s1 \<and> (steady s1 \<longrightarrow> steady s'))"
proof -
  obtain p st where push: "tlsbox_push P sz (tls_state s) = (p, st)" by fastforce
  obtain r1 s1 where body: "body (s\<lparr>tls_state := st\<rparr>) = (r1, s1)" by fastforce
  have st: "bs_initialized st = bs_initialized (tls_state s)"
    using push by (auto simp: tlsbox_push_def box1_push_def Let_def split: if_splits)
  have pop: "bs_initialized st' = bs_initialized (tls_state s1)"
    if "tlsbox_pop P sz (tls_state s1) = Inr st'" for st'
    using that by (auto simp: tlsbox_pop_def box1_pop_def Let_def split: if_splits)
  show ?thesis
  proof (cases "p = 0")
    case True
    then show ?thesis using run push by (simp add: with_tlsbuffer_def)
  next
    case False
    have up: "steady (s\<lparr>tls_state := st\<rparr>)" using steady st by (simp add: steady_def)
    show ?thesis
    proof (cases "tlsbox_pop P sz (tls_state s1)")
      case (Inl e)
      then have "r = Inl e \<and> s' = s1"
        using run push body False by (simp add: with_tlsbuffer_def)
      then show ?thesis using up body by auto
    next
      case (Inr st')
      then have "r = Inr r1 \<and> s' = s1\<lparr>tls_state := st'\<rparr>"
        using run push body False by (simp add: with_tlsbuffer_def)
      then show ?thesis using up body pop [OF Inr] by (auto simp: steady_def)
    qed
  qed
qed

lemma with_tlsbuffer_keeps:
  assumes run: "with_tlsbuffer P sz body s = (r, s')" and steady: "steady s" and sound: "sound_sys M s"
    and body: "\<And>st r1 s1. steady (s\<lparr>tls_state := st\<rparr>) \<Longrightarrow> body (s\<lparr>tls_state := st\<rparr>) = (r1, s1) \<Longrightarrow>
      keys s' = keys s1 \<Longrightarrow> tls s' = tls s1 \<Longrightarrow> keeps M box (s\<lparr>tls_state := st\<rparr>) s1"
  shows "keeps M box s s'"
proof -
  consider "s' = s" | st r1 s1 where "steady (s\<lparr>tls_state := st\<rparr>)" "body (s\<lparr>tls_state := st\<rparr>) = (r1, s1)"
    "keys s' = keys s1" "tls s' = tls s1" "steady s1 \<longrightarrow> steady s'"
    using with_tlsbuffer_inv [OF run steady] by blast
  then show ?thesis
  proof cases
    case 1
    then show ?thesis using sound steady by (simp add: keeps_def)
  next
    case (2 st r1 s1)
    then show ?thesis using body [OF 2(1-4)] by (simp add: keeps_def)
  qed
qed

lemma sys_rsa_genkey_keeps:
  assumes ok: "mbed_ok M" and sound: "sound_sys M s" and steady: "steady s" and box: "box < 2"
    and run: "sys_rsa_genkey M P box n e s = (r, s')"
  shows "keeps M box s s'"
proof -
  obtain key t where gen: "tlsbox_rsa_genkey M n e (tls s) = (key, t)" by fastforce
  obtain k ks where set: "sys_setkey box key (keys s) = (k, ks)" by fastforce
  note makes = genkey_makes [OF ok gen]
  have s': "s' = s\<lparr>fates := tl (fates s), tls := t, keys := ks\<rparr>"
    using run by (simp add: sys_rsa_genkey_def tls_call_steady [OF steady] plain_def gen set_new_key_def set)
  have "0 < key \<longrightarrow> rsa_check_pubkey M (rsa_contexts t ! nat (key - 1)) = 0"
    using makes soundD(3) [OF sound] by blast
  note entered_usable [OF sound makes [THEN conjunct1] set this]
  from make_sound [OF sound box makes [THEN conjunct1] set this] show ?thesis
    using steady_tl [OF steady] by (simp add: keeps_def s')
qed

lemma sys_rsa_freekey_keeps:
  assumes sound: "sound_sys M s" and steady: "steady s" and box: "box < 2"
    and run: "sys_rsa_freekey M P box key s = (r, s')"
  shows "keeps M box s s'"
proof -
  obtain k ks where del: "sys_delkey box key (keys s) = (k, ks)" by fastforce
  obtain e t where free: "tlsbox_rsa_freekey M k (tls s) = (e, t)" by fastforce
  have s': "s' = s\<lparr>keys := ks, fates := tl (fates s), tls := t\<rparr>"
    using run steady by (simp add: sys_rsa_freekey_def del tls_call_steady plain_def free)
  have "steady s'"
    using steady_tl [of "s\<lparr>keys := ks\<rparr>"] steady by (simp add: s')
  then show ?thesis
    using delkey_sound [OF sound box del freekey_changes [OF free]] by (simp add: keeps_def s')
qed

text \<open>A call that only reads a context, or uses one.\<close>

lemma tls_call_uses:
  assumes sound: "sound_sys M s" and steady: "steady s" and box: "box < 2"
    and run: "tls_call M P f s = (r, s')"
    and uses: "\<And>q t. f False (tls s) = (q, t) \<Longrightarrow>
      uses_key M (sys_getkey box key (keys s)) (rsa_contexts (tls s)) (rsa_contexts t)"
  shows "keeps M box s s'"
proof -
  obtain q t where f: "f False (tls s) = (q, t)" by fastforce
  have s': "s' = s\<lparr>fates := tl (fates s), tls := t\<rparr>"
    using run by (simp add: tls_call_steady [OF steady] f)
  show ?thesis
    using getkey_sound [OF sound box uses [OF f]] steady_tl [OF steady] by (simp add: keeps_def s')
qed

lemma keeps_state [simp]: "keeps M box (s\<lparr>tls_state := st\<rparr>) s' = keeps M box s s'"
  by (simp add: keeps_def)

lemma fetch_text_keeps:
  assumes sound: "sound_sys M s" and steady: "steady s" and box: "box < 2"
    and get: "\<And>k q t. get k sz (tls s) = (q, t) \<Longrightarrow> rsa_contexts t = rsa_contexts (tls s)"
    and run: "fetch_text M P get box key sz s = (r, s')"
  shows "keeps M box s s'"
  using run unfolding fetch_text_def
proof (rule with_tlsbuffer_keeps [OF _ steady sound])
  fix st r1 s1
  let ?s = "s\<lparr>tls_state := st\<rparr>"
  let ?f = "\<lambda>_ :: bool. get (sys_getkey box key (keys ?s)) sz"
  obtain q s2 where call: "tls_call M P ?f ?s = (q, s2)" by fastforce
  assume "steady ?s"
    and "(case tls_call M P ?f ?s of ((err, bs), s) \<Rightarrow>
         if err \<noteq> 0 then ((err, []), s)
         else ((0, c_text (overlay bs (stack_bytes P (unat sz))) @ [0]), s)) = (r1, s1)"
  moreover from this call have "s1 = s2" by (auto split: prod.splits if_splits)
  moreover have "keeps M box ?s s2"
    by (rule tls_call_uses [OF _ \<open>steady ?s\<close> box call, where key = key]) (use sound get in auto)
  ultimately show "keeps M box ?s s1" by simp
qed

lemma store_text_keeps:
  assumes ok: "mbed_ok M" and sound: "sound_sys M s" and steady: "steady s" and box: "box < 2"
    and makes: "\<And>bs k t. from bs (tls s) = Some (k, t) \<Longrightarrow>
      makes_key M k (rsa_contexts (tls s)) (rsa_contexts t)"
    and usable: "usable M box s'"
    and run: "store_text M P from box buffer sz s = (r, s')"
  shows "keeps M box s s'"
  using run unfolding store_text_def
proof (rule with_tlsbuffer_keeps [OF _ steady sound])
  fix st r1 s1
  let ?s = "s\<lparr>tls_state := st\<rparr>"
  let ?bs = "c_text (take (unat sz) buffer @ stack_bytes P (unat sz))"
  assume st: "steady ?s"
    and body: "set_new_key box (tls_call M P
      (tls_import P from (take (unat sz) buffer @ stack_bytes P (unat sz))) ?s) = (r1, s1)"
    and s': "keys s' = keys s1" "tls s' = tls s1"
  obtain k t where imp: "tls_import P from (take (unat sz) buffer @ stack_bytes P (unat sz)) False (tls s) = ((k, []), t)"
    by (cases "from ?bs (tls s)") (auto simp: tls_import_def)
  have makes: "makes_key M k (rsa_contexts (tls s)) (rsa_contexts t)"
    using imp makes [of ?bs k t]
    by (auto simp: tls_import_def makes_key_def fail_with_def split: option.splits)
  obtain k' ks where set: "sys_setkey box k (keys s) = (k', ks)" by fastforce
  have s1: "s1 = ?s\<lparr>fates := tl (fates s), tls := t, keys := ks\<rparr>"
    using body by (simp add: tls_call_steady [OF st] imp set_new_key_def set)
  have "usable M box (?s\<lparr>fates := tl (fates s), tls := t, keys := ks\<rparr>)"
    using usable s' by (simp add: usable_def s1)
  from usable_holds [OF this]
  have "keys_sound M ks (rsa_contexts t) \<and>
      (\<forall>b<2. b \<noteq> box \<longrightarrow> key_view ks (rsa_contexts t) b = sys_view s b)"
    by (intro make_sound [OF sound box makes set]) simp
  then show "keeps M box ?s s1"
    using steady_tl [OF st] by (simp add: keeps_def s1)
qed

lemma encrypt_keeps:
  assumes ok: "mbed_ok M" and sound: "sound_sys M s" and steady: "steady s" and box: "box < 2"
    and run: "sys_rsa_pkcs1_encrypt M P box key input n s = (r, s')"
  shows "keeps M box s s'"
  using run unfolding sys_rsa_pkcs1_encrypt_def
proof (rule with_tlsbuffer_keeps [OF _ steady sound])
  fix st r1 s1
  let ?s = "s\<lparr>tls_state := st\<rparr>"
  let ?f = "\<lambda>restarted. tlsbox_rsa_pkcs1_encrypt M (sys_getkey box key (keys ?s))
    ((if restarted then after_restart P else id) (take (unat n) input))"
  obtain q s2 where call: "tls_call M P ?f ?s = (q, s2)" by fastforce
  assume "steady ?s"
    and "(case tls_call M P ?f ?s of ((err, out), s) \<Rightarrow>
         if err \<noteq> 0 then ((err, []), s)
         else ((0, take key_bytes (overlay out (stack_bytes P key_bytes))), s)) = (r1, s1)"
  moreover from this call have "s1 = s2" by (auto split: prod.splits if_splits)
  moreover have "keeps M box ?s s2"
    by (rule tls_call_uses [OF _ \<open>steady ?s\<close> box call, where key = key]) (use sound encrypt_uses [OF ok] in auto)
  ultimately show "keeps M box ?s s1" by simp
qed

lemma decrypt_keeps:
  assumes ok: "mbed_ok M" and sound: "sound_sys M s" and steady: "steady s" and box: "box < 2"
    and run: "sys_rsa_pkcs1_decrypt M P box key input n s = (r, s')"
  shows "keeps M box s s'"
  using run unfolding sys_rsa_pkcs1_decrypt_def
proof (rule with_tlsbuffer_keeps [OF _ steady sound])
  fix st r1 s1
  let ?s = "s\<lparr>tls_state := st\<rparr>"
  let ?f = "\<lambda>restarted. tlsbox_rsa_pkcs1_decrypt M (sys_getkey box key (keys ?s))
    ((if restarted then after_restart P else id) (take key_bytes input)) n"
  obtain q s2 where call: "tls_call M P ?f ?s = (q, s2)" by fastforce
  assume "steady ?s"
    and "(case tls_call M P ?f ?s of ((res, out), s) \<Rightarrow>
         if res < 0 then ((res, []), s)
         else ((res, take (nat res) (overlay out (stack_bytes P (unat n)))), s)) = (r1, s1)"
  moreover from this call have "s1 = s2" by (auto split: prod.splits if_splits)
  moreover have "keeps M box ?s s2"
    by (rule tls_call_uses [OF _ \<open>steady ?s\<close> box call, where key = key]) (use sound decrypt_uses [OF ok] in auto)
  ultimately show "keeps M box ?s s1" by simp
qed

lemma rsa_step_keeps:
  assumes ok: "mbed_ok M" and sound: "sound_sys M s" and steady: "steady s" and box: "box < 2"
    and run: "rsa_step M P box call s = (r, s')" and usable: "is_import call \<longrightarrow> usable M box s'"
  shows "keeps M box s s'"
proof (cases call)
  case (Frompubkey bs sz)
  then have "store_text M P (tlsbox_rsa_frompubkey M) box bs sz s = (r, s')" "usable M box s'"
    using run usable by (simp_all add: sys_rsa_frompubkey_def)
  moreover have "makes_key M k (rsa_contexts (tls s)) (rsa_contexts t)"
    if "tlsbox_rsa_frompubkey M text (tls s) = Some (k, t)" for "text" k t
    using that unfolding tlsbox_rsa_frompubkey_def
    by (rule read_key_makes [OF ok]) (use ok in \<open>simp add: mbed_ok_def\<close>)
  ultimately show ?thesis using store_text_keeps [OF ok sound steady box] by blast
next
  case (Fromprivkey bs sz)
  then have "store_text M P (tlsbox_rsa_fromprivkey M) box bs sz s = (r, s')" "usable M box s'"
    using run usable by (simp_all add: sys_rsa_fromprivkey_def)
  moreover have "makes_key M k (rsa_contexts (tls s)) (rsa_contexts t)"
    if "tlsbox_rsa_fromprivkey M text (tls s) = Some (k, t)" for "text" k t
    using that unfolding tlsbox_rsa_fromprivkey_def
    by (rule read_key_makes [OF ok]) (use ok in \<open>simp add: mbed_ok_def\<close>)
  ultimately show ?thesis using store_text_keeps [OF ok sound steady box] by blast
next
  case (Getpubkey key sz)
  show ?thesis
    by (rule fetch_text_keeps [OF sound steady box, of "tlsbox_rsa_getpubkey M"])
      (use run Getpubkey write_key_changes in \<open>auto simp: sys_rsa_getpubkey_def tlsbox_rsa_getpubkey_def\<close>)
next
  case (Getprivkey key sz)
  show ?thesis
    by (rule fetch_text_keeps [OF sound steady box, of "tlsbox_rsa_getprivkey M"])
      (use run Getprivkey write_key_changes in \<open>auto simp: sys_rsa_getprivkey_def tlsbox_rsa_getprivkey_def\<close>)
qed (use run sys_rsa_genkey_keeps [OF ok sound steady box] sys_rsa_freekey_keeps [OF sound steady box]
    encrypt_keeps [OF ok sound steady box] decrypt_keeps [OF ok sound steady box] in auto)

subsection \<open>Runs\<close>

text \<open>Calls of boxes in a row; a halt ends the run.\<close>

fun rsa_run where
  "rsa_run M P [] s = s"
| "rsa_run M P ((box, call) # calls) s =
     (case rsa_step M P box call s of
        (Inl e, s') \<Rightarrow> s'
      | (Inr r, s') \<Rightarrow> rsa_run M P calls s')"

text \<open>After every import of the run, the keys of the box that called pass the check.\<close>

fun imports_usable where
  "imports_usable M P [] s \<longleftrightarrow> True"
| "imports_usable M P ((box, call) # calls) s \<longleftrightarrow>
     (case rsa_step M P box call s of (r, s') \<Rightarrow>
        (is_import call \<longrightarrow> usable M box s') \<and> (isl r \<or> imports_usable M P calls s'))"

lemma rsa_run_keeps:
  assumes "mbed_ok M" and "sound_sys M s" and "steady s" and "list_all (\<lambda>(b, c). b < 2) calls"
    and "imports_usable M P calls s"
  shows "sound_sys M (rsa_run M P calls s) \<and> steady (rsa_run M P calls s) \<and>
    (\<forall>b<2. list_all (\<lambda>(b', c). b' \<noteq> b) calls \<longrightarrow> sys_view (rsa_run M P calls s) b = sys_view s b)"
  using assms(2-)
proof (induction calls arbitrary: s)
  case (Cons bc calls)
  obtain box call where bc: "bc = (box, call)" by fastforce
  obtain r s1 where step: "rsa_step M P box call s = (r, s1)" by fastforce
  have keeps: "keeps M box s s1"
    by (rule rsa_step_keeps [OF assms(1) Cons.prems(1,2) _ step]) (use Cons.prems bc step in auto)
  show ?case
  proof (cases r)
    case (Inl e)
    then show ?thesis using keeps bc step by (simp add: keeps_def)
  next
    case (Inr q)
    have "sound_sys M s1" "steady s1" using keeps by (simp_all add: keeps_def)
    from Cons.IH [OF this] show ?thesis
      using keeps bc step Inr Cons.prems by (simp add: keeps_def)
  qed
qed simp

end
