(* ===== verification/RsaSharing.thy ===== *)
theory RsaSharing
  imports RsaIsolation
begin

text \<open>
  When two boxes come to share a key, and how a key travels as text. The invariant of \<open>RsaIsolation\<close> has
  two conditions, and without either of them one box gets the private key of the other: an import that
  mbedtls completes without a check, and a restart of the TLS box. The properties of the RSA example but
  for the whole run are here, with an instance of mbedtls small enough to evaluate.
\<close>

subsection \<open>Two boxes with one key\<close>

lemma find_key_eq:
  assumes "key_check_failed M < 0" and "j < length rs" and "rsa_check_pubkey M (rs ! j) = key_check_failed M"
    and "\<forall>l<j. rsa_check_pubkey M (rs ! l) \<noteq> key_check_failed M \<and> rsa_check_pubkey M (rs ! l) \<ge> 0"
  shows "find_key M rs i = int (i + j) + 1"
  using assms(2-)
proof (induction j arbitrary: rs i)
  case 0
  then show ?case by (cases rs) (auto simp: Let_def)
next
  case (Suc j)
  then obtain r rs' where rs: "rs = r # rs'" by (cases rs) auto
  have "rsa_check_pubkey M r \<noteq> key_check_failed M \<and> rsa_check_pubkey M r \<ge> 0"
    using Suc.prems(3) rs by force
  moreover have "find_key M rs' (i + 1) = int (i + 1 + j) + 1"
    by (rule Suc.IH) (use Suc.prems rs in auto)
  ultimately show ?case by (simp add: rs Let_def)
qed

lemma setkey_getkey:
  assumes "sys_setkey box key ks = (k, ks')" and "0 < k" and "box < length ks"
    and "length (ks ! box) = SYS_KEY_COUNT"
  shows "sys_getkey box k ks' = key \<and> 0 \<le> key \<and> (\<forall>b. b \<noteq> box \<longrightarrow> ks' ! b = ks ! b)"
  using assms free_slot_Some [of "ks ! box" 0]
  by (auto simp: sys_setkey_def sys_getkey_def fail_with_def split: if_splits option.splits)

text \<open>An import that succeeds has put the numbers in the slot that the search gave.\<close>

lemma read_key_slot:
  assumes "read_key M n imp text t = Some (key, t')" and "0 < key"
    and "mbed_ok M" and imp: "\<And>ms r. fst (imp ms r) \<le> 0"
  shows "tlsbox_rsa_findnextkey M t = key \<and>
    (\<exists>r. rsa_contexts t' = (rsa_contexts t)[nat (key - 1) := r])"
proof -
  have "e \<le> 0" if "imp xs r = (e, r')" for xs r e r' using imp [of xs r] that by simp
  moreover have "e \<le> 0" if "rsa_complete M r = (e, r')" for r e r'
    using assms(3) that unfolding mbed_ok_def by (metis fst_conv)
  moreover have "e \<le> 0" if "read_mpis M room l key = Some (e, xs)" for room l key e xs
    using read_mpis_err [OF assms(3) that] .
  ultimately show ?thesis
    using assms(1,2)
    by (fastforce simp: read_key_def Let_def fail_with_def split: if_splits prod.splits option.splits)
qed


subsection \<open>The start, and the tables\<close>

definition rsa_start :: "('r, 'g, 'm) mbedtls \<Rightarrow> ram_layout \<Rightarrow> ('r, 'g, 'm) rsa_sys" where
  "rsa_start M P =
     \<lparr>keys = replicate 2 (replicate SYS_KEY_COUNT 0), tls = tls_fresh M,
      tls_state = \<lparr>bs_initialized = True, bs_caller = 0, bs_lr = 0xfffffffd, bs_sp = stack_end P\<rparr>,
      fates = []\<rparr>"

lemma rsa_start_sound: "sound_sys M (rsa_start M P) \<and> steady (rsa_start M P)"
  by (auto simp: keys_sound_def rsa_start_def holds_def tls_fresh_def steady_def less_Suc_eq
      numeral_2_eq_2)

text \<open>A box whose table is full holds every key of the TLS box, so the table never turns away a key
  that has been made.\<close>

lemma full_table_full_box:
  assumes ok: "mbed_ok M" and sound: "keys_sound M ks (rsa_contexts t)" and box: "box < 2"
    and full: "free_slot (ks ! box) 0 = None"
  shows "tlsbox_rsa_findnextkey M t = fail_with ENOMEM"
proof -
  let ?cs = "rsa_contexts t"
  let ?f = "\<lambda>i. nat (ks ! box ! i - 1)"
  have len: "length (ks ! box) = SYS_KEY_COUNT" "length ks = 2" "length ?cs = TLSBOX_KEY_COUNT"
    using soundD(1-3) [OF sound] box by auto
  have nz: "k \<noteq> 0" if "free_slot row i = None" "k \<in> set row" for row i k
    using that by (induction row arbitrary: i) (auto split: if_splits)
  have held: "holds ks box i (ks ! box ! i)" if "i < SYS_KEY_COUNT" for i
    using that nz [OF full] box len by (auto simp: holds_def)
  have inj: "inj_on ?f {..<SYS_KEY_COUNT}"
  proof (rule inj_onI)
    fix i j assume ij: "i \<in> {..<SYS_KEY_COUNT}" "j \<in> {..<SYS_KEY_COUNT}" "?f i = ?f j"
    then have "0 < ks ! box ! i" "0 < ks ! box ! j"
      using soundD(4) [OF sound held] by auto
    then have "ks ! box ! i = ks ! box ! j"
      using ij(3) by simp
    then show "i = j"
      using held [of i] held [of j] ij soundD(7) [OF sound, of box i _ box j] by auto
  qed
  have sub: "?f ` {..<SYS_KEY_COUNT} \<subseteq> {..<SYS_KEY_COUNT}"
    using held sound_index [OF sound] len
    by (fastforce simp: SYS_KEY_COUNT_def TLSBOX_KEY_COUNT_def)
  have "?f ` {..<SYS_KEY_COUNT} = {..<SYS_KEY_COUNT}"
    using inj sub by (simp add: endo_inj_surj)
  note onto = this
  have used: "rsa_check_pubkey M (?cs ! j) = 0" if "j < length ?cs" for j
  proof -
    have "j \<in> ?f ` {..<SYS_KEY_COUNT}"
      using that len onto by (simp add: SYS_KEY_COUNT_def TLSBOX_KEY_COUNT_def)
    then obtain i where "i < SYS_KEY_COUNT" "j = ?f i" by auto
    then show ?thesis using soundD(6) [OF sound held [of i]] by simp
  qed
  have "find_key M rs i = fail_with ENOMEM" if "\<forall>r\<in>set rs. rsa_check_pubkey M r = 0" and "key_check_failed M \<noteq> 0" for rs i
    using that by (induction rs arbitrary: i) (auto simp: Let_def)
  moreover have "\<forall>r\<in>set ?cs. rsa_check_pubkey M r = 0"
    using used by (auto simp: in_set_conv_nth)
  ultimately show ?thesis
    using ok by (simp add: tlsbox_rsa_findnextkey_def mbed_ok_def)
qed

text \<open>A number that has been freed is refused.\<close>

lemma freed_number_refused:
  assumes "sys_delkey box key ks = (k, ks')" and "box < length ks" and "length (ks ! box) = SYS_KEY_COUNT"
  shows "tlsbox_rsa_fromkey M (sys_getkey box key ks') t = Inl (fail_with EINVAL)"
  using assms by (auto simp: sys_delkey_def sys_getkey_def tlsbox_rsa_fromkey_def fail_with_def Let_def
      split: if_splits)

text \<open>A number resolves to what the box has under it, whatever the other box does.\<close>

definition own_key :: "('r, 'g, 'm) rsa_sys \<Rightarrow> nat \<Rightarrow> int \<Rightarrow> 'r option" where
  "own_key s box key =
     (if key - 1 \<ge> 0 \<and> key - 1 < int SYS_KEY_COUNT then sys_view s box ! nat (key - 1) else None)"

lemma number_resolves:
  assumes sound: "sound_sys M s" and box: "box < 2"
  shows "map_sum id ((!) (rsa_contexts (tls s))) (tlsbox_rsa_fromkey M (sys_getkey box key (keys s)) (tls s)) =
    (case own_key s box key of Some r \<Rightarrow> Inr r | None \<Rightarrow> Inl (fail_with EINVAL))"
proof (cases "key - 1 \<ge> 0 \<and> key - 1 < int SYS_KEY_COUNT")
  case False
  then show ?thesis by (auto simp: own_key_def sys_getkey_def tlsbox_rsa_fromkey_def fail_with_def Let_def)
next
  case True
  let ?i = "nat (key - 1)"
  let ?k = "keys s ! box ! ?i"
  have i: "?i < length (keys s ! box)" and b: "box < length (keys s)"
    using True soundD(1,2) [OF sound] box by auto
  show ?thesis
  proof (cases "?k = 0")
    case True
    then show ?thesis using \<open>key - 1 \<ge> 0 \<and> _\<close> i
      by (simp add: own_key_def key_view_def sys_getkey_def tlsbox_rsa_fromkey_def Let_def)
  next
    case False
    then have h: "holds (keys s) box ?i ?k" using i b by (simp add: holds_def)
    show ?thesis
      using \<open>key - 1 \<ge> 0 \<and> _\<close> i False soundD(4-6) [OF sound h]
      by (auto simp: own_key_def key_view_def sys_getkey_def tlsbox_rsa_fromkey_def Let_def)
  qed
qed

subsection \<open>What an import or a generation that succeeds has done\<close>

lemma with_tlsbuffer_run:
  assumes run: "with_tlsbuffer P sz body s = (Inr q, s')"
  obtains "q = (fail_with ENOMEM, [])" and "s' = s"
  | st s1 where "bs_initialized st = bs_initialized (tls_state s)"
      "body (s\<lparr>tls_state := st\<rparr>) = (q, s1)" "keys s' = keys s1" "tls s' = tls s1" "fates s' = fates s1"
      "bs_initialized (tls_state s') = bs_initialized (tls_state s1)"
proof -
  obtain p st where push: "tlsbox_push P sz (tls_state s) = (p, st)" by fastforce
  obtain r1 s1 where body: "body (s\<lparr>tls_state := st\<rparr>) = (r1, s1)" by fastforce
  have st: "bs_initialized st = bs_initialized (tls_state s)"
    using push by (auto simp: tlsbox_push_def box1_push_def Let_def split: if_splits)
  show thesis
  proof (cases "p = 0")
    case True
    then show ?thesis using run push that(1) by (simp add: with_tlsbuffer_def)
  next
    case False
    then obtain st' where pop: "tlsbox_pop P sz (tls_state s1) = Inr st'" "q = r1"
      "s' = s1\<lparr>tls_state := st'\<rparr>"
      using run push body by (auto simp: with_tlsbuffer_def split: sum.splits)
    moreover have "bs_initialized st' = bs_initialized (tls_state s1)"
      using pop(1) by (auto simp: tlsbox_pop_def box1_pop_def Let_def split: if_splits)
    ultimately show ?thesis using st body that(2) [of st s1] by simp
  qed
qed

text \<open>The box that serves the call: the one that is up, or a fresh one.\<close>

definition serving :: "('r, 'g, 'm) mbedtls \<Rightarrow> ('r, 'g, 'm) rsa_sys \<Rightarrow> ('r, 'g, 'm) tls_box" where
  "serving M s = (if bs_initialized (tls_state s) then tls s else tls_fresh M)"

lemma store_text_made:
  assumes run: "store_text M P from box buffer sz s = (Inr (k, bs), s')" and k: "0 < k"
    and fates: "fates s = []"
  obtains key where "from (c_text (if bs_initialized (tls_state s)
        then take (unat sz) buffer @ stack_bytes P (unat sz)
        else after_restart P (take (unat sz) buffer @ stack_bytes P (unat sz)))) (serving M s) = Some (key, tls s')"
    and "sys_setkey box key (keys s) = (k, keys s')"
    and "fates s' = []" and "bs_initialized (tls_state s')"
proof -
  let ?buf = "take (unat sz) buffer @ stack_bytes P (unat sz)"
  obtain st s1 where st: "bs_initialized st = bs_initialized (tls_state s)"
    and body: "set_new_key box (tls_call M P (tls_import P from ?buf) (s\<lparr>tls_state := st\<rparr>)) = ((k, bs), s1)"
    and s1: "keys s' = keys s1" "tls s' = tls s1" "fates s' = fates s1"
      "bs_initialized (tls_state s') = bs_initialized (tls_state s1)"
    using run unfolding store_text_def
    by (rule with_tlsbuffer_run) (use k in \<open>auto simp: fail_with_def\<close>)
  obtain key t where imp: "tls_import P from ?buf (\<not> bs_initialized (tls_state s)) (serving M s) = ((key, []), t)"
    by (cases "from (c_text (if \<not> bs_initialized (tls_state s) then after_restart P ?buf else ?buf)) (serving M s)")
      (auto simp: tls_import_def)
  have set: "sys_setkey box key (keys s) = (k, keys s')" and t: "tls s' = t"
    and rest: "fates s' = []" "bs_initialized (tls_state s')"
    using body s1 imp st fates
    by (auto simp: set_new_key_def tls_call_def serving_def tls_start_def Let_def split: prod.splits if_splits)
  have "0 \<le> key" using set k by (auto simp: sys_setkey_def fail_with_def split: if_splits)
  then have "from (c_text (if bs_initialized (tls_state s) then ?buf else after_restart P ?buf)) (serving M s)
      = Some (key, t)"
    using imp by (auto simp: tls_import_def fail_with_def split: option.splits if_splits)
  then show thesis using that set t rest by blast
qed

lemma genkey_made:
  assumes run: "sys_rsa_genkey M P box n e s = (Inr (k, bs), s')" and k: "0 < k"
    and up: "bs_initialized (tls_state s)" "fates s = []"
  obtains key where "tlsbox_rsa_genkey M n e (tls s) = (key, tls s')"
    and "sys_setkey box key (keys s) = (k, keys s')"
  using run up by (auto simp: sys_rsa_genkey_def set_new_key_def tls_call_def plain_def Let_def
      split: prod.splits)

subsection \<open>Keys as text, and back\<close>

text \<open>What mbedtls documents of numbers as strings: a number that fits is written as digits with a NUL,
  and reading the digits gives the number.\<close>

definition mpi_text_ok :: "('r, 'g, 'm) mbedtls \<Rightarrow> bool" where
  "mpi_text_ok M \<longleftrightarrow>
     (\<forall>m n. case mpi_write_string M m n of (err, bs) \<Rightarrow> err = 0 \<longrightarrow>
        bs \<noteq> [] \<and> last bs = 0 \<and> butlast bs \<noteq> [] \<and> list_all (\<lambda>c. c \<noteq> 0 \<and> c \<noteq> 10) (butlast bs) \<and>
        mpi_read_string M (butlast bs) = (0, m) \<and> length bs \<le> n)"

lemma takeWhile_stop: "list_all P xs \<Longrightarrow> \<not> P x \<Longrightarrow> takeWhile P (xs @ x # ys) = xs"
  by (induction xs) auto

text \<open>The lines of a key, without the NUL at the end.\<close>

fun key_lines :: "u8 list list \<Rightarrow> u8 list" where
  "key_lines [] = []"
| "key_lines [l] = l"
| "key_lines (l # ls) = l @ 10 # key_lines ls"

lemma write_mpis_lines:
  assumes ok: "mpi_text_ok M"
  shows "write_mpis M ms sz = (0, bs) \<Longrightarrow> ms \<noteq> [] \<Longrightarrow>
    \<exists>ls. bs = key_lines ls @ [0] \<and> length ls = length ms \<and>
      list_all (\<lambda>l. l \<noteq> [] \<and> list_all (\<lambda>c. c \<noteq> 0 \<and> c \<noteq> 10) l) ls \<and>
      list_all2 (\<lambda>l m. mpi_read_string M l = (0, m)) ls ms"
proof (induction ms arbitrary: sz bs)
  case (Cons m ms)
  obtain err w where w: "mpi_write_string M m sz = (err, w)" by fastforce
  have err: "err = 0" using Cons.prems(1) w by (auto split: if_splits)
  have "case mpi_write_string M m sz of (err, bs) \<Rightarrow> err = 0 \<longrightarrow>
        bs \<noteq> [] \<and> last bs = 0 \<and> butlast bs \<noteq> [] \<and> list_all (\<lambda>c. c \<noteq> 0 \<and> c \<noteq> 10) (butlast bs) \<and>
        mpi_read_string M (butlast bs) = (0, m) \<and> length bs \<le> sz"
    by (rule ok [unfolded mpi_text_ok_def, THEN spec, THEN spec])
  then have "w \<noteq> []" "last w = 0" and l: "butlast w \<noteq> []"
    "list_all (\<lambda>c. c \<noteq> 0 \<and> c \<noteq> 10) (butlast w)" "mpi_read_string M (butlast w) = (0, m)"
    using w err by simp_all
  define l where "l = butlast w"
  have "w = l @ [0]"
    using append_butlast_last_id [OF \<open>w \<noteq> []\<close>] \<open>last w = 0\<close> by (simp add: l_def)
  note l = this l [folded l_def]
  show ?case
  proof (cases ms)
    case Nil
    then have "bs = key_lines [l] @ [0]" using Cons.prems w err l(1) by simp
    then show ?thesis using l Nil by (intro exI [of _ "[l]"]) simp
  next
    case (Cons m' ms')
    obtain e rest where rest: "write_mpis M ms (sz - length w) = (e, rest)" by fastforce
    have "ms \<noteq> []" using Cons by simp
    then have "write_mpis M (m # ms) sz = (e, l @ 10 # rest)"
      using w err l(1) rest by (simp add: Let_def)
    then have bs: "e = 0" "bs = l @ 10 # rest"
      using Cons.prems(1) by auto
    obtain ls where ls: "rest = key_lines ls @ [0]" "length ls = length ms"
      "list_all (\<lambda>l. l \<noteq> [] \<and> list_all (\<lambda>c. c \<noteq> 0 \<and> c \<noteq> 10) l) ls"
      "list_all2 (\<lambda>l m. mpi_read_string M l = (0, m)) ls ms"
      using Cons.IH [of "sz - length w" rest] rest bs(1) Cons by auto
    then have "key_lines (l # ls) = l @ 10 # key_lines ls"
      using Cons by (cases ls) auto
    then show ?thesis
      using l ls bs(2) by (intro exI [of _ "l # ls"]) simp
  qed
qed simp

lemma write_mpis_fits:
  assumes ok: "mpi_text_ok M"
  shows "write_mpis M ms sz = (0, bs) \<Longrightarrow> length bs \<le> sz"
proof (induction ms arbitrary: sz bs)
  case (Cons m ms)
  obtain err w where w: "mpi_write_string M m sz = (err, w)" by fastforce
  obtain e rest where rest: "write_mpis M ms (sz - length w) = (e, rest)" by fastforce
  have "err = 0" "e = 0" "length bs = length w + length rest"
    using Cons.prems w rest by (auto simp: Let_def split: if_splits prod.splits)
  moreover have "length w \<le> sz"
    using ok [unfolded mpi_text_ok_def, THEN spec, THEN spec, of m sz] w \<open>err = 0\<close> by simp
  ultimately show ?case using Cons.IH [of "sz - length w" rest] rest by simp
qed simp

lemma key_lines_no_nul:
  "list_all (\<lambda>l. l \<noteq> [] \<and> list_all (\<lambda>c. c \<noteq> 0 \<and> c \<noteq> 10) l) ls \<Longrightarrow> list_all (\<lambda>c. c \<noteq> (0::u8)) (key_lines ls)"
  by (induction ls rule: key_lines.induct) (auto simp: list_all_iff)

lemma read_mpis_lines:
  assumes "list_all (\<lambda>l. l \<noteq> [] \<and> list_all (\<lambda>c. c \<noteq> 0 \<and> c \<noteq> (10::u8)) l) ls"
    and "list_all2 (\<lambda>l m. mpi_read_string M l = (0, m)) ls ms"
    and "length (key_lines ls) < room \<or> length (key_lines ls) \<le> room \<and> 1 < length ls"
  shows "read_mpis M room (length ls) (key_lines ls) = Some (0, ms)"
  using assms
proof (induction ls arbitrary: ms rule: key_lines.induct)
  case (2 l)
  then obtain m where "ms = [m]" "mpi_read_string M l = (0, m)"
    by (auto simp: list_all2_Cons1)
  moreover have "takeWhile (\<lambda>c. c \<noteq> 10) l = l"
    using 2 by (auto simp: list_all_iff)
  ultimately show ?case using 2 by (simp add: Let_def del: takeWhile_eq_all_conv)
next
  case (3 l l' ls)
  then obtain m ms' where ms: "ms = m # ms'" "mpi_read_string M l = (0, m)"
    "list_all2 (\<lambda>l m. mpi_read_string M l = (0, m)) (l' # ls) ms'"
    by (auto simp: list_all2_Cons1)
  let ?rest = "key_lines (l' # ls)"
  have line: "takeWhile (\<lambda>c. c \<noteq> 10) (l @ 10 # ?rest) = l"
    by (rule takeWhile_stop) (use 3 in \<open>auto simp: list_all_iff\<close>)
  have room: "length l < room" "length ?rest < room"
    using "3.prems"(3) by auto
  have "read_mpis M room (length (l' # ls)) ?rest = Some (0, ms')"
    by (rule "3.IH") (use 3 ms room in auto)
  then have "read_mpis M room (Suc (length (l' # ls))) (l @ 10 # ?rest) = Some (0, m # ms')"
    unfolding read_mpis.simps line Let_def using ms(2) room "3.prems"(1) by simp
  then show ?case by (simp add: ms(1))
qed simp

lemma text_key_read:
  assumes "mpi_text_ok M" and "write_mpis M ms sz = (0, bs)" and "1 < length ms"
  shows "\<exists>text. bs = text @ [0] \<and> c_text (bs @ rest) = text \<and> read_mpis M (length text) (length ms) text = Some (0, ms)"
proof -
  have "ms \<noteq> []" using assms(3) by auto
  then obtain ls where ls: "bs = key_lines ls @ [0]" "length ls = length ms"
    "list_all (\<lambda>l. l \<noteq> [] \<and> list_all (\<lambda>c. c \<noteq> 0 \<and> c \<noteq> 10) l) ls"
    "list_all2 (\<lambda>l m. mpi_read_string M l = (0, m)) ls ms"
    using write_mpis_lines [OF assms(1,2)] by blast
  have "c_text (bs @ rest) = key_lines ls"
    using takeWhile_stop [OF key_lines_no_nul [OF ls(3)], of 0 rest] by (simp add: c_text_def ls(1))
  moreover have "read_mpis M (length (key_lines ls)) (length ms) (key_lines ls) = Some (0, ms)"
    using read_mpis_lines [OF ls(3,4)] assms(3) ls(2) by simp
  ultimately show ?thesis using ls(1) by blast
qed

lemma setkey_shape:
  "sys_setkey box key ks = (k, ks') \<Longrightarrow>
     length ks' = length ks \<and> (\<forall>b<length ks. length (ks' ! b) = length (ks ! b))"
  by (auto simp: sys_setkey_def nth_update_less split: if_splits option.splits)

lemma getkey_row: "ks' ! b = ks ! b \<Longrightarrow> sys_getkey b k ks' = sys_getkey b k ks"
  by (simp add: sys_getkey_def)

lemma import_nonpos:
  assumes "mbed_ok M"
  shows "fst (rsa_import_pub M ms r) \<le> 0" and "fst (rsa_import_priv M ms r) \<le> 0"
  using assms by (simp_all add: mbed_ok_def)

text \<open>The key that an import of a box gives is in the first slot that fails the check.\<close>

lemma import_slot:
  assumes ok: "mbed_ok M" and rows: "keys_sound M (keys s) cs" and box: "box < 2"
    and run: "store_text M P (read_key M n imp) box buffer sz s = (Inr (k, bs), s')" and k: "0 < k"
    and imp: "\<And>ms r. fst (imp ms r) \<le> 0" and fates: "fates s = []"
  obtains j r where "sys_getkey box k (keys s') = int j + 1"
    and "j < length (rsa_contexts (serving M s))"
    and "rsa_check_pubkey M (rsa_contexts (serving M s) ! j) = key_check_failed M"
    and "\<forall>l<j. rsa_check_pubkey M (rsa_contexts (serving M s) ! l) \<noteq> key_check_failed M \<and>
      rsa_check_pubkey M (rsa_contexts (serving M s) ! l) \<ge> 0"
    and "rsa_contexts (tls s') = (rsa_contexts (serving M s))[j := r]"
    and "\<forall>b. b \<noteq> box \<longrightarrow> keys s' ! b = keys s ! b" and "fates s' = []" and "bs_initialized (tls_state s')"
    and "length (keys s') = 2" and "\<forall>b<2. length (keys s' ! b) = SYS_KEY_COUNT"
proof -
  have neg: "key_check_failed M < 0" using ok by (simp add: mbed_ok_def)
  have len: "length (keys s) = 2" "\<forall>b<2. length (keys s ! b) = SYS_KEY_COUNT"
    using soundD(1,2) [OF rows] by auto
  obtain "text" key where read: "read_key M n imp text (serving M s) = Some (key, tls s')"
    and set: "sys_setkey box key (keys s) = (k, keys s')"
    and rest: "fates s' = []" "bs_initialized (tls_state s')"
    using store_text_made [OF run k fates] by metis
  have get: "sys_getkey box k (keys s') = key" "0 \<le> key" "\<forall>b. b \<noteq> box \<longrightarrow> keys s' ! b = keys s ! b"
    using setkey_getkey [OF set k] len box by auto
  moreover have "0 < key"
    using read_key_makes [OF ok read imp] get(2) by (auto simp: makes_key_def)
  ultimately obtain r where slot: "tlsbox_rsa_findnextkey M (serving M s) = key"
    "rsa_contexts (tls s') = (rsa_contexts (serving M s))[nat (key - 1) := r]"
    using read_key_slot [OF read _ ok imp] by auto
  have "length (keys s') = 2" "\<forall>b<2. length (keys s' ! b) = SYS_KEY_COUNT"
    using setkey_shape [OF set] len by auto
  then show thesis
    using that [of _ r] find_key_cases [OF neg, of "rsa_contexts (serving M s)" 0] slot get \<open>0 < key\<close> rest
    by (auto simp: tlsbox_rsa_findnextkey_def)
qed

lemma genkey_slot:
  assumes ok: "mbed_ok M" and run: "tlsbox_rsa_genkey M n e t = (key, t')" and "0 \<le> key"
  shows "key = tlsbox_rsa_findnextkey M t"
proof -
  have "err \<le> 0" if "rsa_gen_key M n e g r = (err, r', g')" for g r err r' g'
    using ok that unfolding mbed_ok_def by (metis (mono_tags, lifting) case_prod_conv)
  then show ?thesis
    using run \<open>0 \<le> key\<close>
    by (fastforce simp: tlsbox_rsa_genkey_def fail_with_def Let_def split: if_splits prod.splits)
qed

lemma same_key_same_text:
  "sys_getkey b k (keys s) = sys_getkey c k' (keys s) \<Longrightarrow>
    sys_rsa_getprivkey M P b k sz s = sys_rsa_getprivkey M P c k' sz s"
  by (cases "tlsbox_push P sz (tls_state s)")
    (simp add: sys_rsa_getprivkey_def fetch_text_def with_tlsbuffer_def)

subsection \<open>An instance\<close>

text \<open>A library with numbers of one bit, whose keys are lists of numbers: one that begins with 1 passes the
  check. Encryption puts the length in front of a
  message and pads it with zeros to 64 bytes.\<close>

definition demo_mbedtls :: "(bool list, nat, bool) mbedtls" where
  "demo_mbedtls =
     \<lparr>key_check_failed = -16896, rsa_zero = [], rsa_init = [],
      rsa_check_pubkey = (\<lambda>r. case r of True # bs \<Rightarrow> 0 | _ \<Rightarrow> -16896),
      rsa_gen_key = (\<lambda>n e g r. (0, [True, odd g, True, True, True], Suc g)),
      rsa_free = (\<lambda>r. []),
      rsa_export_pub = (\<lambda>r. (0, case r of a # b # bs \<Rightarrow> [a, b] | _ \<Rightarrow> [False, False])),
      rsa_export_priv = (\<lambda>r. (0, r)),
      rsa_import_pub = (\<lambda>ms r. (0, ms)),
      rsa_import_priv = (\<lambda>ms r. (0, ms)),
      rsa_complete = (\<lambda>r. (0, r)),
      rsa_pkcs1_encrypt = (\<lambda>bs g r. if 53 < length bs then (-16512, [], g, r)
        else (0, word_of_nat (length bs) # bs @ replicate (63 - length bs) 0, Suc g, r)),
      rsa_pkcs1_decrypt = (\<lambda>bs n g r. (0, case bs of [] \<Rightarrow> [] | c # cs \<Rightarrow> take (unat c) cs, Suc g, r)),
      mpi_read_string = (\<lambda>bs. (0, bs = [49])),
      mpi_write_string = (\<lambda>m n. if n < 2 then (-8, []) else (0, [if m then 49 else 48, 0])),
      drbg_init = 0,
      ctr_drbg_seed = (\<lambda>poll g. (0, 1)),
      may_alloc = (\<lambda>held n. True)\<rparr>"

lemma demo_ok: "mbed_ok demo_mbedtls" "mpi_text_ok demo_mbedtls"
  "length (snd (rsa_export_pub demo_mbedtls r)) = 2"
  by (auto simp: demo_mbedtls_def mbed_ok_def mpi_text_ok_def split: list.splits bool.splits)

definition demo_layout :: ram_layout where
  "demo_layout =
     \<lparr>ram_start = 0x20030000, ram_end = 0x20040000, stack_end = 0x20032000,
      after_restart = (\<lambda>bs. bs), stack_bytes = (\<lambda>n. replicate n 0)\<rparr>"

text \<open>Alice has generated a key.\<close>

definition demo_rsa :: "(bool list, nat, bool) rsa_sys" where
  "demo_rsa = (rsa_start demo_mbedtls demo_layout)
     \<lparr>keys := [[0, 0, 0, 0], [1, 0, 0, 0]],
      tls := \<lparr>rsa_contexts = [[True, True, True, True, True], [], [], []], tlsbox_drbg_initialized = True,
        tlsbox_drbg = 2, temps = [], mpis = []\<rparr>\<rparr>"

text \<open>Evaluation of calls on it, by rewriting.\<close>

lemma read_mpis_counts:
  "read_mpis M room 2 key = read_mpis M room (Suc (Suc 0)) key"
  "read_mpis M room 5 key = read_mpis M room (Suc (Suc (Suc (Suc (Suc 0))))) key"
  by (simp_all only: eval_nat_numeral BitM.simps)

lemmas rsa_eval = demo_rsa_def rsa_start_def demo_mbedtls_def demo_layout_def tls_fresh_def
  SYS_KEY_COUNT_def SYS_KEY_SIZE_def TLSBOX_KEY_COUNT_def fail_with_def Let_def plain_def
  sys_rsa_genkey_def sys_rsa_freekey_def sys_rsa_getpubkey_def sys_rsa_getprivkey_def
  sys_rsa_frompubkey_def sys_rsa_fromprivkey_def sys_rsa_pkcs1_encrypt_def sys_rsa_pkcs1_decrypt_def
  fetch_text_def store_text_def with_tlsbuffer_def tlsbox_push_def tlsbox_pop_def box1_push_def
  box1_pop_def size_words_def set_new_key_def sys_setkey_def sys_getkey_def sys_delkey_def
  tls_call_def tls_import_def c_text_def overlay_def
  tlsbox_rsa_findnextkey_def tlsbox_rsa_fromkey_def tlsbox_rsa_genkey_def tlsbox_rsa_freekey_def
  tlsbox_rsa_getpubkey_def tlsbox_rsa_getprivkey_def write_key_def tlsbox_rsa_frompubkey_def
  tlsbox_rsa_fromprivkey_def read_key_def tlsbox_rsa_pkcs1_encrypt_def tlsbox_rsa_pkcs1_decrypt_def
  read_mpis_counts

lemma demo_rsa_sound: "sound_sys demo_mbedtls demo_rsa"
  by (auto simp: keys_sound_def demo_rsa_def rsa_start_def holds_def demo_mbedtls_def SYS_KEY_COUNT_def
      TLSBOX_KEY_COUNT_def less_Suc_eq numeral_eq_Suc split: if_splits)

subsection \<open>The properties\<close>



text \<open>C9: mbedtls documents that completing an imported key does not check it. When a box imports a public
  key that completes but fails the check (one that is too short), its slot still counts as free; a key
  that the other box generates next goes to the same slot. The number of the first box then gives the
  private key of the other box.\<close>

theorem rsa_weak_import_shares:
  assumes ok: "mbed_ok M" and sound: "sound_sys M s" and up: "bs_initialized (tls_state s)" "fates s = []"
    and boxes: "b < 2" "c < 2" "b \<noteq> c"
    and imp: "sys_rsa_frompubkey M P b buffer sz s = (Inr (k, bs), s1)" "0 < k"
    and weak: "rsa_check_pubkey M (rsa_contexts (tls s1) ! nat (sys_getkey b k (keys s1) - 1)) = key_check_failed M"
    and gen: "sys_rsa_genkey M P c n e s1 = (Inr (k', bs'), s2)" "0 < k'"
  shows "sys_getkey b k (keys s2) = sys_getkey c k' (keys s2) \<and>
    sys_rsa_getprivkey M P b k len s2 = sys_rsa_getprivkey M P c k' len s2"
proof -
  have neg: "key_check_failed M < 0" using ok by (simp add: mbed_ok_def)
  have serving: "serving M s = tls s" using up by (simp add: serving_def)
  obtain j r where j: "sys_getkey b k (keys s1) = int j + 1" "j < length (rsa_contexts (tls s))"
      "\<forall>l<j. rsa_check_pubkey M (rsa_contexts (tls s) ! l) \<noteq> key_check_failed M \<and>
        rsa_check_pubkey M (rsa_contexts (tls s) ! l) \<ge> 0"
      "rsa_contexts (tls s1) = (rsa_contexts (tls s))[j := r]"
    and s1: "fates s1 = []" "bs_initialized (tls_state s1)" "length (keys s1) = 2"
      "\<forall>b<2. length (keys s1 ! b) = SYS_KEY_COUNT"
    using import_slot [OF ok sound boxes(1) imp(1) [unfolded sys_rsa_frompubkey_def tlsbox_rsa_frompubkey_def [abs_def]]
        imp(2) import_nonpos(1) [OF ok] up(2)] serving by metis
  have "tlsbox_rsa_findnextkey M (tls s1) = int j + 1"
    using find_key_eq [OF neg, of j "rsa_contexts (tls s1)" 0] j weak
    by (simp add: tlsbox_rsa_findnextkey_def)
  moreover obtain key where key: "tlsbox_rsa_genkey M n e (tls s1) = (key, tls s2)"
    "sys_setkey c key (keys s1) = (k', keys s2)"
    using genkey_made [OF gen s1(2,1)] by blast
  moreover note set = setkey_getkey [OF key(2) gen(2)]
  ultimately have "key = int j + 1"
    using genkey_slot [OF ok key(1)] s1 boxes by simp
  then have "sys_getkey b k (keys s2) = sys_getkey c k' (keys s2)"
    using set s1 boxes j(1) getkey_row [of "keys s2" b "keys s1"] by simp
  then show ?thesis using same_key_same_text by blast
qed

theorem rsa_weak_import_shares_witness:
  "\<exists>s1 s2 bs bs'. sys_rsa_frompubkey demo_mbedtls demo_layout 0 [48, 10, 49, 0] 4 demo_rsa = (Inr (1, bs), s1) \<and>
     sys_rsa_genkey demo_mbedtls demo_layout 1 512 65537 s1 = (Inr (2, bs'), s2) \<and>
     sys_rsa_getprivkey demo_mbedtls demo_layout 0 1 16 s2 = sys_rsa_getprivkey demo_mbedtls demo_layout 1 2 16 s2"
proof -
  let ?M = demo_mbedtls and ?P = demo_layout
  let ?s1 = "snd (sys_rsa_frompubkey ?M ?P 0 [48, 10, 49, 0] 4 demo_rsa)"
  let ?s2 = "snd (sys_rsa_genkey ?M ?P 1 512 65537 ?s1)"
  have "fst (sys_rsa_frompubkey ?M ?P 0 [48, 10, 49, 0] 4 demo_rsa) = Inr (1, [])" by (simp add: rsa_eval)
  then have s1: "sys_rsa_frompubkey ?M ?P 0 [48, 10, 49, 0] 4 demo_rsa = (Inr (1, []), ?s1)"
    by (simp add: prod_eq_iff)
  have "fst (sys_rsa_genkey ?M ?P 1 512 65537 ?s1) = Inr (2, [])" by (simp add: rsa_eval)
  then have s2: "sys_rsa_genkey ?M ?P 1 512 65537 ?s1 = (Inr (2, []), ?s2)"
    by (simp add: prod_eq_iff)
  have up: "bs_initialized (tls_state demo_rsa)" "fates demo_rsa = []" by (simp_all add: rsa_eval)
  have "rsa_check_pubkey ?M (rsa_contexts (tls ?s1) ! nat (sys_getkey 0 1 (keys ?s1) - 1)) = key_check_failed ?M"
    by (simp add: rsa_eval)
  from rsa_weak_import_shares [OF demo_ok(1) demo_rsa_sound up _ _ _ s1 _ this s2]
  show ?thesis using s1 s2 by (intro exI conjI) (assumption | simp)+
qed

text \<open>A key that was written in full.\<close>

lemma write_key_ok:
  assumes "write_key M export key sz t = ((0, bs), t')"
  shows "\<exists>i ms. tlsbox_rsa_fromkey M key t = Inr i \<and> export (rsa_contexts t ! i) = (0, ms) \<and>
    write_mpis M ms (unat sz) = (0, bs) \<and> t' = t"
proof -
  have "e \<noteq> 0" if "tlsbox_rsa_fromkey M key t = Inl e" for e
    using that by (auto simp: tlsbox_rsa_fromkey_def fail_with_def Let_def split: if_splits)
  then obtain i where i: "tlsbox_rsa_fromkey M key t = Inr i"
    using assms by (cases "tlsbox_rsa_fromkey M key t") (auto simp: write_key_def)
  obtain e ms where ms: "export (rsa_contexts t ! i) = (e, ms)" by fastforce
  obtain e' w where w: "write_mpis M ms (unat sz) = (e', w)" by fastforce
  show ?thesis using assms i ms w by (cases "e = 0"; cases "e' = 0") (simp_all add: write_key_def Let_def)
qed

text \<open>The buffer of the caller gets the text that the TLS box wrote.\<close>

lemma fetch_text_got:
  assumes run: "fetch_text M P (write_key M export) box key sz s = (Inr (0, txt), s')"
    and up: "bs_initialized (tls_state s)" "fates s = []"
  obtains i ms bs where "tlsbox_rsa_fromkey M (sys_getkey box key (keys s)) (tls s) = Inr i"
    and "export (rsa_contexts (tls s) ! i) = (0, ms)" and "write_mpis M ms (unat sz) = (0, bs)"
    and "txt = c_text (overlay bs (stack_bytes P (unat sz))) @ [0]"
    and "keys s' = keys s" and "tls s' = tls s" and "fates s' = []" and "bs_initialized (tls_state s')"
proof -
  let ?f = "\<lambda>_ :: bool. write_key M export (sys_getkey box key (keys s)) sz"
  obtain st s1 where st: "bs_initialized st = bs_initialized (tls_state s)"
    and body: "(case tls_call M P ?f (s\<lparr>tls_state := st\<rparr>) of ((err, bs), s) \<Rightarrow>
         if err \<noteq> 0 then ((err, []), s)
         else ((0, c_text (overlay bs (stack_bytes P (unat sz))) @ [0]), s)) = ((0, txt), s1)"
    and s1: "keys s' = keys s1" "tls s' = tls s1" "fates s' = fates s1"
      "bs_initialized (tls_state s') = bs_initialized (tls_state s1)"
    using run unfolding fetch_text_def
    by (rule with_tlsbuffer_run) (auto simp: fail_with_def)
  obtain err bs t where wrote: "write_key M export (sys_getkey box key (keys s)) sz (tls s) = ((err, bs), t)"
    by (metis surj_pair)
  have "tls_call M P ?f (s\<lparr>tls_state := st\<rparr>) = ((err, bs), s\<lparr>tls_state := st, fates := [], tls := t\<rparr>)"
    using up st wrote by (simp add: tls_call_def)
  then have err: "err = 0" and got: "txt = c_text (overlay bs (stack_bytes P (unat sz))) @ [0]"
    and s1': "s1 = s\<lparr>tls_state := st, fates := [], tls := t\<rparr>"
    using body by (auto split: if_splits)
  obtain i ms where "tlsbox_rsa_fromkey M (sys_getkey box key (keys s)) (tls s) = Inr i"
    "export (rsa_contexts (tls s) ! i) = (0, ms)" "write_mpis M ms (unat sz) = (0, bs)" "t = tls s"
    using write_key_ok [OF wrote [unfolded err]] by blast
  then show thesis using that got s1 s1' up st by simp
qed

text \<open>An import that succeeds went all the way.\<close>

lemma read_key_imported:
  assumes ok: "mbed_ok M" and run: "read_key M n imp text t = Some (key, t')" and "0 < key"
    and imp: "\<And>ms r. fst (imp ms r) \<le> 0" and read: "read_mpis M (length text) n text = Some (0, ms)"
  shows "\<exists>r0 r1. imp ms r0 = (0, r1) \<and> rsa_complete M r1 = (0, rsa_contexts t' ! nat (key - 1))"
proof -
  have neg: "key_check_failed M < 0" using ok by (simp add: mbed_ok_def)
  have slot: "tlsbox_rsa_findnextkey M t = key"
    using read_key_slot [OF run \<open>0 < key\<close> ok imp] by blast
  then have len: "nat (key - 1) < length (rsa_contexts t)"
    using findnextkey_cases [OF neg, of t] \<open>0 < key\<close> by auto
  obtain e1 r1 where imp1: "imp ms (rsa_contexts t ! nat (key - 1)) = (e1, r1)" by fastforce
  obtain e2 r2 where comp: "rsa_complete M r1 = (e2, r2)" by fastforce
  have le: "e1 \<le> 0" "e2 \<le> 0"
    using imp [of ms "rsa_contexts t ! nat (key - 1)"] imp1 ok comp unfolding mbed_ok_def
    by (auto dest: spec [of _ r1])
  have "e1 = 0 \<and> e2 = 0 \<and> rsa_contexts t' = (rsa_contexts t)[nat (key - 1) := r2]"
    using run slot \<open>0 < key\<close> read imp1 comp le
    by (auto simp: read_key_def Let_def fail_with_def split: if_splits)
  then show ?thesis using imp1 comp len by (intro exI [of _ "rsa_contexts t ! nat (key - 1)"] exI [of _ r1]) simp
qed

text \<open>The text of a public key that a box fetched, and what an import makes of that text.\<close>

lemma pubkey_fetched:
  assumes mpis: "mpi_text_ok M" and pair: "\<And>r. length (snd (rsa_export_pub M r)) = 2"
    and sound: "sound_sys M s" and up: "bs_initialized (tls_state s)" "fates s = []" and box: "b < 2"
    and get: "sys_rsa_getpubkey M P b key sz s = (Inr (0, txt), s1)"
  obtains r l where "own_key s b key = Some r" and "txt = l @ [0]" and "\<forall>rest. c_text (txt @ rest) = l"
    and "read_mpis M (length l) 2 l = Some (0, snd (rsa_export_pub M r))" and "length txt \<le> unat sz"
    and "keys s1 = keys s" and "tls s1 = tls s" and "fates s1 = []" and "bs_initialized (tls_state s1)"
proof -
  obtain i ms w where got: "tlsbox_rsa_fromkey M (sys_getkey b key (keys s)) (tls s) = Inr i"
    "rsa_export_pub M (rsa_contexts (tls s) ! i) = (0, ms)" "write_mpis M ms (unat sz) = (0, w)"
    "txt = c_text (overlay w (stack_bytes P (unat sz))) @ [0]"
    and s1: "keys s1 = keys s" "tls s1 = tls s" "fates s1 = []" "bs_initialized (tls_state s1)"
    using get up unfolding sys_rsa_getpubkey_def tlsbox_rsa_getpubkey_def [abs_def] by (rule fetch_text_got)
  have two: "length ms = 2" using pair [of "rsa_contexts (tls s) ! i"] got(2) by simp
  obtain l where w: "w = l @ [0]" and c: "\<And>rest. c_text (w @ rest) = l"
    and read: "read_mpis M (length l) 2 l = Some (0, ms)"
    using text_key_read [OF mpis got(3)] two by (metis Suc_1 append_same_eq lessI)
  have same: "txt = w" using got(4) c w by (simp add: overlay_def)
  have "own_key s b key = Some (rsa_contexts (tls s) ! i)"
    using number_resolves [OF sound box, of key] got(1) by (auto split: option.splits)
  then show thesis
    using that [of _ l] w c read same got(2) s1 write_mpis_fits [OF mpis got(3)] by simp
qed

lemma pubkey_imported:
  assumes ok: "mbed_ok M" and sound: "sound_sys M s" and up: "bs_initialized (tls_state s)" "fates s = []"
    and box: "c < 2" and imp: "sys_rsa_frompubkey M P c buffer sz s = (Inr (k, bs), s')" "0 < k"
    and l: "c_text (take (unat sz) buffer @ stack_bytes P (unat sz)) = l"
    and read: "read_mpis M (length l) 2 l = Some (0, ms)"
  obtains key r0 r1 where "sys_getkey c k (keys s') = key" and "0 < key"
    and "rsa_import_pub M ms r0 = (0, r1)" and "rsa_complete M r1 = (0, rsa_contexts (tls s') ! nat (key - 1))"
    and "makes_key M key (rsa_contexts (tls s)) (rsa_contexts (tls s'))"
    and "sys_setkey c key (keys s) = (k, keys s')" and "fates s' = []" and "bs_initialized (tls_state s')"
proof -
  obtain key where made: "tlsbox_rsa_frompubkey M l (tls s) = Some (key, tls s')"
    "sys_setkey c key (keys s) = (k, keys s')" and s': "fates s' = []" "bs_initialized (tls_state s')"
    using store_text_made [OF imp(1) [unfolded sys_rsa_frompubkey_def] imp(2) up(2)] up(1) l
    by (auto simp: serving_def)
  note imported = made(1) [unfolded tlsbox_rsa_frompubkey_def]
  have key: "sys_getkey c k (keys s') = key" "0 \<le> key"
    using setkey_getkey [OF made(2) imp(2)] soundD(1,2) [OF sound] box by auto
  note makes = read_key_makes [OF ok imported import_nonpos(1) [OF ok]]
  then have "0 < key" using key(2) by (auto simp: makes_key_def)
  then show thesis
    using that read_key_imported [OF ok imported _ import_nonpos(1) [OF ok] read] key(1) made(2) makes s' by blast
qed

text \<open>C10: A box that read a public key as text, and handed the text to the other box, gave it the key: the
  numbers that the import puts in the new context are those that were exported, whatever bytes follow the
  text in memory.\<close>

theorem rsa_pubkey_carried:
  assumes mpis: "mpi_text_ok M" and pair: "\<And>r. length (snd (rsa_export_pub M r)) = 2"
    and ok: "mbed_ok M" and sound: "sound_sys M s" and up: "bs_initialized (tls_state s)" "fates s = []"
    and boxes: "b < 2" "c < 2"
    and get: "sys_rsa_getpubkey M P b key sz s = (Inr (0, txt), s1)" and len: "length txt < 2 ^ 32"
    and imp: "sys_rsa_frompubkey M P c (txt @ junk) (word_of_nat (length txt)) s1 = (Inr (k, bs), s2)" "0 < k"
  shows "\<exists>r r0 r1. own_key s b key = Some r \<and>
    rsa_import_pub M (snd (rsa_export_pub M r)) r0 = (0, r1) \<and>
    rsa_complete M r1 = (0, rsa_contexts (tls s2) ! nat (sys_getkey c k (keys s2) - 1))"
proof -
  obtain r l where r: "own_key s b key = Some r" "\<forall>rest. c_text (txt @ rest) = l"
    "read_mpis M (length l) 2 l = Some (0, snd (rsa_export_pub M r))"
    and s1: "keys s1 = keys s" "tls s1 = tls s" "fates s1 = []" "bs_initialized (tls_state s1)"
    using pubkey_fetched [OF mpis pair sound up boxes(1) get] by metis
  have sz: "unat (word_of_nat (length txt) :: u32) = length txt"
    using len by (simp add: unat_of_nat)
  have "sound_sys M s1" using sound s1 by simp
  moreover have "c_text (take (unat (word_of_nat (length txt) :: u32)) (txt @ junk) @
      stack_bytes P (unat (word_of_nat (length txt) :: u32))) = l"
    using r(2) sz by simp
  ultimately show ?thesis
    using pubkey_imported [OF ok _ s1(4,3) boxes(2) imp _ r(3)] r(1) by metis
qed

theorem rsa_pubkey_carried_witness:
  "\<exists>r r0 r1 s1 s2 bs. sys_rsa_getpubkey demo_mbedtls demo_layout 1 1 16 demo_rsa = (Inr (0, [49, 10, 49, 0]), s1) \<and>
     sys_rsa_frompubkey demo_mbedtls demo_layout 0 ([49, 10, 49, 0] @ [7]) 4 s1 = (Inr (1, bs), s2) \<and>
     own_key demo_rsa 1 1 = Some r \<and>
     rsa_import_pub demo_mbedtls (snd (rsa_export_pub demo_mbedtls r)) r0 = (0, r1) \<and>
     rsa_complete demo_mbedtls r1 = (0, rsa_contexts (tls s2) ! nat (sys_getkey 0 1 (keys s2) - 1))"
proof -
  let ?M = demo_mbedtls and ?P = demo_layout and ?txt = "[49, 10, 49, 0] :: u8 list"
  let ?s1 = "snd (sys_rsa_getpubkey ?M ?P 1 1 16 demo_rsa)"
  let ?s2 = "snd (sys_rsa_frompubkey ?M ?P 0 (?txt @ [7]) (word_of_nat (length ?txt)) ?s1)"
  have "fst (sys_rsa_getpubkey ?M ?P 1 1 16 demo_rsa) = Inr (0, ?txt)" by (simp add: rsa_eval)
  then have s1: "sys_rsa_getpubkey ?M ?P 1 1 16 demo_rsa = (Inr (0, ?txt), ?s1)"
    by (simp add: prod_eq_iff)
  have "fst (sys_rsa_frompubkey ?M ?P 0 (?txt @ [7]) (word_of_nat (length ?txt)) ?s1) = Inr (1, [])" by (simp add: rsa_eval)
  then have s2: "sys_rsa_frompubkey ?M ?P 0 (?txt @ [7]) (word_of_nat (length ?txt)) ?s1 = (Inr (1, []), ?s2)"
    by (simp add: prod_eq_iff)
  have up: "bs_initialized (tls_state demo_rsa)" "fates demo_rsa = []" by (simp_all add: rsa_eval)
  from rsa_pubkey_carried [OF demo_ok(2,3,1) demo_rsa_sound up _ _ s1 _ s2]
  obtain r r0 r1 where "own_key demo_rsa 1 1 = Some r"
    "rsa_import_pub ?M (snd (rsa_export_pub ?M r)) r0 = (0, r1)"
    "rsa_complete ?M r1 = (0, rsa_contexts (tls ?s2) ! nat (sys_getkey 0 1 (keys ?s2) - 1))"
    by auto
  moreover have "sys_rsa_frompubkey ?M ?P 0 (?txt @ [7]) 4 ?s1 = (Inr (1, []), ?s2)"
    using s2 by simp
  ultimately show ?thesis using s1 by blast
qed

lemma rsa_restart_shares:
  assumes ok: "mbed_ok M" and rows: "keys_sound M (keys s) cs"
    and down: "\<not> bs_initialized (tls_state s)" "fates s = []"
    and boxes: "b < 2" "c < 2" "b \<noteq> c" and old: "sys_getkey b k (keys s) = 1"
    and imp: "sys_rsa_fromprivkey M P c buffer sz s = (Inr (k', bs), s1)" "0 < k'"
  shows "sys_getkey b k (keys s1) = sys_getkey c k' (keys s1) \<and>
    sys_rsa_getprivkey M P b k len s1 = sys_rsa_getprivkey M P c k' len s1"
proof -
  have serving: "serving M s = tls_fresh M" using down by (simp add: serving_def)
  have zero: "rsa_check_pubkey M (rsa_zero M) = key_check_failed M" using ok by (simp add: mbed_ok_def)
  obtain j where j: "sys_getkey c k' (keys s1) = int j + 1" "j < length (rsa_contexts (tls_fresh M))"
      "\<forall>l<j. rsa_check_pubkey M (rsa_contexts (tls_fresh M) ! l) \<noteq> key_check_failed M \<and>
        rsa_check_pubkey M (rsa_contexts (tls_fresh M) ! l) \<ge> 0"
    and s1: "\<forall>b. b \<noteq> c \<longrightarrow> keys s1 ! b = keys s ! b"
    using import_slot [OF ok rows boxes(2) imp(1) [unfolded sys_rsa_fromprivkey_def tlsbox_rsa_fromprivkey_def [abs_def]]
        imp(2) import_nonpos(2) [OF ok] down(2)] serving by metis
  have "j = 0"
  proof (rule ccontr)
    assume "j \<noteq> 0"
    then show False using j(2,3) zero by (auto simp: tls_fresh_def TLSBOX_KEY_COUNT_def)
  qed
  then have "sys_getkey b k (keys s1) = sys_getkey c k' (keys s1)"
    using j(1) old boxes s1 getkey_row [of "keys s1" b "keys s"] by simp
  then show ?thesis using same_key_same_text by blast
qed

text \<open>A call that restarts the TLS box sets its stack pointer to the end of the stack; the pop that belongs
  to a push before the restart then moves it past the end, to where the heap begins.\<close>

lemma restart_moves_stack:
  assumes run: "store_text M P from box buffer sz s = (Inr (k, bs), s')" "0 < k"
    and down: "\<not> bs_initialized (tls_state s)" "fates s = []"
  shows "bs_sp (tls_state s') = stack_end P + 4 * size_words sz"
  using assms
  by (auto simp: store_text_def with_tlsbuffer_def tlsbox_push_def box1_push_def tlsbox_pop_def
      box1_pop_def set_new_key_def tls_call_def tls_start_def fail_with_def Let_def split: prod.splits if_splits sum.splits)

text \<open>The size of the buffer of an encryption wraps around.\<close>

lemma encrypt_buffer_wraps: "unat (0xffffffd0 + SYS_KEY_SIZE div 8) = 16"
  by (simp add: SYS_KEY_SIZE_def)

end
