(* ===== verification/RsaPeers.thy ===== *)
theory RsaPeers
  imports RsaSharing
begin

text \<open>
  Alice and Bob (examples/armv7m-mpu-rsa/alicebox/main.c and bobbox/main.c, which differ in names and in
  the secret only), and the exports that connect them in examples/armv7m-mpu-rsa/main.c. A box is its
  number, 0 for Bob and 1 for Alice; its state is its data stack, the number of its private key, and
  its public key as text. \<open>heard\<close> has the secret messages that were printed, with the box that
  printed them; the other messages are left out. The calls between Alice and Bob return.
\<close>

record ('r, 'g, 'm) rsa_world =
  rsa :: "('r, 'g, 'm) rsa_sys"
  peer_state :: "box_state list"
  peer_key :: "int list"
  peer_pubkey :: "u8 list list"
  heard :: "(nat \<times> u8 list) list"

type_synonym ('r, 'g, 'm) peer_op =
  "('r, 'g, 'm) rsa_world \<Rightarrow> (box_stop + int \<times> u8 list) \<times> ('r, 'g, 'm) rsa_world"

definition PEER_KEY_SIZE :: u32 where "PEER_KEY_SIZE = 512"
definition PEER_KEY_EXPONENT :: int where "PEER_KEY_EXPONENT = 65537"

abbreviation other_peer :: "nat \<Rightarrow> nat" where
  "other_peer b \<equiv> 1 - b"

text \<open>A call of the system, what follows a call that returned, and what follows one that succeeded.\<close>

definition in_rsa ::
  "(('r, 'g, 'm) rsa_sys \<Rightarrow> (box_stop + int \<times> u8 list) \<times> ('r, 'g, 'm) rsa_sys) \<Rightarrow> ('r, 'g, 'm) peer_op" where
  "in_rsa f w = (case f (rsa w) of (r, s) \<Rightarrow> (r, w\<lparr>rsa := s\<rparr>))"

definition then_do :: "('r, 'g, 'm) peer_op \<Rightarrow> (int \<Rightarrow> u8 list \<Rightarrow> ('r, 'g, 'm) peer_op) \<Rightarrow> ('r, 'g, 'm) peer_op" where
  "then_do f g w =
     (case f w of
        (Inl e, w) \<Rightarrow> (Inl e, w)
      | (Inr (r, bs), w) \<Rightarrow> g r bs w)"

text \<open>An export of a peer initialises the box when it is down: its memory starts over.\<close>

definition peer_call :: "ram_layout \<Rightarrow> nat \<Rightarrow> ('r, 'g, 'm) peer_op \<Rightarrow> ('r, 'g, 'm) peer_op" where
  "peer_call L b f w =
     (if bs_initialized (peer_state w ! b) then f w
      else f (w\<lparr>peer_state := (peer_state w)[b := (peer_state w ! b)
                \<lparr>bs_initialized := True, bs_lr := 0xfffffffd, bs_sp := stack_end L\<rparr>],
               peer_key := (peer_key w)[b := 0], peer_pubkey := (peer_pubkey w)[b := []]\<rparr>))"

text \<open>A buffer on the data stack of a peer.\<close>

definition with_peerbuffer :: "ram_layout \<Rightarrow> nat \<Rightarrow> u32 \<Rightarrow> ('r, 'g, 'm) peer_op \<Rightarrow> ('r, 'g, 'm) peer_op" where
  "with_peerbuffer L b sz body w =
     (case box1_push (ram_start L) sz (peer_state w ! b) of (p, st) \<Rightarrow>
        if p = 0 then (Inr (fail_with ENOMEM, []), w)
        else then_do body (\<lambda>r bs w.
          case box1_pop (ram_end L) sz (peer_state w ! b) of
            Inl e \<Rightarrow> (Inl e, w)
          | Inr st \<Rightarrow> (Inr (r, bs), w\<lparr>peer_state := (peer_state w)[b := st]\<rparr>))
          (w\<lparr>peer_state := (peer_state w)[b := st]\<rparr>))"

subsection \<open>What a peer exports\<close>

definition alicebox_getpubkey :: "('r, 'g, 'm) mbedtls \<Rightarrow> ram_layout \<Rightarrow> nat \<Rightarrow> u32 \<Rightarrow> ('r, 'g, 'm) peer_op" where
  "alicebox_getpubkey M P b sz w =
     then_do (in_rsa (sys_rsa_getpubkey M P b (peer_key w ! b) sz)) (\<lambda>err bs w.
       if err \<noteq> 0 then (Inr (err, []), w) else (Inr (0, bs), w)) w"

text \<open>The message is printed from a buffer of 256 bytes up to its first NUL, however long it is.\<close>

definition alicebox_recv :: "('r, 'g, 'm) mbedtls \<Rightarrow> ram_layout \<Rightarrow> nat \<Rightarrow> u8 list \<Rightarrow> ('r, 'g, 'm) peer_op" where
  "alicebox_recv M P b message w =
     then_do (in_rsa (sys_rsa_pkcs1_decrypt M P b (peer_key w ! b) message 256)) (\<lambda>res out w.
       if res < 0 then (Inr (res, []), w)
       else (Inr (0, []), w\<lparr>heard := heard w @ [(b, c_text (take 256 (overlay out (stack_bytes P 256))))]\<rparr>)) w"

definition alicebox_init :: "('r, 'g, 'm) mbedtls \<Rightarrow> ram_layout \<Rightarrow> nat \<Rightarrow> ('r, 'g, 'm) peer_op" where
  "alicebox_init M P b =
     then_do (in_rsa (sys_rsa_genkey M P b PEER_KEY_SIZE PEER_KEY_EXPONENT)) (\<lambda>nkey bs w.
       if nkey < 0 then (Inr (nkey, []), w)
       else then_do (in_rsa (sys_rsa_getpubkey M P b nkey (4 * (PEER_KEY_SIZE div 8)))) (\<lambda>err bs w.
         if err \<noteq> 0 then (Inr (err, []), w)
         else (Inr (0, []), w\<lparr>peer_pubkey := (peer_pubkey w)[b := bs]\<rparr>))
         (w\<lparr>peer_key := (peer_key w)[b := nkey]\<rparr>))"

subsection \<open>The connections\<close>

text \<open>\<open>c\<close> is the box whose key is asked for, or to which a message is sent.\<close>

definition bobbox_alicebox_getpubkey ::
  "('r, 'g, 'm) mbedtls \<Rightarrow> ram_layout \<Rightarrow> ram_layout \<Rightarrow> nat \<Rightarrow> u32 \<Rightarrow> ('r, 'g, 'm) peer_op"
where
  "bobbox_alicebox_getpubkey M P L c sz =
     with_peerbuffer L c sz (
       then_do (peer_call L c (alicebox_getpubkey M P c sz)) (\<lambda>err bs w.
         if err \<noteq> 0 then (Inr (err, []), w)
         else (Inr (0, take (unat sz) (overlay bs (stack_bytes L (unat sz)))), w)))"

definition alicebox_bobbox_getpubkey where
  "alicebox_bobbox_getpubkey M P L c sz w = bobbox_alicebox_getpubkey M P L c sz w"

definition sys_send_to_alice ::
  "('r, 'g, 'm) mbedtls \<Rightarrow> ram_layout \<Rightarrow> ram_layout \<Rightarrow> nat \<Rightarrow> u8 list \<Rightarrow> u32 \<Rightarrow> ('r, 'g, 'm) peer_op"
where
  "sys_send_to_alice M P L c buffer sz =
     with_peerbuffer L c sz (
       peer_call L c (alicebox_recv M P c (take (unat sz) buffer @ stack_bytes L key_bytes)))"

definition sys_send_to_bob where
  "sys_send_to_bob M P L c buffer sz w = sys_send_to_alice M P L c buffer sz w"

text \<open>What a peer does on its own: it fetches the key of the other one, and sends it the secret, whose
  NUL is part of the message.\<close>

definition alicebox_main ::
  "('r, 'g, 'm) mbedtls \<Rightarrow> ram_layout \<Rightarrow> ram_layout \<Rightarrow> nat \<Rightarrow> u8 list \<Rightarrow> ('r, 'g, 'm) peer_op"
where
  "alicebox_main M P L b secret =
     then_do (bobbox_alicebox_getpubkey M P L (other_peer b) 1024) (\<lambda>err pubkey w.
       if err \<noteq> 0 then (Inr (err, []), w)
       else then_do (in_rsa (sys_rsa_frompubkey M P b pubkey (word_of_nat (length (c_text pubkey) + 1)))) (\<lambda>key bs w.
         if key < 0 then (Inr (key, []), w)
         else then_do (in_rsa (sys_rsa_pkcs1_encrypt M P b key (secret @ [0]) (word_of_nat (length secret + 1)))) (\<lambda>err buffer w.
           if err \<noteq> 0 then (Inr (err, []), w)
           else then_do (sys_send_to_alice M P L (other_peer b) buffer (PEER_KEY_SIZE div 8)) (\<lambda>err bs w.
             if err \<noteq> 0 then (Inr (err, []), w)
             else then_do (in_rsa (sys_rsa_freekey M P b key)) (\<lambda>err bs w.
               if err \<noteq> 0 then (Inr (err, []), w) else (Inr (0, []), w)) w) w) w) w)"

text \<open>Bob's box has the same code.\<close>

definition bobbox_getpubkey where
  "bobbox_getpubkey M P sz w = alicebox_getpubkey M P 0 sz w"

definition bobbox_recv where
  "bobbox_recv M P message w = alicebox_recv M P 0 message w"

definition bobbox_init where
  "bobbox_init M P w = alicebox_init M P 0 w"

definition bobbox_main where
  "bobbox_main M P L secret w = alicebox_main M P L 0 secret w"

text \<open>The run of the example: the results are printed, and nothing depends on them.\<close>

definition rsa_main ::
  "('r, 'g, 'm) mbedtls \<Rightarrow> ram_layout \<Rightarrow> ram_layout \<Rightarrow> u8 list \<Rightarrow> u8 list \<Rightarrow> ('r, 'g, 'm) peer_op"
where
  "rsa_main M P L alice_secret bob_secret =
     then_do (in_rsa (\<lambda>s. case tls_drbg_seed M P s of (r, s) \<Rightarrow> (Inr r, s))) (\<lambda>_ _.
     then_do (peer_call L 0 (bobbox_init M P)) (\<lambda>_ _.
     then_do (peer_call L 1 (alicebox_init M P 1)) (\<lambda>_ _.
     then_do (peer_call L 1 (alicebox_main M P L 1 alice_secret)) (\<lambda>_ _.
     peer_call L 0 (bobbox_main M P L bob_secret)))))"

subsection \<open>Steps of a call that returned\<close>

lemma then_doE:
  assumes "then_do f g w = (Inr q, w')"
  obtains r bs w1 where "f w = (Inr (r, bs), w1)" and "g r bs w1 = (Inr q, w')"
  using assms by (auto simp: then_do_def split: prod.splits sum.splits)

lemma in_rsaE:
  assumes "in_rsa f w = (Inr q, w')"
  obtains "f (rsa w) = (Inr q, rsa w')" and "peer_key w' = peer_key w" and "heard w' = heard w"
    and "peer_state w' = peer_state w"
  using assms by (auto simp: in_rsa_def split: prod.splits)

text \<open>The same but for the data stacks.\<close>

definition same_peers :: "('r, 'g, 'm) rsa_world \<Rightarrow> ('r, 'g, 'm) rsa_world \<Rightarrow> bool" where
  "same_peers w w' \<longleftrightarrow> rsa w' = rsa w \<and> peer_key w' = peer_key w \<and> heard w' = heard w \<and>
     map bs_initialized (peer_state w') = map bs_initialized (peer_state w)"

lemma same_peers_up:
  "same_peers w w' \<Longrightarrow> b < length (peer_state w) \<Longrightarrow>
     bs_initialized (peer_state w' ! b) = bs_initialized (peer_state w ! b)"
  unfolding same_peers_def by (metis length_map nth_map)

lemma same_peers_length: "same_peers w w' \<Longrightarrow> length (peer_state w') = length (peer_state w)"
  unfolding same_peers_def by (metis length_map)

lemma same_peers_update:
  "bs_initialized st = bs_initialized (peer_state w ! b) \<Longrightarrow>
     same_peers w (w\<lparr>peer_state := (peer_state w)[b := st]\<rparr>)"
  by (cases "b < length (peer_state w)")
    (auto simp: same_peers_def map_update list_update_same_conv list_update_beyond)

lemma with_peerbufferE:
  assumes run: "with_peerbuffer L b sz body w = (Inr (r, bs), w')" and r: "0 \<le> r"
  obtains w0 w1 where "same_peers w w0" and "body w0 = (Inr (r, bs), w1)" and "same_peers w1 w'"
proof -
  obtain p st where push: "box1_push (ram_start L) sz (peer_state w ! b) = (p, st)" by fastforce
  have st: "bs_initialized st = bs_initialized (peer_state w ! b)"
    using push by (auto simp: box1_push_def Let_def split: if_splits)
  have "p \<noteq> 0" using run push r by (auto simp: with_peerbuffer_def fail_with_def)
  then obtain r1 bs1 w1 where body: "body (w\<lparr>peer_state := (peer_state w)[b := st]\<rparr>) = (Inr (r1, bs1), w1)"
    and pop: "(case box1_pop (ram_end L) sz (peer_state w1 ! b) of
            Inl e \<Rightarrow> (Inl e, w1)
          | Inr st \<Rightarrow> (Inr (r1, bs1), w1\<lparr>peer_state := (peer_state w1)[b := st]\<rparr>)) = (Inr (r, bs), w')"
    using run push by (auto simp: with_peerbuffer_def elim!: then_doE)
  obtain st' where st': "box1_pop (ram_end L) sz (peer_state w1 ! b) = Inr st'" "r1 = r" "bs1 = bs"
    "w' = w1\<lparr>peer_state := (peer_state w1)[b := st']\<rparr>"
    using pop by (auto split: sum.splits)
  have "bs_initialized st' = bs_initialized (peer_state w1 ! b)"
    using st'(1) by (auto simp: box1_pop_def Let_def split: if_splits)
  then show thesis
    using that [OF same_peers_update [OF st] _] body st'(2-4) same_peers_update by blast
qed

text \<open>The other box gave its key, and got a message.\<close>

lemma peer_gave_key:
  assumes run: "bobbox_alicebox_getpubkey M P L c sz w = (Inr (0, buf), w')"
    and up: "c < length (peer_state w)" "bs_initialized (peer_state w ! c)"
  obtains key_txt where "sys_rsa_getpubkey M P c (peer_key w ! c) sz (rsa w) = (Inr (0, key_txt), rsa w')"
    and "buf = take (unat sz) (overlay key_txt (stack_bytes L (unat sz)))"
    and "peer_key w' = peer_key w" and "heard w' = heard w"
    and "map bs_initialized (peer_state w') = map bs_initialized (peer_state w)"
proof -
  obtain w0 w1 where w0: "same_peers w w0"
    and body: "then_do (peer_call L c (alicebox_getpubkey M P c sz)) (\<lambda>err bs w.
         if err \<noteq> 0 then (Inr (err, []), w)
         else (Inr (0, take (unat sz) (overlay bs (stack_bytes L (unat sz)))), w)) w0 = (Inr (0, buf), w1)"
    and w1: "same_peers w1 w'"
    using with_peerbufferE [OF run [unfolded bobbox_alicebox_getpubkey_def]] by auto
  have call: "peer_call L c f w0 = f w0" for f :: "('a, 'b, 'c) peer_op"
    using same_peers_up [OF w0 up(1)] up(2) by (simp add: peer_call_def)
  obtain key_txt where "in_rsa (sys_rsa_getpubkey M P c (peer_key w0 ! c) sz) w0 = (Inr (0, key_txt), w1)"
    and buf: "buf = take (unat sz) (overlay key_txt (stack_bytes L (unat sz)))"
    using body by (elim then_doE) (auto simp: call alicebox_getpubkey_def elim!: then_doE split: if_splits)
  then show thesis
    using that [OF _ buf] w0 w1 by (auto simp: same_peers_def elim!: in_rsaE)
qed

lemma peer_got_message:
  assumes run: "sys_send_to_alice M P L c buffer sz w = (Inr (0, bs), w')"
    and up: "c < length (peer_state w)" "bs_initialized (peer_state w ! c)"
  obtains res out where "sys_rsa_pkcs1_decrypt M P c (peer_key w ! c)
      (take (unat sz) buffer @ stack_bytes L key_bytes) 256 (rsa w) = (Inr (res, out), rsa w')"
    and "0 \<le> res" and "heard w' = heard w @ [(c, c_text (take 256 (overlay out (stack_bytes P 256))))]"
proof -
  let ?msg = "take (unat sz) buffer @ stack_bytes L key_bytes"
  obtain w0 w1 where w0: "same_peers w w0"
    and body: "peer_call L c (alicebox_recv M P c ?msg) w0 = (Inr (0, bs), w1)"
    and w1: "same_peers w1 w'"
    using with_peerbufferE [OF run [unfolded sys_send_to_alice_def]] by auto
  have call: "peer_call L c f w0 = f w0" for f :: "('a, 'b, 'c) peer_op"
    using same_peers_up [OF w0 up(1)] up(2) by (simp add: peer_call_def)
  obtain res out w2 where "in_rsa (sys_rsa_pkcs1_decrypt M P c (peer_key w0 ! c) ?msg 256) w0 = (Inr (res, out), w2)"
    "0 \<le> res" "w1 = w2\<lparr>heard := heard w2 @ [(c, c_text (take 256 (overlay out (stack_bytes P 256))))]\<rparr>"
    using body unfolding call alicebox_recv_def
    by (elim then_doE) (auto split: if_splits)
  then show thesis
    using that w0 w1 by (auto simp: same_peers_def elim!: in_rsaE)
qed

text \<open>An encryption and a decryption that succeeded.\<close>

lemma encrypt_done:
  assumes run: "sys_rsa_pkcs1_encrypt M P b key input n s = (Inr (0, buf), s')"
    and up: "bs_initialized (tls_state s)" "fates s = []"
  obtains i g out g' r' where "tlsbox_rsa_fromkey M (sys_getkey b key (keys s)) (tls s) = Inr i"
    and "rsa_pkcs1_encrypt M (take (unat n) input) g (rsa_contexts (tls s) ! i) = (0, out, g', r')"
    and "buf = take key_bytes (overlay out (stack_bytes P key_bytes))"
    and "fates s' = []" and "bs_initialized (tls_state s')"
proof -
  let ?k = "sys_getkey b key (keys s)" and ?in = "take (unat n) input"
  let ?f = "\<lambda>restarted. tlsbox_rsa_pkcs1_encrypt M ?k ((if restarted then after_restart P else id) ?in)"
  obtain st s1 where st: "bs_initialized st = bs_initialized (tls_state s)"
    and body: "(case tls_call M P ?f (s\<lparr>tls_state := st\<rparr>) of ((err, out), s) \<Rightarrow>
           if err \<noteq> 0 then ((err, []), s)
           else ((0, take key_bytes (overlay out (stack_bytes P key_bytes))), s)) = ((0, buf), s1)"
    and s1: "fates s' = fates s1" "bs_initialized (tls_state s') = bs_initialized (tls_state s1)"
    using run unfolding sys_rsa_pkcs1_encrypt_def
    by (rule with_tlsbuffer_run) (auto simp: fail_with_def)
  obtain err out t where enc: "tlsbox_rsa_pkcs1_encrypt M ?k ?in (tls s) = ((err, out), t)"
    by (metis surj_pair)
  have call: "tls_call M P ?f (s\<lparr>tls_state := st\<rparr>) = ((err, out), s\<lparr>tls_state := st, fates := [], tls := t\<rparr>)"
    using up st enc by (simp add: tls_call_def)
  then have err: "err = 0" and buf: "buf = take key_bytes (overlay out (stack_bytes P key_bytes))"
    and s1': "s1 = s\<lparr>tls_state := st, fates := [], tls := t\<rparr>"
    using body by (auto split: if_splits)
  obtain i g' r' where "tlsbox_rsa_fromkey M ?k (tls s) = Inr i"
    "rsa_pkcs1_encrypt M ?in (tlsbox_drbg (tls s)) (rsa_contexts (tls s) ! i) = (0, out, g', r')"
    using enc err by (auto simp: tlsbox_rsa_pkcs1_encrypt_def tlsbox_rsa_fromkey_def fail_with_def Let_def
        split: if_splits sum.splits prod.splits)
  then show thesis using that buf s1 s1' st up by simp
qed

lemma decrypt_done:
  assumes run: "sys_rsa_pkcs1_decrypt M P b key input n s = (Inr (res, buf), s')" and res: "0 \<le> res"
    and up: "bs_initialized (tls_state s)" "fates s = []"
    and neg: "\<And>bs n g r. fst (rsa_pkcs1_decrypt M bs n g r) \<le> 0"
    and key: "tlsbox_rsa_fromkey M (sys_getkey b key (keys s)) (tls s) = Inr i"
  shows "\<exists>g g' r'. rsa_pkcs1_decrypt M (take key_bytes input) n g (rsa_contexts (tls s) ! i) = (0, buf, g', r')"
proof -
  let ?k = "sys_getkey b key (keys s)" and ?in = "take key_bytes input"
  let ?f = "\<lambda>restarted. tlsbox_rsa_pkcs1_decrypt M ?k ((if restarted then after_restart P else id) ?in) n"
  obtain st s1 where st: "bs_initialized st = bs_initialized (tls_state s)"
    and body: "(case tls_call M P ?f (s\<lparr>tls_state := st\<rparr>) of ((res, out), s) \<Rightarrow>
           if res < 0 then ((res, []), s)
           else ((res, take (nat res) (overlay out (stack_bytes P (unat n)))), s)) = ((res, buf), s1)"
    using run unfolding sys_rsa_pkcs1_decrypt_def
    by (rule with_tlsbuffer_run) (use res in \<open>auto simp: fail_with_def\<close>)
  obtain e out t where dec: "tlsbox_rsa_pkcs1_decrypt M ?k ?in n (tls s) = ((e, out), t)"
    by (metis surj_pair)
  have call: "tls_call M P ?f (s\<lparr>tls_state := st\<rparr>) = ((e, out), s\<lparr>tls_state := st, fates := [], tls := t\<rparr>)"
    using up st dec by (simp add: tls_call_def)
  then have e: "e = res" and buf: "buf = take (nat res) (overlay out (stack_bytes P (unat n)))"
    using body res by (auto split: if_splits)
  obtain e' o' g' r' where d: "rsa_pkcs1_decrypt M ?in n (tlsbox_drbg (tls s)) (rsa_contexts (tls s) ! i) = (e', o', g', r')"
    by (metis surj_pair)
  then have "e' \<le> 0" using neg by (metis fst_conv)
  then have "e' = 0" "o' = out" "res = int (length out)"
    using dec e key res d by (auto simp: tlsbox_rsa_pkcs1_decrypt_def fail_with_def Let_def split: if_splits)
  then show ?thesis using d buf by (auto simp: overlay_def)
qed

lemma encrypt_length:
  assumes run: "sys_rsa_pkcs1_encrypt M P b key input n s = (Inr (r, buf), s')"
  shows "length buf \<le> key_bytes"
  using run unfolding sys_rsa_pkcs1_encrypt_def
  by (rule with_tlsbuffer_run) (auto split: prod.splits if_splits)

lemma store_text_nonzero:
  assumes run: "store_text M P from b buffer sz s = (Inr (k, bs), s')"
  shows "k \<noteq> 0"
  using run unfolding store_text_def
  by (rule with_tlsbuffer_run)
    (auto simp: set_new_key_def sys_setkey_def fail_with_def split: prod.splits if_splits option.splits)

subsection \<open>The message arrives\<close>

text \<open>What mbedtls documents of a private key: what is encrypted with an imported copy of its public part
  passes the check, and fills the size of the key, and is decrypted to what it was.\<close>

definition opens :: "('r, 'g, 'm) mbedtls \<Rightarrow> 'r \<Rightarrow> bool" where
  "opens M r \<longleftrightarrow>
     (\<forall>r0 r1 r2. rsa_import_pub M (snd (rsa_export_pub M r)) r0 = (0, r1) \<and> rsa_complete M r1 = (0, r2) \<longrightarrow>
        rsa_check_pubkey M r2 = 0 \<and>
        (\<forall>msg g out g' r'. rsa_pkcs1_encrypt M msg g r2 = (0, out, g', r') \<longrightarrow>
           length out = key_bytes \<and>
           (\<forall>g2 out' g3 r''. rsa_pkcs1_decrypt M out 256 g2 r = (0, out', g3, r'') \<longrightarrow> out' = msg)))"

lemma own_key_cong: "sys_view s' b = sys_view s b \<Longrightarrow> own_key s' b key = own_key s b key"
  by (simp add: own_key_def)

text \<open>Box \<open>b\<close> imports the public part of the key of box \<open>c\<close> and encrypts with it: box \<open>c\<close> opens it.\<close>

lemma sealed_opens:
  assumes ok: "mbed_ok M" and sound: "sound_sys M s" and up: "bs_initialized (tls_state s)" "fates s = []"
    and boxes: "b < 2" "c < 2" "b \<noteq> c" and own: "own_key s c ckey = Some r" and opens: "opens M r"
    and imp: "sys_rsa_frompubkey M P b buffer sz s = (Inr (k, bs), s1)" "0 < k"
    and l: "c_text (take (unat sz) buffer @ stack_bytes P (unat sz)) = l"
    and read: "read_mpis M (length l) 2 l = Some (0, snd (rsa_export_pub M r))"
    and enc: "sys_rsa_pkcs1_encrypt M P b k msg n s1 = (Inr (0, sealed), s2)"
    and dec: "sys_rsa_pkcs1_decrypt M P c ckey (sealed @ rest) 256 s2 = (Inr (res, out), s3)" "0 \<le> res"
  shows "out = take (unat n) msg"
proof -
  obtain key r0 r1 where imported: "sys_getkey b k (keys s1) = key" "0 < key"
      "rsa_import_pub M (snd (rsa_export_pub M r)) r0 = (0, r1)"
      "rsa_complete M r1 = (0, rsa_contexts (tls s1) ! nat (key - 1))"
    and makes: "makes_key M key (rsa_contexts (tls s)) (rsa_contexts (tls s1))"
    and set: "sys_setkey b key (keys s) = (k, keys s1)"
    and up1: "fates s1 = []" "bs_initialized (tls_state s1)"
    by (rule pubkey_imported [OF ok sound up boxes(1) imp l read])
  let ?r2 = "rsa_contexts (tls s1) ! nat (key - 1)"
  have check: "rsa_check_pubkey M ?r2 = 0"
    using opens imported(3,4) unfolding opens_def by blast
  note all = make_sound [OF sound boxes(1) makes set entered_usable [OF sound makes set]]
  have sound1: "sound_sys M s1" and view1: "sys_view s1 c = sys_view s c"
    using all check boxes by auto
  obtain i g w g' r' where sealed: "tlsbox_rsa_fromkey M (sys_getkey b k (keys s1)) (tls s1) = Inr i"
      "rsa_pkcs1_encrypt M (take (unat n) msg) g (rsa_contexts (tls s1) ! i) = (0, w, g', r')"
      "sealed = take key_bytes (overlay w (stack_bytes P key_bytes))"
    and up2: "fates s2 = []" "bs_initialized (tls_state s2)"
    using encrypt_done [OF enc up1(2,1)] .
  have i: "rsa_contexts (tls s1) ! i = ?r2"
    using fromkey_index [OF sealed(1)] imported(1) by simp
  have w: "length w = key_bytes"
    using opens imported(3,4) sealed(2) unfolding opens_def i by blast
  have decrypts: "out' = take (unat n) msg" if "rsa_pkcs1_decrypt M w 256 g2 r = (0, out', g3, r'')" for g2 out' g3 r''
    using opens imported(3,4) sealed(2) that unfolding opens_def i by blast
  have "steady s1" using up1 by (simp add: steady_def)
  note keeps = encrypt_keeps [OF ok sound1 this boxes(1) enc]
  then have "sys_view s2 c = sys_view s c" and sound2: "sound_sys M s2"
    using view1 boxes by (auto simp: keeps_def)
  then have own2: "own_key s2 c ckey = Some r"
    using own own_key_cong by metis
  then obtain j where j: "tlsbox_rsa_fromkey M (sys_getkey c ckey (keys s2)) (tls s2) = Inr j"
    "rsa_contexts (tls s2) ! j = r"
    using number_resolves [OF sound2 boxes(2), of ckey]
    by (cases "tlsbox_rsa_fromkey M (sys_getkey c ckey (keys s2)) (tls s2)") auto
  have neg: "fst (rsa_pkcs1_decrypt M bs n g r) \<le> 0" for bs n g r
    using ok unfolding mbed_ok_def by (metis (no_types, lifting) case_prod_beta)
  obtain g2 g3 r'' where "rsa_pkcs1_decrypt M (take key_bytes (sealed @ rest)) 256 g2 r = (0, out, g3, r'')"
    using decrypt_done [OF dec up2(2,1) neg j(1)] j(2) by auto
  moreover have "take key_bytes (sealed @ rest) = w"
    using w sealed(3) by (simp add: overlay_def)
  ultimately show ?thesis using decrypts by simp
qed

text \<open>C11: When Alice's (or Bob's) program returns 0, the other box has printed her secret, and nothing
  else: the public key that she got as text, her import of it, her encryption and the decryption in the
  other box fit together, through three boxes and the data stacks between them.\<close>

theorem peer_message_arrives:
  assumes ok: "mbed_ok M" and mpis: "mpi_text_ok M" and pair: "\<And>r. length (snd (rsa_export_pub M r)) = 2"
    and sound: "sound_sys M (rsa w)" and up: "bs_initialized (tls_state (rsa w))" "fates (rsa w) = []"
    and b: "b < 2" and peers: "length (peer_state w) = 2" "bs_initialized (peer_state w ! (other_peer b))"
    and own: "own_key (rsa w) (other_peer b) (peer_key w ! (other_peer b)) = Some r" and opens: "opens M r"
    and secret: "list_all (\<lambda>c. c \<noteq> 0) secret" "length secret < 255"
    and run: "alicebox_main M P L b secret w = (Inr (0, bs), w')"
  shows "heard w' = heard w @ [(other_peer b, secret)]"
proof -
  let ?c = "other_peer b" let ?ckey = "peer_key w ! ?c"
  have c: "?c < 2" "b \<noteq> ?c" using b by presburger+
  obtain pubkey w1 key kbs w2 buffer w3 rbs w4 fbs where
    w1: "bobbox_alicebox_getpubkey M P L ?c 1024 w = (Inr (0, pubkey), w1)" and
    w2: "in_rsa (sys_rsa_frompubkey M P b pubkey (word_of_nat (length (c_text pubkey) + 1))) w1 = (Inr (key, kbs), w2)"
      "0 \<le> key" and
    w3: "in_rsa (sys_rsa_pkcs1_encrypt M P b key (secret @ [0]) (word_of_nat (length secret + 1))) w2 = (Inr (0, buffer), w3)" and
    w4: "sys_send_to_alice M P L ?c buffer (PEER_KEY_SIZE div 8) w3 = (Inr (0, rbs), w4)" and
    w5: "in_rsa (sys_rsa_freekey M P b key) w4 = (Inr (0, fbs), w')"
    using run unfolding alicebox_main_def
    by (elim then_doE) (auto elim!: then_doE split: if_splits)
  obtain key_txt where key_txt: "sys_rsa_getpubkey M P ?c ?ckey 1024 (rsa w) = (Inr (0, key_txt), rsa w1)"
    "pubkey = take 1024 (overlay key_txt (stack_bytes L 1024))"
    and same1: "peer_key w1 = peer_key w" "heard w1 = heard w"
      "map bs_initialized (peer_state w1) = map bs_initialized (peer_state w)"
    using peer_gave_key [OF w1] peers c(1) by auto
  obtain r' l where own_r: "own_key (rsa w) ?c ?ckey = Some r'" and l: "key_txt = l @ [0]"
    "\<forall>rest. c_text (key_txt @ rest) = l"
    and read: "read_mpis M (length l) 2 l = Some (0, snd (rsa_export_pub M r'))"
    and fits: "length key_txt \<le> unat (1024 :: u32)"
    and s1: "keys (rsa w1) = keys (rsa w)" "tls (rsa w1) = tls (rsa w)" "fates (rsa w1) = []"
      "bs_initialized (tls_state (rsa w1))"
    by (rule pubkey_fetched [OF mpis pair sound up c(1) key_txt(1)])
  note l3 = fits [simplified]
  have pub: "pubkey = key_txt @ take (1024 - length key_txt) (drop (length key_txt) (stack_bytes L 1024))"
    using key_txt(2) l3 by (simp add: overlay_def)
  then have ctext: "c_text pubkey = l" using l(2) by simp
  have len: "length l + 1 = length key_txt" using l(1) by simp
  have lsz: "unat (word_of_nat (length l + 1) :: u32) = length key_txt"
    unfolding len using l3 by (simp add: unat_of_nat)
  have sound1: "sound_sys M (rsa w1)" using sound s1 by simp
  have imp: "sys_rsa_frompubkey M P b pubkey (word_of_nat (length l + 1)) (rsa w1) = (Inr (key, kbs), rsa w2)"
    using w2(1) unfolding ctext by (auto elim: in_rsaE)
  have enc: "sys_rsa_pkcs1_encrypt M P b key (secret @ [0]) (word_of_nat (length secret + 1)) (rsa w2) = (Inr (0, buffer), rsa w3)"
    using w3 by (auto elim: in_rsaE)
  have same3: "peer_key w3 = peer_key w" "heard w3 = heard w" "peer_state w3 = peer_state w1"
    using in_rsaE [OF w2(1)] in_rsaE [OF w3] same1 by metis+
  have "length (peer_state w3) = length (peer_state w)"
    using same1(3) same3(3) by (metis length_map)
  moreover have "bs_initialized (peer_state w3 ! ?c)"
    using same1(3) same3(3) peers c(1) by (metis length_map nth_map)
  ultimately obtain res out where dec: "sys_rsa_pkcs1_decrypt M P ?c ?ckey
      (take (unat (PEER_KEY_SIZE div 8)) buffer @ stack_bytes L key_bytes) 256 (rsa w3) = (Inr (res, out), rsa w4)"
    "0 \<le> res" and heard: "heard w4 = heard w3 @ [(?c, c_text (take 256 (overlay out (stack_bytes P 256))))]"
    using peer_got_message [OF w4] peers(1) c(1) same3(1) by auto
  have key: "0 < key"
    using store_text_nonzero [OF imp [unfolded sys_rsa_frompubkey_def]] w2(2) by simp
  have same_r: "r = r'" using own own_r by simp
  have own1: "own_key (rsa w1) ?c ?ckey = Some r"
    using own own_key_cong [of "rsa w1" ?c "rsa w"] s1 by simp
  have text1: "c_text (take (unat (word_of_nat (length l + 1) :: u32)) pubkey @
      stack_bytes P (unat (word_of_nat (length l + 1) :: u32))) = l"
    using l(2) pub unfolding lsz by simp
  have "take (unat (PEER_KEY_SIZE div 8)) buffer = buffer"
    using encrypt_length [OF enc] by (simp add: PEER_KEY_SIZE_def SYS_KEY_SIZE_def)
  then have "out = take (unat (word_of_nat (length secret + 1) :: u32)) (secret @ [0])"
    using sealed_opens [OF ok sound1 s1(4,3) b c own1 opens imp key text1 read [folded same_r] enc _ dec(2)] dec(1) by metis
  moreover have "unat (word_of_nat (length secret + 1) :: u32) = length (secret @ [0])"
    using secret(2) by (simp add: unat_of_nat del: of_nat_add of_nat_Suc)
  ultimately have "out = secret @ [0]" by simp
  then have "take 256 (overlay out (stack_bytes P 256)) = secret @ 0 # take (255 - length secret) (drop (length secret + 1) (stack_bytes P 256))"
    using secret(2) by (simp add: overlay_def take_Cons')
  then have "c_text (take 256 (overlay out (stack_bytes P 256))) = secret"
    using takeWhile_stop [OF secret(1)] by (simp add: c_text_def)
  then show ?thesis
    using heard same3(2) in_rsaE [OF w5] by metis
qed

subsection \<open>A run\<close>

definition demo_world :: "(bool list, nat, bool) rsa_world" where
  "demo_world =
     \<lparr>rsa = demo_rsa\<lparr>keys := [[2, 0, 0, 0], [1, 0, 0, 0]],
        tls := (tls demo_rsa)\<lparr>rsa_contexts :=
          [[True, True, True, True, True], [True, False, True, True, True], [], []]\<rparr>\<rparr>,
      peer_state = replicate 2 \<lparr>bs_initialized = True, bs_caller = 0, bs_lr = 0xfffffffd, bs_sp = 0x20032000\<rparr>,
      peer_key = [1, 1], peer_pubkey = [[], []], heard = []\<rparr>"

lemma demo_opens: "opens demo_mbedtls [True, x, y, z, v]"
proof -
  have "unat (word_of_nat (length msg) :: u8) = length msg" if "\<not> 53 < length (msg :: u8 list)" for msg
    using that by (simp add: unat_of_nat)
  then show ?thesis
    by (auto simp: opens_def demo_mbedtls_def SYS_KEY_SIZE_def split: if_splits)
qed

lemmas peer_eval = rsa_eval in_rsa_def then_do_def peer_call_def with_peerbuffer_def
  alicebox_getpubkey_def alicebox_recv_def alicebox_init_def bobbox_alicebox_getpubkey_def
  sys_send_to_alice_def alicebox_main_def PEER_KEY_SIZE_def PEER_KEY_EXPONENT_def
  nth_Cons'

theorem peer_message_arrives_witness:
  "\<exists>bs w'. alicebox_main demo_mbedtls demo_layout demo_layout 1 [104, 105] demo_world = (Inr (0, bs), w') \<and>
     heard w' = [(0, [104, 105])]"
proof -
  let ?r = "alicebox_main demo_mbedtls demo_layout demo_layout 1 [104, 105] demo_world"
  have "fst ?r = Inr (0, [])" by (simp add: demo_world_def peer_eval)
  then have run: "?r = (Inr (0, []), snd ?r)" by (simp add: prod_eq_iff)
  have "sound_sys demo_mbedtls (rsa demo_world)"
    by (auto simp: keys_sound_def demo_world_def demo_rsa_def rsa_start_def holds_def demo_mbedtls_def
        SYS_KEY_COUNT_def TLSBOX_KEY_COUNT_def less_Suc_eq numeral_eq_Suc split: if_splits)
  moreover have "bs_initialized (tls_state (rsa demo_world))" "fates (rsa demo_world) = []"
    "length (peer_state demo_world) = 2" "bs_initialized (peer_state demo_world ! (1 - 1))" "heard demo_world = []"
    by (simp_all add: demo_world_def rsa_eval)
  moreover have "own_key (rsa demo_world) (1 - 1) (peer_key demo_world ! (1 - 1)) = Some [True, False, True, True, True]"
    by (simp add: demo_world_def rsa_eval own_key_def key_view_def)
  ultimately have "heard (snd ?r) = [(0, [104, 105])]"
    using peer_message_arrives [OF demo_ok _ _ _ _ _ _ _ demo_opens _ _ run, of False True True True] by simp
  then show ?thesis using run by blast
qed

lemma replicate_counts: "replicate 2 x = [x, x]" "replicate 4 x = [x, x, x, x]"
  by (simp_all only: eval_nat_numeral BitM.simps replicate.simps)

text \<open>The whole example: both secrets arrive, in this order.\<close>

lemma rsa_main_delivers:
  "heard (snd (rsa_main demo_mbedtls demo_layout demo_layout [104, 105] [121, 111]
     \<lparr>rsa = rsa_start demo_mbedtls demo_layout,
      peer_state = replicate 2 \<lparr>bs_initialized = True, bs_caller = 0, bs_lr = 0xfffffffd, bs_sp = 0x20032000\<rparr>,
      peer_key = [0, 0], peer_pubkey = [[], []], heard = []\<rparr>)) = [(0, [104, 105]), (1, [121, 111])]"
  by (simp add: rsa_main_def bobbox_main_def bobbox_init_def tls_drbg_seed_def tlsbox_drbg_seed_def
      replicate_counts peer_eval)

end
