(* ===== verification/AotReloc.thy ===== *)
theory AotReloc
  imports ByteMem
begin

text \<open>
  Relocation of Thumb code that was compiled ahead of time (extra/wamr-modified/aot_reloc_thumb.c, which
  this repository adds to wamr): calls and jumps are patched to their targets, those to functions of
  the runtime through a table of stubs. Memory is bytes at 32-bit addresses; an instruction of two
  halfwords is at \<open>section + offset\<close>. An error message is a constructor of \<open>aot_error\<close>. The
  addresses of the runtime's functions, the symbols, are a parameter.
\<close>

datatype aot_error = Bad_offset | Plt_addend | Out_of_range | Bad_type
  | Unexpected_end | No_memory | Mmap_failed | Code_size | Code_offset | Unknown_type | Function_size
  | Text_count | Import_symbol | Data_section | Unresolved | Data_name | Data_count | Data_symbol

definition R_ARM_THM_CALL :: u32 where "R_ARM_THM_CALL = 10"
definition R_ARM_THM_JMP24 :: u32 where "R_ARM_THM_JMP24 = 30"
definition R_ARM_ABS32 :: u32 where "R_ARM_ABS32 = 2"

subsection \<open>The code\<close>

text \<open>The name of the target, in lower case and cut to the buffer with its NUL. With a buffer of no
  bytes the count wraps around, and the copy runs off both strings.\<close>

definition to_lower :: "u8 \<Rightarrow> u8" where
  "to_lower c = (if 65 \<le> c \<and> c \<le> 90 then c + 97 - 65 else c)"

definition BUILD_TARGET_THUMB_V4T :: "u8 list" where
  "BUILD_TARGET_THUMB_V4T = [116, 104, 117, 109, 98, 118, 52, 116]"

definition get_current_target :: "u8 list \<Rightarrow> u32 \<Rightarrow> u8 list option" where
  "get_current_target build_target target_buf_size =
     (let s = (if build_target = [84, 72, 85, 77, 66] then BUILD_TARGET_THUMB_V4T else build_target);
          s_size = length s + 1;
          s_size = (if unat target_buf_size < s_size then unat target_buf_size else s_size)
      in if s_size = 0 then None else Some (map to_lower (take (s_size - 1) s) @ [0]))"

definition get_plt_item_size :: u32 where
  "get_plt_item_size = 20"

definition get_plt_table_size :: "nat \<Rightarrow> u32" where
  "get_plt_table_size num = get_plt_item_size * word_of_nat num"

text \<open>The halfwords of a stub and its address.\<close>

definition plt_code :: "u16 list" where
  "plt_code = [0xbf00, 0xb410, 0xa402, 0x6824, 0x46a4, 0xbc10, 0x46e7, 0xbf00]"

definition plt_item :: "u32 \<Rightarrow> u8 list" where
  "plt_item symbol_addr = concat (map (le_bytes 2) plt_code) @ le_bytes 4 symbol_addr"

fun init_plt_table :: "u32 list \<Rightarrow> u32 \<Rightarrow> byte_mem \<Rightarrow> byte_mem" where
  "init_plt_table [] plt m = m"
| "init_plt_table (symbol_addr # syms) plt m =
     init_plt_table syms (plt + get_plt_item_size) (store_bytes m plt (plt_item symbol_addr))"

definition check_reloc_offset :: "u32 \<Rightarrow> u64 \<Rightarrow> u32 \<Rightarrow> bool" where
  "check_reloc_offset target_section_size reloc_offset reloc_data_size \<longleftrightarrow>
     reloc_offset < ucast target_section_size \<and>
     reloc_offset + ucast reloc_data_size \<le> ucast target_section_size"

text \<open>The addend in the instruction, the 22 bits for an offset \<open>r\<close>, and the patched halfwords.\<close>

definition initial_addend :: "u16 \<Rightarrow> u16 \<Rightarrow> u32" where
  "initial_addend h g =
     (let a0 = ucast h AND 0x7FF; a1 = ucast g AND 0x7FF
      in push_bit 12 a0 OR push_bit 1 a1 OR (if a0 AND 0x400 \<noteq> 0 then 0xFF800000 else 0))"

definition patch_high :: "u32 \<Rightarrow> u16 \<Rightarrow> u16" where
  "patch_high r h = h AND NOT 0x7FF OR ucast (drop_bit 12 (r AND 0x01FFFFFE) AND 0x7FF)"

definition patch_low :: "u32 \<Rightarrow> u16 \<Rightarrow> u16" where
  "patch_low r g = g AND NOT 0x7FF OR ucast (drop_bit 1 (r AND 0x01FFFFFE) AND 0x7FF)"

text \<open>\<open>plt\<close> is the end of the code of the module, before which the stubs are; \<open>num\<close> is their number.\<close>

definition reloc_target :: "u32 \<Rightarrow> nat \<Rightarrow> u32 \<Rightarrow> u64 \<Rightarrow> int \<Rightarrow> u32" where
  "reloc_target code_end num symbol_addr reloc_addend symbol_index =
     (if symbol_index < 0 then symbol_addr + ucast reloc_addend
      else code_end - get_plt_table_size num + get_plt_item_size * word_of_int symbol_index + 1)"

definition apply_relocation ::
  "u32 \<Rightarrow> nat \<Rightarrow> u32 \<Rightarrow> u32 \<Rightarrow> u64 \<Rightarrow> u64 \<Rightarrow> u32 \<Rightarrow> u32 \<Rightarrow> int \<Rightarrow> byte_mem \<Rightarrow> aot_error option \<times> byte_mem"
where
  "apply_relocation code_end num target_section_addr target_section_size reloc_offset reloc_addend
     reloc_type symbol_addr symbol_index m =
     (if reloc_type = R_ARM_THM_CALL \<or> reloc_type = R_ARM_THM_JMP24 then
        if \<not> check_reloc_offset target_section_size reloc_offset 4 then (Some Bad_offset, m)
        else
          let reloc_addr = target_section_addr + ucast reloc_offset;
              h = load_le m reloc_addr 2; g = load_le m (reloc_addr + 2) 2
          in if \<not> symbol_index < 0 \<and> reloc_addend > 0 then (Some Plt_addend, m)
             else
               let result = (reloc_target code_end num symbol_addr reloc_addend symbol_index OR 1) -
                     reloc_addr + initial_addend h g
               in if sint result > 4 * (1024 * 1024) \<or> sint result < - 4 * (1024 * 1024)
                  then (Some Out_of_range, m)
                  else (None, store_le (store_le m reloc_addr 2 (patch_high result h)) (reloc_addr + 2) 2
                         (patch_low result g))
      else if reloc_type = R_ARM_ABS32 then (None, m)
      else (Some Bad_type, m))"

subsection \<open>What the processor makes of it\<close>

text \<open>The offset of BL and B.W (encoding T4): \<open>S:I1:I2:imm10:imm11:0\<close>, signed, where \<open>I1\<close> and \<open>I2\<close> are the
  bits \<open>J1\<close> and \<open>J2\<close> of the second halfword where they equal \<open>S\<close>. The target is relative to the address
  of the instruction plus 4.\<close>

definition thumb_offset :: "u16 \<Rightarrow> u16 \<Rightarrow> int" where
  "thumb_offset h g =
     (let s = bit h 10; i1 = (bit g 13 = s); i2 = (bit g 11 = s)
      in (if s then - (2 ^ 24) else 0) + (if i1 then 2 ^ 23 else 0) + (if i2 then 2 ^ 22 else 0) +
         uint (take_bit 10 h) * 2 ^ 12 + uint (take_bit 11 g) * 2)"

definition thumb_target :: "byte_mem \<Rightarrow> u32 \<Rightarrow> u32" where
  "thumb_target m a = a + 4 + word_of_int (thumb_offset (load_le m a 2) (load_le m (a + 2) 2))"

text \<open>A stub: it loads the word at the next multiple of 4 plus 8 into the program counter.\<close>

definition run_stub :: "byte_mem \<Rightarrow> u32 \<Rightarrow> u32 option" where
  "run_stub m p =
     (if map (\<lambda>i. load_le m (p + word_of_nat (2 * i)) 2) [0..<8] = plt_code
      then Some (load_le m ((p + 8 AND NOT 3) + 8) 4) else None)"

subsection \<open>The table of stubs\<close>

lemma store_bytes_append:
  "store_bytes m a (bs @ cs) = store_bytes (store_bytes m a bs) (a + word_of_nat (length bs)) cs"
  by (induction bs arbitrary: m a) (simp_all add: algebra_simps)

lemma load_bytes_slice:
  "d + k \<le> n \<Longrightarrow> load_bytes m (a + word_of_nat d) k = take k (drop d (load_bytes m a n))"
  by (intro nth_equalityI) (simp_all add: algebra_simps)

lemma length_plt_item: "length (plt_item s) = 20"
  by (simp add: plt_item_def plt_code_def)

lemma length_plt_items: "length (concat (map plt_item syms)) = 20 * length syms"
  by (induction syms) (simp_all add: length_plt_item)

lemma init_plt_table_store: "init_plt_table syms plt m = store_bytes m plt (concat (map plt_item syms))"
  by (induction syms arbitrary: plt m)
    (simp_all add: store_bytes_append length_plt_item get_plt_item_size_def)

lemma drop_plt_items:
  "i < length syms \<Longrightarrow> take 20 (drop (20 * i) (concat (map plt_item syms))) = plt_item (syms ! i)"
proof (induction syms arbitrary: i)
  case (Cons s syms)
  then show ?case by (cases i) (simp_all add: length_plt_item)
qed simp

lemma plt_entry:
  assumes "20 * length syms \<le> 2 ^ 32" and "i < length syms"
  shows "load_bytes (init_plt_table syms plt m) (plt + word_of_nat (20 * i)) 20 = plt_item (syms ! i)"
proof -
  have "load_bytes (init_plt_table syms plt m) plt (20 * length syms) = concat (map plt_item syms)"
    unfolding init_plt_table_store by (rule load_store_same) (use assms(1) length_plt_items in auto)
  then show ?thesis
    using assms load_bytes_slice [of "20 * i" 20 "20 * length syms" _ plt] by (simp add: drop_plt_items)
qed

lemma unat_and_3: "unat (w AND 3) = unat w mod 4" for w :: u32
proof -
  have "w AND 3 = take_bit 2 w" by (simp add: take_bit_eq_mask mask_eq_exp_minus_1)
  then have "unat (w AND 3) = take_bit 2 (unat w)" by (simp only: unsigned_take_bit_eq)
  then show ?thesis by (simp add: take_bit_eq_mod)
qed

lemma and_3_add: "w AND 3 = 0 \<Longrightarrow> v AND 3 = 0 \<Longrightarrow> (w + v) AND 3 = 0" for v w :: u32
proof -
  assume "w AND 3 = 0" "v AND 3 = 0"
  then have "4 dvd unat w" "4 dvd unat v"
    using unat_and_3 [of w] unat_and_3 [of v] by (simp_all add: mod_eq_0_iff_dvd [symmetric])
  then have "4 dvd (unat w + unat v) mod 2 ^ 32" by (intro dvd_mod) simp_all
  then have "unat ((w + v) AND 3) = 0" by (simp add: unat_and_3 unat_word_ariths mod_eq_0_iff_dvd)
  then show ?thesis by (simp only: unat_eq_0)
qed

lemma aligned_4: "w AND 3 = 0 \<Longrightarrow> w AND NOT 3 = w" for w :: u32
proof -
  assume zero: "w AND 3 = 0"
  have "w = (w AND 3) OR (w AND NOT 3)" by (rule bit_word_eqI) (auto simp: bit_simps)
  then show ?thesis using zero by simp
qed

lemma plt_item_half:
  "i < 8 \<Longrightarrow> take 2 (drop (2 * i) (plt_item s)) = le_bytes 2 (plt_code ! i)"
  by (auto simp: plt_item_def plt_code_def less_Suc_eq eval_nat_numeral)

lemma run_stub_item:
  assumes item: "load_bytes m p 20 = plt_item s" and aligned: "p AND 3 = 0"
  shows "run_stub m p = Some s"
proof -
  have "load_le m (p + word_of_nat (2 * i)) 2 = plt_code ! i" if "i < 8" for i
    using load_bytes_slice [of "2 * i" 2 20 m p] that plt_item_half [OF that, of s] item
    by (simp add: load_le_def le_word_bytes)
  then have "map (\<lambda>i. load_le m (p + word_of_nat (2 * i)) 2) [0..<8] = plt_code"
    by (intro nth_equalityI) (simp_all add: plt_code_def)
  moreover have "load_le m (p + 16) 4 = s"
    using load_bytes_slice [of 16 4 20 m p] item
    by (simp add: load_le_def plt_item_def plt_code_def le_word_bytes)
  moreover have "p + 8 AND NOT 3 = p + 8" using and_3_add [of p 8] aligned by (intro aligned_4) simp
  ultimately show ?thesis by (simp add: run_stub_def add.assoc)
qed

subsection \<open>Patching\<close>

lemma patch_masks:
  "patch_high r h = h AND NOT (mask 11) OR ucast (drop_bit 12 (r AND push_bit 1 (mask 24)) AND mask 11)"
  "patch_low r g = g AND NOT (mask 11) OR ucast (drop_bit 1 (r AND push_bit 1 (mask 24)) AND mask 11)"
  by (simp_all add: patch_high_def patch_low_def mask_eq_exp_minus_1 push_bit_eq_mult)

lemmas patch_bit_rules = patch_masks bit_or_iff bit_and_iff bit_not_iff bit_mask_iff bit_unsigned_iff
  bit_drop_bit_eq bit_push_bit_iff o_apply

lemma patch_high_bits:
  "n < 16 \<Longrightarrow> bit (patch_high r h) n \<longleftrightarrow> (if n < 11 then bit r (12 + n) else bit h n)"
  unfolding patch_bit_rules by auto

lemma patch_low_bits:
  "n < 16 \<Longrightarrow> bit (patch_low r g) n \<longleftrightarrow> (if n < 11 then bit r (1 + n) else bit g n)"
  unfolding patch_bit_rules by auto

lemma take_patch_high: "uint (take_bit 10 (patch_high r h)) = uint (take_bit 10 (drop_bit 12 r))"
proof -
  have "(ucast (take_bit 10 (patch_high r h)) :: u32) = take_bit 10 (drop_bit 12 r)"
    by (rule bit_word_eqI) (auto simp: bit_take_bit_iff bit_unsigned_iff bit_drop_bit_eq patch_high_bits)
  moreover have "uint (ucast x :: u32) = uint x" for x :: u16 by (simp add: uint_up_ucast is_up)
  ultimately show ?thesis by metis
qed

lemma take_patch_low: "uint (take_bit 11 (patch_low r g)) = uint (take_bit 11 (drop_bit 1 r))"
proof -
  have "(ucast (take_bit 11 (patch_low r g)) :: u32) = take_bit 11 (drop_bit 1 r)"
    by (rule bit_word_eqI) (auto simp: bit_take_bit_iff bit_unsigned_iff bit_drop_bit_eq patch_low_bits)
  moreover have "uint (ucast x :: u32) = uint x" for x :: u16 by (simp add: uint_up_ucast is_up)
  ultimately show ?thesis by metis
qed

text \<open>An offset within 4 MB is what the patched instruction encodes, but for its lowest bit.\<close>

lemma patched_offset:
  assumes low: "- (2 ^ 22) \<le> sint r" and high: "sint r < 2 ^ 22" and J: "bit g 13" "bit g 11"
  shows "thumb_offset (patch_high r h) (patch_low r g) = sint r - sint r mod 2"
proof -
  let ?x = "sint r"
  have bits: "uint (take_bit 10 (drop_bit 12 r)) = ?x div 2 ^ 12 mod 2 ^ 10"
    "uint (take_bit 11 (drop_bit 1 r)) = ?x div 2 mod 2 ^ 11" "bit r 22 = bit ?x 22"
  proof -
    have "uint (take_bit 10 (drop_bit 12 r)) = take_bit 10 (drop_bit 12 ?x)"
      by (rule bit_eqI) (auto simp: bit_simps)
    then show "uint (take_bit 10 (drop_bit 12 r)) = ?x div 2 ^ 12 mod 2 ^ 10"
      by (simp add: take_bit_eq_mod drop_bit_eq_div)
    have "uint (take_bit 11 (drop_bit 1 r)) = take_bit 11 (drop_bit 1 ?x)"
      by (rule bit_eqI) (auto simp: bit_simps)
    then show "uint (take_bit 11 (drop_bit 1 r)) = ?x div 2 mod 2 ^ 11"
      by (simp add: take_bit_eq_mod drop_bit_eq_div)
    show "bit r 22 = bit ?x 22" by (simp add: bit_simps)
  qed
  have quot: "?x div 2 ^ 22 = (if bit ?x 22 then -1 else 0)"
  proof (cases "?x < 0")
    case True
    then have "?x div 2 ^ 22 = -1" using low by simp
    then show ?thesis by (simp add: bit_iff_odd)
  next
    case False
    then have "?x div 2 ^ 22 = 0" using high by simp
    then show ?thesis by (simp add: bit_iff_odd)
  qed
  have mod22: "?x mod 4194304 = 4096 * (?x div 4096 mod 1024) + ?x mod 4096"
    using mod_mult2_eq' [of ?x "2 ^ 12" "2 ^ 10"] by simp
  have mod12: "?x mod 4096 = 2 * (?x div 2 mod 2048) + ?x mod 2"
    using mod_mult2_eq' [of ?x 2 "2 ^ 11"] by simp
  have split: "?x = ?x mod 4194304 + (if bit ?x 22 then - 4194304 else 0)"
  proof -
    have "?x = ?x div 4194304 * 4194304 + ?x mod 4194304" by (rule div_mult_mod_eq [symmetric])
    moreover have "?x div 4194304 = (if bit ?x 22 then - 1 else 0)" using quot by simp
    ultimately show ?thesis by (cases "bit ?x 22") simp_all
  qed
  have "thumb_offset (patch_high r h) (patch_low r g) =
      (if bit ?x 22 then - 4194304 else 0) + ?x div 4096 mod 1024 * 4096 + ?x div 2 mod 2048 * 2"
    using J bits by (simp add: thumb_offset_def Let_def patch_high_bits patch_low_bits take_patch_high
        take_patch_low)
  then show ?thesis using split mod22 mod12 by linarith
qed

subsection \<open>Where the call goes\<close>

lemma apart_halves: "apart a 2 (a + 2) 2" for a :: u32
proof -
  have "\<not> in_range (a + 2) 2 (a + word_of_nat i)" if "i < 2" for i
    using that by (auto simp: in_range_def less_2_cases_iff unsigned_minus_1_eq_mask mask_eq_exp_minus_1)
  then show ?thesis by (simp add: apart_def)
qed

lemma or_1_minus_1: "(w OR 1) - 1 = w AND NOT 1" for w :: u32
proof -
  have "(w AND NOT 1) OR 1 = w OR 1" by (rule bit_word_eqI) (auto simp: bit_simps)
  moreover have "(w AND NOT 1) AND 1 = 0" by (simp add: and.assoc)
  ultimately have eq: "(w AND NOT 1) + 1 = w OR 1" using disjunctive_add_eq_or [of "w AND NOT 1" 1] by simp
  show ?thesis by (simp only: eq [symmetric] add_diff_cancel_right')
qed

lemma odd_result: "even a \<Longrightarrow> odd (sint ((w OR 1) - a + 0xFFFFFFFC))" for a w :: u32
proof -
  assume "even a"
  then have "odd ((w OR 1) - a + 0xFFFFFFFC)" by (simp add: even_or_iff)
  moreover have "odd (sint r) = odd r" for r :: u32
    using bit_sint_iff [of r 0] by (simp add: bit_0)
  ultimately show ?thesis by blast
qed

text \<open>What a relocation that is carried out leaves in memory.\<close>

lemma apply_call:
  assumes "apply_relocation code_end num sec len off addend ty sa index m = (None, m')"
    and "ty = R_ARM_THM_CALL \<or> ty = R_ARM_THM_JMP24"
  defines "a \<equiv> sec + ucast off"
  defines "r \<equiv> (reloc_target code_end num sa addend index OR 1) - a +
    initial_addend (load_le m a 2) (load_le m (a + 2) 2)"
  shows "m' = store_le (store_le m a 2 (patch_high r (load_le m a 2))) (a + 2) 2
      (patch_low r (load_le m (a + 2) 2))"
    and "- (2 ^ 22) \<le> sint r" and "sint r \<le> 2 ^ 22"
  using assms(1,2) unfolding a_def r_def
  by (auto simp: apply_relocation_def Let_def split: if_splits)

theorem thumb_call_reaches:
  assumes ok: "apply_relocation code_end num sec len off addend ty sa index m = (None, m')"
    and ty: "ty = R_ARM_THM_CALL \<or> ty = R_ARM_THM_JMP24"
    and aligned: "even (sec + ucast off)"
    and "initial_addend (load_le m (sec + ucast off) 2) (load_le m (sec + ucast off + 2) 2) = 0xFFFFFFFC"
    and J: "bit (load_le m (sec + ucast off + 2) 2 :: u16) 13" "bit (load_le m (sec + ucast off + 2) 2 :: u16) 11"
  shows "thumb_target m' (sec + ucast off) = reloc_target code_end num sa addend index AND NOT 1"
    and "\<not> in_range (sec + ucast off) 4 x \<Longrightarrow> m' x = m x"
proof -
  define a where "a = sec + ucast off"
  define T where "T = reloc_target code_end num sa addend index"
  define r where "r = (T OR 1) - a + 0xFFFFFFFC"
  let ?h = "load_le m a 2 :: u16" let ?g = "load_le m (a + 2) 2 :: u16"
  note call = apply_call [OF ok ty, folded a_def T_def, unfolded assms(4) [folded a_def], folded r_def]
  have odd: "odd (sint r)" unfolding r_def using aligned by (intro odd_result) (simp add: a_def)
  then have "sint r \<noteq> 2 ^ 22" by auto
  then have high: "sint r < 2 ^ 22" using call(3) by linarith
  have "load_le m' a 2 = patch_high r ?h" "load_le m' (a + 2) 2 = patch_low r ?g"
    unfolding call(1) by (simp_all add: load_store_le load_store_le_apart apart_halves)
  then have "thumb_target m' a = a + 4 + word_of_int (sint r - sint r mod 2)"
    using patched_offset [OF call(2) high] J unfolding thumb_target_def a_def by simp
  also have "\<dots> = (T OR 1) - 1" using odd by (simp add: odd_iff_mod_2_eq_one r_def)
  finally show "thumb_target m' (sec + ucast off) = T AND NOT 1" by (simp add: a_def or_1_minus_1)
  assume "\<not> in_range (sec + ucast off) 4 x"
  then have "\<not> in_range a 2 x" "\<not> in_range (a + 2) 2 x"
    using in_range_mono [of a 2 x 4] in_range_sub [of a 2 2 x 4] by (auto simp: a_def)
  then show "m' x = m x" unfolding call(1) store_le_def by (simp add: store_outside)
qed

end
