(* ===== verification/AotLoader.thy ===== *)
theory AotLoader
  imports AotReloc
begin

text \<open>
  The part of the loader of ahead-of-time compiled modules that places and relocates code
  (extra/wamr-modified/aot/aot_loader.c): the text section with its table of stubs, the function
  section, and the relocations of text and data. A section is the bytes from \<open>buf\<close> up to
  \<open>buf_end\<close>. \<open>alloc\<close> tells whether the heap has so many bytes left, \<open>syms\<close> is the table of the
  runtime's functions, and \<open>None\<close> is a read outside of an array.
\<close>

record aot_module =
  func_count :: u32
  func_type_count :: u32
  import_func_count :: u32
  start_func_index :: u32
  literal_addr :: u32
  literal_size :: u32
  code_addr :: u32
  code_size :: u32
  func_ptrs :: "u32 list"
  func_type_indexes :: "u32 list"
  start_function :: u32
  data_sections :: "(string \<times> u32 \<times> u32) list"

record aot_relocation =
  relocation_offset :: u64
  relocation_addend :: u64
  relocation_type :: u32
  symbol_name :: string

type_synonym symbol_map = "(string \<times> u32) list"

subsection \<open>Reading\<close>

definition check_buf :: "u32 \<Rightarrow> u32 \<Rightarrow> u32 \<Rightarrow> bool" where
  "check_buf buf buf_end len \<longleftrightarrow> \<not> buf + len > buf_end"

definition align_ptr :: "u32 \<Rightarrow> u32 \<Rightarrow> u32" where
  "align_ptr p b = (let m = b - 1 in p + m AND NOT m)"

definition read_uint32 :: "byte_mem \<Rightarrow> u32 \<Rightarrow> u32 \<Rightarrow> (u32 \<times> u32) option" where
  "read_uint32 m p p_end =
     (let p = align_ptr p 4 in if check_buf p p_end 4 then Some (load_le m p 4, p + 4) else None)"

definition loader_malloc :: "(u32 \<Rightarrow> bool) \<Rightarrow> u64 \<Rightarrow> bool" where
  "loader_malloc alloc sz \<longleftrightarrow> \<not> (sz \<ge> 0xFFFFFFFF \<or> \<not> alloc (ucast sz))"

subsection \<open>The text section\<close>

text \<open>The section is moved to memory for code, with room for the stubs behind it; \<open>mmap\<close> is the
  memory given for so many bytes.\<close>

definition text_total_size :: "u32 \<Rightarrow> nat \<Rightarrow> u64" where
  "text_total_size section_size num =
     (let total_size = ucast section_size + ucast (get_plt_table_size num)
      in total_size + 3 AND NOT 3)"

definition create_text_section ::
  "(u32 \<Rightarrow> u32 option) \<Rightarrow> nat \<Rightarrow> u32 \<Rightarrow> u32 \<Rightarrow> byte_mem \<Rightarrow> aot_error + (u32 \<times> u32 \<times> byte_mem)"
where
  "create_text_section mmap num body section_size m =
     (if section_size > 0 then
        let total_size = text_total_size section_size num
        in case (if total_size \<ge> 0xFFFFFFFF then None else mmap (ucast total_size)) of
             None \<Rightarrow> Inl Mmap_failed
           | Some aot_text \<Rightarrow>
               let m = mem_copy m aot_text body (unat section_size)
               in if ucast total_size > section_size
                  then Inr (aot_text, ucast total_size,
                    mem_set m (aot_text + section_size) 0 (unat (ucast total_size - section_size :: u32)))
                  else Inr (aot_text, section_size, m)
      else Inr (0, section_size, m))"

definition load_text_section ::
  "symbol_map \<Rightarrow> u32 \<Rightarrow> u32 \<Rightarrow> aot_module \<Rightarrow> byte_mem \<Rightarrow> aot_error + (aot_module \<times> byte_mem)"
where
  "load_text_section syms buf buf_end md m =
     (if func_count md > 0 \<and> buf_end = buf then Inl Code_size
      else case read_uint32 m buf buf_end of
        None \<Rightarrow> Inl Unexpected_end
      | Some (lsize, buf) \<Rightarrow>
          let code = buf + lsize;
              csize = buf_end - code;
              m = (if csize > 0
                   then init_plt_table (map snd syms) (buf_end - get_plt_table_size (length syms)) m else m)
          in Inr (md\<lparr>literal_size := lsize, literal_addr := buf, code_addr := code, code_size := csize\<rparr>, m))"

subsection \<open>The function section\<close>

fun read_func_ptrs :: "byte_mem \<Rightarrow> aot_module \<Rightarrow> nat \<Rightarrow> u32 \<Rightarrow> u32 \<Rightarrow> aot_error + (u32 list \<times> u32)" where
  "read_func_ptrs m md 0 p p_end = Inr ([], p)"
| "read_func_ptrs m md (Suc n) p p_end =
     (case read_uint32 m p p_end of
        None \<Rightarrow> Inl Unexpected_end
      | Some (text_offset, p) \<Rightarrow>
          if text_offset \<ge> code_size md then Inl Code_offset
          else case read_func_ptrs m md n p p_end of
                 Inl e \<Rightarrow> Inl e
               | Inr (fs, p) \<Rightarrow> Inr ((code_addr md + text_offset OR 1) # fs, p))"

fun read_type_indexes :: "byte_mem \<Rightarrow> aot_module \<Rightarrow> nat \<Rightarrow> u32 \<Rightarrow> u32 \<Rightarrow> aot_error + (u32 list \<times> u32)" where
  "read_type_indexes m md 0 p p_end = Inr ([], p)"
| "read_type_indexes m md (Suc n) p p_end =
     (case read_uint32 m p p_end of
        None \<Rightarrow> Inl Unexpected_end
      | Some (ix, p) \<Rightarrow>
          if ix \<ge> func_type_count md then Inl Unknown_type
          else case read_type_indexes m md n p p_end of
                 Inl e \<Rightarrow> Inl e
               | Inr (ixs, p) \<Rightarrow> Inr (ix # ixs, p))"

text \<open>The function that runs first. An import has no code here, so it is skipped.\<close>

definition find_start :: "aot_module \<Rightarrow> u32 list \<Rightarrow> u32 option" where
  "find_start md fs =
     (if start_func_index md \<noteq> -1 then
        if start_func_index md \<ge> import_func_count md then
          let i = unat (start_func_index md - import_func_count md)
          in if i < length fs then Some (fs ! i) else None
        else Some 0
      else Some 0)"

definition load_function_section ::
  "(u32 \<Rightarrow> bool) \<Rightarrow> u32 \<Rightarrow> u32 \<Rightarrow> aot_module \<Rightarrow> byte_mem \<Rightarrow> (aot_error + aot_module) option"
where
  "load_function_section alloc buf buf_end md m =
     (if \<not> loader_malloc alloc (4 * ucast (func_count md)) then Some (Inl No_memory)
      else case read_func_ptrs m md (unat (func_count md)) buf buf_end of
        Inl e \<Rightarrow> Some (Inl e)
      | Inr (fs, p) \<Rightarrow>
          case find_start md fs of
            None \<Rightarrow> None
          | Some start \<Rightarrow> Some
              (if \<not> loader_malloc alloc (4 * ucast (func_count md)) then Inl No_memory
               else case read_type_indexes m md (unat (func_count md)) p buf_end of
                 Inl e \<Rightarrow> Inl e
               | Inr (ixs, p) \<Rightarrow>
                   if p \<noteq> buf_end then Inl Function_size
                   else Inr (md\<lparr>func_ptrs := fs, start_function := start, func_type_indexes := ixs\<rparr>)))"

subsection \<open>Relocation\<close>

fun get_data_section_addr :: "(string \<times> u32 \<times> u32) list \<Rightarrow> string \<Rightarrow> (u32 \<times> u32) option" where
  "get_data_section_addr [] section_name = None"
| "get_data_section_addr ((name, addr, sz) # ds) section_name =
     (if name = section_name then Some (addr, sz) else get_data_section_addr ds section_name)"

fun resolve_target_sym :: "symbol_map \<Rightarrow> int \<Rightarrow> string \<Rightarrow> (u32 \<times> int) option" where
  "resolve_target_sym [] i symbol = None"
| "resolve_target_sym ((name, addr) # syms) i symbol =
     (if name = symbol then Some (addr, i) else resolve_target_sym syms (i + 1) symbol)"

definition is_literal_relocation :: "string \<Rightarrow> bool" where
  "is_literal_relocation reloc_sec_name \<longleftrightarrow> reloc_sec_name = ''.rela.literal''"

text \<open>\<^verbatim>\<open>atoi\<close>: blanks, a sign and digits; a number that is no \<^verbatim>\<open>int\<close> is undefined.\<close>

fun digits :: "int \<Rightarrow> string \<Rightarrow> int" where
  "digits acc [] = acc"
| "digits acc (c # cs) =
     (let d = of_char c - 48 in if 0 \<le> d \<and> d \<le> 9 then digits (10 * acc + d) cs else acc)"

definition is_blank :: "char \<Rightarrow> bool" where
  "is_blank c \<longleftrightarrow> c = CHR '' '' \<or> (9 \<le> (of_char c :: int) \<and> (of_char c :: int) \<le> 13)"

definition atoi :: "string \<Rightarrow> int option" where
  "atoi s =
     (let s = dropWhile is_blank s;
          n = (if s \<noteq> [] \<and> hd s = CHR ''-'' then - digits 0 (tl s)
               else if s \<noteq> [] \<and> hd s = CHR ''+'' then digits 0 (tl s) else digits 0 s)
      in if - (2 ^ 31) \<le> n \<and> n < 2 ^ 31 then Some n else None)"

definition AOT_FUNC_PREFIX :: string where
  "AOT_FUNC_PREFIX = ''aot_func#''"

definition starts_with :: "string \<Rightarrow> string \<Rightarrow> bool" where
  "starts_with pre s \<longleftrightarrow> take (length pre) s = pre"

text \<open>The address of the symbol and its index among the runtime's functions, -1 for another one.\<close>

definition text_symbol ::
  "(u32 \<Rightarrow> bool) \<Rightarrow> symbol_map \<Rightarrow> aot_module \<Rightarrow> string \<Rightarrow> (aot_error + (u32 \<times> int)) option"
where
  "text_symbol alloc syms md symbol =
     (if \<not> length symbol + 1 \<le> 128 \<and> \<not> loader_malloc alloc (word_of_nat (length symbol + 1)) then Some (Inl No_memory)
      else if starts_with AOT_FUNC_PREFIX symbol then
        let p = drop (length AOT_FUNC_PREFIX) symbol
        in if p = [] then Some (Inl Import_symbol)
           else case atoi p of
                  None \<Rightarrow> None
                | Some n \<Rightarrow>
                    let func_index = word_of_int n :: u32
                    in if func_index > func_count md then Some (Inl Import_symbol)
                       else if unat func_index < length (func_ptrs md)
                            then Some (Inr (func_ptrs md ! unat func_index, -1)) else None
      else if symbol = ''.text'' then Some (Inr (code_addr md, -1))
      else if symbol = ''.data'' \<or> symbol = ''.rodata'' \<or> starts_with ''.rodata.cst'' symbol then
        case get_data_section_addr (data_sections md) symbol of
          Some (addr, sz) \<Rightarrow> if addr = 0 then Some (Inl Data_section) else Some (Inr (addr, -1))
        | None \<Rightarrow> Some (Inl Data_section)
      else if symbol = ''.literal'' then Some (Inr (literal_addr md, -1))
      else
        case resolve_target_sym syms 0 symbol of
          Some (addr, index) \<Rightarrow> if addr = 0 then Some (Inl Unresolved) else Some (Inr (addr, index))
        | None \<Rightarrow> Some (Inl Unresolved))"

definition relocate_at ::
  "nat \<Rightarrow> aot_module \<Rightarrow> u32 \<Rightarrow> u32 \<Rightarrow> aot_relocation \<Rightarrow> u32 \<times> int \<Rightarrow> byte_mem \<Rightarrow> aot_error option \<times> byte_mem"
where
  "relocate_at num md addr sz r tgt m =
     apply_relocation (code_addr md + code_size md) num addr sz (relocation_offset r) (relocation_addend r)
       (relocation_type r) (fst tgt) (snd tgt) m"

fun text_relocations ::
  "(u32 \<Rightarrow> bool) \<Rightarrow> symbol_map \<Rightarrow> aot_module \<Rightarrow> u32 \<Rightarrow> u32 \<Rightarrow> aot_relocation list \<Rightarrow> byte_mem \<Rightarrow>
     (aot_error option \<times> byte_mem) option"
where
  "text_relocations alloc syms md addr sz [] m = Some (None, m)"
| "text_relocations alloc syms md addr sz (r # rs) m =
     (case text_symbol alloc syms md (symbol_name r) of
        None \<Rightarrow> None
      | Some (Inl e) \<Rightarrow> Some (Some e, m)
      | Some (Inr tgt) \<Rightarrow>
          case relocate_at (length syms) md addr sz r tgt m of
            (Some e, m) \<Rightarrow> Some (Some e, m)
          | (None, m) \<Rightarrow> text_relocations alloc syms md addr sz rs m)"

definition do_text_relocation ::
  "(u32 \<Rightarrow> bool) \<Rightarrow> symbol_map \<Rightarrow> aot_module \<Rightarrow> string \<Rightarrow> aot_relocation list \<Rightarrow> byte_mem \<Rightarrow>
     (aot_error option \<times> byte_mem) option"
where
  "do_text_relocation alloc syms md section_name rs m =
     (let is_literal = is_literal_relocation section_name;
          aot_text = (if is_literal then literal_addr md else code_addr md);
          aot_text_size = (if is_literal then literal_size md else code_size md)
      in if rs \<noteq> [] \<and> aot_text = 0 then Some (Some Text_count, m)
         else text_relocations alloc syms md aot_text aot_text_size rs m)"

fun data_relocations ::
  "nat \<Rightarrow> aot_module \<Rightarrow> u32 \<Rightarrow> u32 \<Rightarrow> aot_relocation list \<Rightarrow> byte_mem \<Rightarrow> aot_error option \<times> byte_mem"
where
  "data_relocations num md addr sz [] m = (None, m)"
| "data_relocations num md addr sz (r # rs) m =
     (if symbol_name r \<noteq> ''.text'' then (Some Data_symbol, m)
      else case relocate_at num md addr sz r (code_addr md, -1) m of
             (Some e, m) \<Rightarrow> (Some e, m)
           | (None, m) \<Rightarrow> data_relocations num md addr sz rs m)"

definition do_data_relocation ::
  "nat \<Rightarrow> aot_module \<Rightarrow> string \<Rightarrow> aot_relocation list \<Rightarrow> byte_mem \<Rightarrow> aot_error option \<times> byte_mem"
where
  "do_data_relocation num md section_name rs m =
     (let name = (if starts_with ''.rela.'' section_name then Some (drop 5 section_name)
                  else if starts_with ''.rel.'' section_name then Some (drop 4 section_name) else None)
      in case name of
           None \<Rightarrow> (Some Data_name, m)
         | Some data_section_name \<Rightarrow>
             let (data_addr, data_size) =
               (case get_data_section_addr (data_sections md) data_section_name of
                  None \<Rightarrow> (0, 0) | Some found \<Rightarrow> found)
             in if rs \<noteq> [] \<and> data_addr = 0 then (Some Data_count, m)
                else data_relocations num md data_addr data_size rs m)"

subsection \<open>Relocations do not disturb each other\<close>

text \<open>The instruction of a relocation, as the compiler left it: a call with the addend -4.\<close>

definition unpatched :: "byte_mem \<Rightarrow> u32 \<Rightarrow> bool" where
  "unpatched m a \<longleftrightarrow> even a \<and> initial_addend (load_le m a 2) (load_le m (a + 2) 2) = 0xFFFFFFFC \<and>
     bit (load_le m (a + 2) 2 :: u16) 13 \<and> bit (load_le m (a + 2) 2 :: u16) 11"

definition is_call :: "aot_relocation \<Rightarrow> bool" where
  "is_call r \<longleftrightarrow> relocation_type r = R_ARM_THM_CALL \<or> relocation_type r = R_ARM_THM_JMP24"

abbreviation "place addr r \<equiv> addr + ucast (relocation_offset r) :: u32"

lemma apart_iff: "k \<le> 2 ^ 32 \<Longrightarrow> apart a k b l \<longleftrightarrow> (\<forall>x. in_range a k x \<longrightarrow> \<not> in_range b l x)"
proof
  assume "apart a k b l"
  then show "\<forall>x. in_range a k x \<longrightarrow> \<not> in_range b l x" by (auto simp: apart_def elim: in_rangeE)
next
  assume k: "k \<le> 2 ^ 32" and sep: "\<forall>x. in_range a k x \<longrightarrow> \<not> in_range b l x"
  have "in_range a k (a + word_of_nat i)" if "i < k" for i
    using that k in_range_add [of i a k] by linarith
  then show "apart a k b l" using sep by (simp add: apart_def)
qed

lemma load_bytes_same:
  assumes "\<And>x. in_range a k x \<Longrightarrow> m' x = m x" and "k \<le> 2 ^ 32"
  shows "load_bytes m' a k = load_bytes m a k"
proof (rule nth_equalityI)
  fix i assume "i < length (load_bytes m' a k)"
  then have i: "i < k" by simp
  then have "in_range a k (a + word_of_nat i)" using assms(2) in_range_add [of i a k] by linarith
  then show "load_bytes m' a k ! i = load_bytes m a k ! i" using i assms(1) by simp
qed simp

lemma load_le_same: "(\<And>x. in_range a k x \<Longrightarrow> m' x = m x) \<Longrightarrow> k \<le> 2 ^ 32 \<Longrightarrow> load_le m' a k = load_le m a k"
  unfolding load_le_def by (rule arg_cong [where f = le_word]) (rule load_bytes_same)

lemma halves_in_range: "in_range a 2 x \<Longrightarrow> in_range a 4 x" "in_range (a + 2) 2 x \<Longrightarrow> in_range a 4 x"
  using in_range_mono [of a 2 x 4] in_range_sub [of a 2 2 x 4] by simp_all

lemma halves_same:
  assumes "\<And>x. in_range a 4 x \<Longrightarrow> m' x = m x"
  shows "load_le m' a 2 = (load_le m a 2 :: u16)" and "load_le m' (a + 2) 2 = (load_le m (a + 2) 2 :: u16)"
  by (rule load_le_same, rule assms, erule halves_in_range, simp)+

lemma call_same:
  assumes "\<And>x. in_range a 4 x \<Longrightarrow> m' x = m x"
  shows "unpatched m' a = unpatched m a" and "thumb_target m' a = thumb_target m a"
proof -
  have same: "load_le m' a 2 = (load_le m a 2 :: u16)" "load_le m' (a + 2) 2 = (load_le m (a + 2) 2 :: u16)"
    by (rule halves_same, erule assms)+
  show "unpatched m' a = unpatched m a" unfolding unpatched_def same by (rule refl)
  show "thumb_target m' a = thumb_target m a" unfolding thumb_target_def same by (rule refl)
qed

abbreviation "target_of num md tgt r \<equiv>
  reloc_target (code_addr md + code_size md) num (fst tgt) (relocation_addend r) (snd tgt)"

lemma relocate_at_call:
  assumes "relocate_at num md addr sz r tgt m = (None, m')" and "is_call r" and "unpatched m (place addr r)"
  shows "thumb_target m' (place addr r) = target_of num md tgt r AND NOT 1"
    and "\<not> in_range (place addr r) 4 x \<Longrightarrow> m' x = m x"
  using thumb_call_reaches [OF assms(1) [unfolded relocate_at_def]] assms(2,3)
  by (auto simp: is_call_def unpatched_def)

lemma text_relocations_call:
  assumes "text_relocations alloc syms md addr sz rs m = Some (None, m')"
    and "\<forall>r\<in>set rs. is_call r \<and> unpatched m (place addr r)"
    and "sorted_wrt (\<lambda>r s. apart (place addr r) 4 (place addr s) 4) rs"
  shows "(\<forall>r\<in>set rs. \<exists>tgt. text_symbol alloc syms md (symbol_name r) = Some (Inr tgt) \<and>
      thumb_target m' (place addr r) = target_of (length syms) md tgt r AND NOT 1) \<and>
    (\<forall>x. (\<forall>r\<in>set rs. \<not> in_range (place addr r) 4 x) \<longrightarrow> m' x = m x)"
  using assms
proof (induction rs arbitrary: m)
  case (Cons r rs)
  obtain tgt m1 where tgt: "text_symbol alloc syms md (symbol_name r) = Some (Inr tgt)"
    and one: "relocate_at (length syms) md addr sz r tgt m = (None, m1)"
    and rest: "text_relocations alloc syms md addr sz rs m1 = Some (None, m')"
    using Cons.prems(1) by (auto split: option.splits sum.splits prod.splits)
  note call = relocate_at_call [OF one]
  have here: "is_call r" "unpatched m (place addr r)" using Cons.prems(2) by simp_all
  have sep: "\<not> in_range (place addr s) 4 x" if "s \<in> set rs" "in_range (place addr r) 4 x" for s x
    using Cons.prems(3) that by (simp add: apart_iff)
  have "unpatched m1 (place addr s) = unpatched m (place addr s)" if "s \<in> set rs" for s
    using sep [OF that] call(2) [OF here] by (intro call_same(1)) blast
  then have IH: "(\<forall>r\<in>set rs. \<exists>tgt. text_symbol alloc syms md (symbol_name r) = Some (Inr tgt) \<and>
      thumb_target m' (place addr r) = target_of (length syms) md tgt r AND NOT 1) \<and>
    (\<forall>x. (\<forall>r\<in>set rs. \<not> in_range (place addr r) 4 x) \<longrightarrow> m' x = m1 x)"
    using Cons.prems by (intro Cons.IH [OF rest]) auto
  have "thumb_target m' (place addr r) = thumb_target m1 (place addr r)"
    using IH sep by (intro call_same(2)) blast
  then show ?case using IH tgt call [OF here] by (cases tgt) auto
qed simp

subsection \<open>The table of stubs\<close>

lemma resolve_target_sym_nth:
  "resolve_target_sym syms i symbol = Some (addr, j) \<Longrightarrow>
     i \<le> j \<and> nat (j - i) < length syms \<and> syms ! nat (j - i) = (symbol, addr)"
proof (induction syms i symbol rule: resolve_target_sym.induct)
  case (2 name a syms i symbol)
  show ?case
  proof (cases "name = symbol")
    case False
    with 2 have IH: "i + 1 \<le> j \<and> nat (j - (i + 1)) < length syms \<and> syms ! nat (j - (i + 1)) = (symbol, addr)"
      by simp
    then have "i + 1 \<le> j" by blast
    then have "nat (j - i) = Suc (nat (j - (i + 1)))" by arith
    then show ?thesis using IH by simp
  qed (use 2 in simp)
qed simp

lemma text_symbol_runtime:
  assumes "text_symbol alloc syms md symbol = Some (Inr (addr, j))" and "0 \<le> j"
  shows "nat j < length syms" and "snd (syms ! nat j) = addr"
  using assms resolve_target_sym_nth [of syms 0 symbol addr j]
  by (auto simp: text_symbol_def Let_def split: if_splits option.splits prod.splits)

lemma even_and_not_1: "even w \<Longrightarrow> (w + 1) AND NOT 1 = w" for w :: u32
proof -
  assume "even w"
  then have "\<not> bit w 0" by (simp add: bit_0)
  then have "w AND 1 = 0" by (simp add: and_one_eq bit_0 even_iff_mod_2_eq_zero)
  then have "w + 1 = w OR 1" by (rule disjunctive_add_eq_or)
  moreover have "(w OR 1) AND NOT 1 = w AND NOT 1" by (rule bit_word_eqI) (auto simp: bit_simps)
  moreover have "w AND NOT 1 = w"
    using \<open>\<not> bit w 0\<close> by (intro bit_word_eqI) (auto simp: bit_simps intro!: Nat.gr0I)
  ultimately show ?thesis by simp
qed

lemma stub_address: "w AND 3 = 0 \<Longrightarrow> (w + word_of_nat (20 * i)) AND 3 = 0" for w :: u32
proof (induction i)
  case (Suc i)
  then show ?case using and_3_add [of "w + word_of_nat (20 * i)" 20] by (simp add: algebra_simps)
qed simp

lemma and_3_even: "w AND 3 = 0 \<Longrightarrow> even w" for w :: u32
  using even_and_iff [of w 3] by simp

text \<open>C39: After a module is loaded and the relocations of its text are carried out, every call reaches
  its symbol: one of a function of the runtime goes to a stub that jumps to that function's address, any
  other one to the address of the symbol plus the addend. It holds of instructions that the compiler
  left with the addend -4, that do not overlap each other or the table of stubs, in a text that ends at
  a multiple of 4, which \<open>created_text_aligned\<close> shows it does.\<close>

theorem aot_calls_reach:
  assumes load: "load_text_section syms buf buf_end md0 m0 = Inr (md1, m)"
    and md: "code_addr md = code_addr md1" "code_size md = code_size md1" "code_size md > 0"
    and ends: "buf_end AND 3 = 0" "20 * length syms \<le> 2 ^ 32"
    and reloc: "do_text_relocation alloc syms md name rs m = Some (None, m')" "\<not> is_literal_relocation name"
    and calls: "\<forall>r\<in>set rs. is_call r \<and> unpatched m (place (code_addr md) r)"
    and sep: "sorted_wrt (\<lambda>r s. apart (place (code_addr md) r) 4 (place (code_addr md) s) 4) rs"
    and table: "\<forall>r\<in>set rs. apart (place (code_addr md) r) 4 (buf_end - get_plt_table_size (length syms)) (20 * length syms)"
    and r: "r \<in> set rs" "text_symbol alloc syms md (symbol_name r) = Some (Inr (addr, j))"
  shows "if 0 \<le> j then run_stub m' (thumb_target m' (place (code_addr md) r)) = Some addr
    else thumb_target m' (place (code_addr md) r) = addr + ucast (relocation_addend r) AND NOT 1"
proof -
  define plt where "plt = buf_end - get_plt_table_size (length syms)"
  have "(word_of_nat (2 ^ 32 - length syms) :: u32) = - word_of_nat (length syms)"
    using ends(2) by (subst of_nat_diff) (simp_all add: word_exp_length_eq_0)
  then have "plt = buf_end + word_of_nat (20 * (2 ^ 32 - length syms))"
    by (simp add: plt_def get_plt_table_size_def get_plt_item_size_def)
  then have plt: "plt AND 3 = 0" using stub_address [OF ends(1)] by simp
  obtain m2 where m: "m = init_plt_table (map snd syms) plt m2" and ce: "code_addr md + code_size md = buf_end"
    using load md
    by (auto simp: load_text_section_def Let_def plt_def split: if_splits option.splits prod.splits)
  have "text_relocations alloc syms md (code_addr md) (code_size md) rs m = Some (None, m')"
    using reloc by (auto simp: do_text_relocation_def Let_def split: if_splits)
  note all = text_relocations_call [OF this calls sep]
  then have target: "thumb_target m' (place (code_addr md) r) = target_of (length syms) md (addr, j) r AND NOT 1"
    using r by auto
  show ?thesis
  proof (cases "0 \<le> j")
    case True
    define p where "p = plt + word_of_nat (20 * nat j)"
    have j: "nat j < length syms" "snd (syms ! nat j) = addr" using text_symbol_runtime [OF r(2) True] .
    have "p AND 3 = 0" unfolding p_def using plt by (rule stub_address)
    moreover have "load_bytes m p 20 = plt_item addr"
      unfolding m p_def using plt_entry [of "map snd syms" "nat j" plt] ends(2) j by simp
    moreover have "load_bytes m' p 20 = load_bytes m p 20"
    proof (rule load_bytes_same)
      fix x assume "in_range p 20 x"
      moreover have "unat (word_of_nat (20 * nat j) :: u32) = 20 * nat j"
        by (rule unat_of_nat_u32) (use j(1) ends(2) in simp)
      ultimately have x: "in_range plt (20 * length syms) x"
        unfolding p_def using j(1) ends(2) by (elim in_range_sub) simp_all
      have "\<not> in_range (place (code_addr md) s) 4 x" if "s \<in> set rs" for s
        using bspec [OF table that] x by (simp add: apart_iff plt_def [symmetric]) blast
      then show "m' x = m x" using all by blast
    qed simp
    moreover have "target_of (length syms) md (addr, j) r = p + 1"
      using True ce by (simp add: reloc_target_def p_def plt_def get_plt_item_size_def)
    ultimately show ?thesis
      using True target even_and_not_1 [OF and_3_even] run_stub_item by metis
  next
    case False
    then show ?thesis using target by (simp add: reloc_target_def)
  qed
qed

lemma all_less_4: "(\<forall>i<4. P i) \<longleftrightarrow> P 0 \<and> P 1 \<and> P 2 \<and> P 3" for P :: "nat \<Rightarrow> bool"
  by (auto simp: less_Suc_eq eval_nat_numeral)

text \<open>A module with one call of a function of the runtime.\<close>

lemma aot_calls_reach_witness:
  defines "m0 \<equiv> (\<lambda>_. 0)(0x1004 := 0xff, 0x1005 := 0xf7, 0x1006 := 0xfe, 0x1007 := 0xff)"
    and "md0 \<equiv> \<lparr>func_count = 0, func_type_count = 0, import_func_count = 0, start_func_index = -1,
      literal_addr = 0, literal_size = 0, code_addr = 0, code_size = 0, func_ptrs = [],
      func_type_indexes = [], start_function = 0, data_sections = []\<rparr>"
    and "r \<equiv> \<lparr>relocation_offset = 0, relocation_addend = 0, relocation_type = 10, symbol_name = ''memcpy''\<rparr>"
  shows "\<exists>md m m'. load_text_section [(''memcpy'', 0x2001)] 0x1000 0x1020 md0 m0 = Inr (md, m) \<and>
    do_text_relocation (\<lambda>_. True) [(''memcpy'', 0x2001)] md ''.rel.text'' [r] m = Some (None, m') \<and>
    run_stub m' (thumb_target m' 0x1004) = Some 0x2001"
proof -
  define md where "md = md0\<lparr>literal_size := 0, literal_addr := 0x1004, code_addr := 0x1004, code_size := 0x1C\<rparr>"
  define m where "m = init_plt_table [0x2001] 0x100C m0"
  have load: "load_text_section [(''memcpy'', 0x2001)] 0x1000 0x1020 md0 m0 = Inr (md, m)"
    by (simp add: load_text_section_def read_uint32_def check_buf_def align_ptr_def Let_def load_le_def
        load_bytes_def upt_rec md_def m_def md0_def m0_def get_plt_table_size_def get_plt_item_size_def)
  have "load_bytes m 0x1004 4 = [0xff, 0xf7, 0xfe, 0xff]"
    by (simp add: load_bytes_def upt_rec m_def m0_def init_plt_table_store store_bytes_apply length_plt_item
        in_range_def)
  then have halves: "load_le m 0x1004 2 = (0xF7FF :: u16)" "load_le m 0x1006 2 = (0xFFFE :: u16)"
    using load_bytes_slice [of 0 2 4 m "0x1004"] load_bytes_slice [of 2 2 4 m "0x1004"]
    by (simp_all add: load_le_def)
  have sym: "text_symbol (\<lambda>_. True) [(''memcpy'', 0x2001)] md ''memcpy'' = Some (Inr (0x2001, 0))"
    by (simp add: text_symbol_def starts_with_def AOT_FUNC_PREFIX_def loader_malloc_def)
  have add: "initial_addend 0xF7FF 0xFFFE = 0xFFFFFFFC" by (simp add: initial_addend_def)
  obtain m' where reloc: "do_text_relocation (\<lambda>_. True) [(''memcpy'', 0x2001)] md ''.rel.text'' [r] m = Some (None, m')"
    using halves sym add
    by (simp add: do_text_relocation_def is_literal_relocation_def r_def relocate_at_def apply_relocation_def
        R_ARM_THM_CALL_def check_reloc_offset_def reloc_target_def get_plt_table_size_def get_plt_item_size_def Let_def md_def md0_def)
  have "\<forall>i<4. \<not> unat (word_of_nat i - 8 :: u32) < 20" by (simp add: all_less_4)
  then have "run_stub m' (thumb_target m' (place (code_addr md) r)) = Some 0x2001"
    using aot_calls_reach [OF load _ _ _ _ _ reloc, where r = r and addr = "0x2001" and j = 0] sym halves add
    by (simp add: md_def md0_def r_def is_literal_relocation_def unpatched_def is_call_def R_ARM_THM_CALL_def
        get_plt_table_size_def get_plt_item_size_def apart_def in_range_def)
  then show ?thesis using load reloc by (auto simp: md_def md0_def r_def)
qed

subsection \<open>Where the text ends\<close>

lemma not_3_diff: "w AND NOT 3 = w - (w AND 3)" for w :: u64
proof -
  have "(w AND NOT 3) + (w AND 3) = (w AND NOT 3) OR (w AND 3)"
    by (rule disjunctive_add_eq_or, rule bit_word_eqI) (auto simp: bit_simps)
  also have "\<dots> = w" by (rule bit_word_eqI) (auto simp: bit_simps)
  finally show ?thesis by (simp add: eq_diff_eq)
qed

lemma unat_and_3_le: "unat (w AND 3) \<le> 3 \<and> unat (w AND 3) \<le> unat w" for w :: u64
proof -
  have "w AND 3 = take_bit 2 w" by (simp add: take_bit_eq_mask mask_eq_exp_minus_1)
  then have "unat (w AND 3) = take_bit 2 (unat w)" by (simp only: unsigned_take_bit_eq)
  then show ?thesis by (simp add: take_bit_eq_mod)
qed

lemma unat_ucast_u64: "unat (ucast x :: u64) = unat x" for x :: u32
  using unat_u32_less [of x] by (simp add: unsigned_ucast_eq take_bit_nat_eq_self)

lemma text_total_size_ge: "unat section_size \<le> unat (text_total_size section_size num)"
proof -
  define s where "s = (ucast section_size :: u64)"
  define t where "t = (ucast (get_plt_table_size num) :: u64)"
  have s: "unat s = unat section_size" "unat s < 2 ^ 32" and t: "unat t < 2 ^ 32"
    using unat_u32_less [of section_size] unat_u32_less [of "get_plt_table_size num"]
    by (simp_all add: s_def t_def unat_ucast_u64)
  have "unat (s + t) = unat s + unat t" using s t by (simp add: unat_word_ariths)
  moreover have "unat (s + t + 3) = unat s + unat t + 3" using s t by (simp add: unat_word_ariths)
  moreover have "unat (s + t + 3 AND NOT 3) = unat (s + t + 3) - unat ((s + t + 3) AND 3)"
    unfolding not_3_diff by (rule unat_sub) (simp add: word_le_nat_alt unat_and_3_le)
  moreover have "text_total_size section_size num = (s + t + 3 AND NOT 3)"
    by (simp add: text_total_size_def s_def t_def Let_def)
  ultimately show ?thesis using unat_and_3_le [of "s + t + 3"] s(1) by (simp only:) linarith
qed

text \<open>If the memory for code starts at a multiple of 4 the text ends at one, whatever its size.\<close>

lemma created_text_aligned:
  assumes "create_text_section mmap num body section_size m = Inr (aot_text, sz, m')"
    and "0 < section_size" and mmap: "\<And>n a. mmap n = Some a \<Longrightarrow> a AND 3 = 0"
  shows "(aot_text + sz) AND 3 = 0"
proof -
  define total where "total = text_total_size section_size num"
  have small: "total < 0xFFFFFFFF" and given: "mmap (ucast total) = Some aot_text"
    and sz: "sz = (if ucast total > section_size then ucast total else section_size)"
    using assms(1,2)
    by (auto simp: create_text_section_def Let_def total_def not_le split: if_splits option.splits)
  have "unat (ucast total :: u32) = unat total"
    using small by (simp add: unsigned_ucast_eq take_bit_nat_eq_self word_less_nat_alt)
  then have "section_size \<le> ucast total"
    using text_total_size_ge [of section_size num] by (simp add: word_le_nat_alt total_def)
  then have "sz = ucast total" using sz by auto
  moreover have "(ucast total :: u32) AND 3 = 0"
    by (rule bit_word_eqI) (auto simp: total_def text_total_size_def Let_def bit_simps)
  ultimately show ?thesis using and_3_add mmap [OF given] by simp
qed

subsection \<open>Functions\<close>

lemma read_func_ptrs_code:
  "read_func_ptrs m md n p p_end = Inr (fs, q) \<Longrightarrow>
     length fs = n \<and> (\<forall>f\<in>set fs. \<exists>d < code_size md. f = code_addr md + d OR 1)"
  by (induction m md n p p_end arbitrary: fs q rule: read_func_ptrs.induct)
    (auto simp: not_le split: option.splits if_splits sum.splits prod.splits)

lemma read_type_indexes_valid:
  "read_type_indexes m md n p p_end = Inr (ixs, q) \<Longrightarrow>
     length ixs = n \<and> (\<forall>ix\<in>set ixs. ix < func_type_count md)"
  by (induction m md n p p_end arbitrary: ixs q rule: read_type_indexes.induct)
    (auto simp: not_le split: option.splits if_splits sum.splits prod.splits)

theorem loaded_functions_valid:
  assumes "load_function_section alloc buf buf_end md m = Some (Inr md')"
  shows "length (func_ptrs md') = unat (func_count md)"
    and "length (func_type_indexes md') = unat (func_count md)"
    and "f \<in> set (func_ptrs md') \<Longrightarrow> odd f \<and> (\<exists>d < code_size md. f = code_addr md + d OR 1)"
    and "ix \<in> set (func_type_indexes md') \<Longrightarrow> ix < func_type_count md"
    and "start_function md' = 0 \<or> start_function md' \<in> set (func_ptrs md')"
proof -
  obtain fs p start ixs q where fs: "read_func_ptrs m md (unat (func_count md)) buf buf_end = Inr (fs, p)"
    and start: "find_start md fs = Some start"
    and ixs: "read_type_indexes m md (unat (func_count md)) p buf_end = Inr (ixs, q)"
    and md': "md' = md\<lparr>func_ptrs := fs, start_function := start, func_type_indexes := ixs\<rparr>"
    using assms by (auto simp: load_function_section_def split: if_splits sum.splits prod.splits option.splits)
  note valid = read_func_ptrs_code [OF fs] read_type_indexes_valid [OF ixs]
  show "length (func_ptrs md') = unat (func_count md)" "length (func_type_indexes md') = unat (func_count md)"
    "ix \<in> set (func_type_indexes md') \<Longrightarrow> ix < func_type_count md"
    using valid by (simp_all add: md')
  show "f \<in> set (func_ptrs md') \<Longrightarrow> odd f \<and> (\<exists>d < code_size md. f = code_addr md + d OR 1)"
    using valid by (auto simp: md' even_or_iff)
  show "start_function md' = 0 \<or> start_function md' \<in> set (func_ptrs md')"
    using start by (auto simp: md' find_start_def Let_def split: if_splits)
qed

subsection \<open>What the checks miss\<close>

text \<open>The end of a section is compared after a sum that wraps around.\<close>

lemma check_buf_wraps:
  assumes "len > buf_end - buf" and "buf \<le> buf_end" and "buf + len < buf"
  shows "check_buf buf buf_end len"
  using assms unfolding check_buf_def by auto

text \<open>The size of the literals is not compared with the size of the section: the code then starts behind
  the end and has a size near 4 GB, within which every offset of a function and of a relocation is
  accepted.\<close>

lemma literal_size_unchecked:
  assumes "0 < func_count md" and "buf \<noteq> buf_end" and "read_uint32 m buf buf_end = Some (lsize, body)"
    and "body \<le> buf_end" and "lsize > buf_end - body"
  shows "\<exists>md' m'. load_text_section syms buf buf_end md m = Inr (md', m') \<and>
    code_addr md' = body + lsize \<and> unat (code_size md') = 2 ^ 32 - (unat lsize - unat (buf_end - body))"
proof -
  have "unat (buf_end - body - lsize) = 2 ^ 32 - (unat lsize - unat (buf_end - body))"
    using assms(5) by (subst unat_sub_if') (auto simp: word_le_nat_alt word_less_nat_alt)
  then have "unat (buf_end - (body + lsize)) = 2 ^ 32 - (unat lsize - unat (buf_end - body))"
    by (simp only: diff_diff_eq)
  then show ?thesis using assms(2,3) by (auto simp: load_text_section_def Let_def)
qed

text \<open>A symbol for the function behind the last one passes its check, and the address is read from behind
  the array.\<close>

lemma length_AOT_FUNC_PREFIX: "length AOT_FUNC_PREFIX = 9"
  by (simp add: AOT_FUNC_PREFIX_def)

lemma function_behind_last:
  assumes "starts_with AOT_FUNC_PREFIX symbol" and "length symbol < 128" and "drop 9 symbol \<noteq> []"
    and "atoi (drop 9 symbol) = Some n" and "word_of_int n = func_count md"
    and "length (func_ptrs md) = unat (func_count md)"
  shows "text_symbol alloc syms md symbol = None"
  using assms by (simp add: text_symbol_def Let_def length_AOT_FUNC_PREFIX)

text \<open>Absolute relocations, such as those of a table of addresses in the data, are accepted and not carried
  out.\<close>

lemma absolute_skipped:
  assumes "\<forall>r\<in>set rs. relocation_type r = R_ARM_ABS32 \<and> symbol_name r = ''.text''"
  shows "data_relocations num md addr sz rs m = (None, m)"
  using assms
  by (induction rs) (simp_all add: relocate_at_def apply_relocation_def R_ARM_THM_CALL_def
      R_ARM_THM_JMP24_def R_ARM_ABS32_def)

end
