(* ===== verification/Spec2Isabelle.thy ===== *)
theory Spec2Isabelle
  imports BoxErrors GlzDecoder GlzUnsafe GlzStream GlzSeek BoxGate BoxStartup BoxLifecycle
    JumptableRuntime BoxPrintfProps BdLoader GlzLoader FsLoader FsGlzLoader BdGlzLoader Qsort
    MultiQsort WasmHeapProps WasmNumeric WasmMemory AwsmHost WamrHost Wasm3Host RamDisk LfsBox
    CBox Maze RsaPeers AotLoader
begin

text \<open>
  Verification of bento-linker. The tool (Python, under bento/) generates the glue that links a
  host program and isolated boxes on a microcontroller; this library verifies that glue, as it
  is committed in the examples, with the GLZ decompressor (extra/glz/examples) and some of the
  programs that run in boxes. All of it is C for 32-bit Arm: \<open>size_t\<close>, pointers and \<open>uint32_t\<close>
  are \<open>32 word\<close> with wrap-around wherever the code can overflow; a C \<open>int\<close> that carries an error
  number or a count is an \<open>int\<close>.

  \<^bold>\<open>The parts and how they interact.\<close> The host starts in the reset handler, prints through the
  formatter to the UART hook, and calls an export of a box. The export initialises the box on
  first use: the MPU driver is set up, boxes that overlap are brought down, a loader puts the
  image of the box in its RAM (from flash, a block device or a file, plain or compressed), and
  the box's own init runs. A call is a jump to an address that faults; the fault handler is
  the gateway, which saves the caller, switches the MPU regions and enters the box. A return
  or a fault of the box comes back the same way. In the jumptable runtime there is no MPU: a
  call goes through a table and an abort is a \<^verbatim>\<open>longjmp\<close>. A box can also be WebAssembly: compiled
  ahead of time by awsm and called through a table, or run by one of the interpreters wamr and
  wasm3. Its memory is then an array of the host, and what isolates it is the checks of the runtime.

  \<^bold>\<open>Theories and the code they model.\<close>
  \<^item> BoxPrelude: word, list and byte-order facts. BoxErrors: \<^verbatim>\<open>enum box_errors\<close>.
  \<^item> BoxMpu: \<^verbatim>\<open>__box_mpu_init\<close>, \<^verbatim>\<open>__box_mpu_switch\<close> and the region tables of
    examples/armv7m-mpu-hello/bb.c and armv8m-mpu-hello/bb.c. The device is the list of register
    stores; \<open>v7_view\<close> and \<open>v8_view\<close> read the resulting region table. Isolation: what a box may
    write and execute.
  \<^item> BoxCall, BoxCallProps, BoxGate: the gateway, \<^verbatim>\<open>__box_callsetup\<close>, \<^verbatim>\<open>__box_returnsetup\<close>,
    \<^verbatim>\<open>__box_faultsetup\<close> and the assembly handlers around them, over a record of memory, stack
    pointers, callee-saved registers, MPU and box states. Round trip of call and return, errors
    of faults, dispatch, and the regions shown after every exception; the drivers are instances
    of the locale \<open>mpu_port\<close>.
  \<^item> BoxStartup: \<^verbatim>\<open>_sbrk\<close>, aborts, the reset handler, the vector table.
  \<^item> BoxWrite, BoxPrintf, BoxPrintfProps: the UART hook and benchmark clock of
    examples/armv7m-mpu-hello/main.c and \<^verbatim>\<open>__box_cbprintf\<close> with its wrappers. The output is compared
    with a reference formatter; the UART hook is an instance of the locale \<open>full_writer\<close>.
  \<^item> BoxLifecycle: init, clobber, exports and data stack of a box in examples/armv7m-mpu-hello/bb.c.
    JumptableRuntime: the same for examples/jumptable-hello/bb.c. Both are instances of the
    locale \<open>box_life\<close>; the data stack is an instance of \<open>data_stack\<close>.
  \<^item> BoxOverlap: three boxes that share RAM, with the loader as a parameter; the invariant that at
    most one is up; the locale \<open>image_loader\<close>, whose instances are BdLoader (examples/bd),
    GlzLoader (examples/compression), FsLoader (examples/fs) and FsGlzLoader
    (examples/fscompression). BdGlzLoader (examples/bdcompression) is not an instance: its theorems
    say what its buffered read does and why the loader fails.
  \<^item> GlzCore, GlzSpec, GlzRefine, GlzBounds, GlzSim: the decompression loop over abstract accesses,
    the meaning of a blob, and the locales \<open>glz_source\<close> (refinement), \<open>glz_bounded\<close> (memory
    safety) and \<open>glz_sim\<close> (comparison of two copies). GlzDecoder, GlzUnsafe, GlzStream, GlzSeek
    are the files decoder.c, decoder_unsafe.c, decoder_stream.c, decoder_seek.c of
    extra/glz/examples; GlzCallback is the generated copy that reads through a callback.
  \<^item> Reorder: rearranging a range of a list. Qsort: examples/armv7m-mpu-qsort/qsort/main.c and the
    sorting part of examples/c/main.c, whose other routines are in CBox. MultiQsort: the sort of examples/multilang/main.c, which
    alternates between two boxes.
  \<^item> WasmHeap, WasmHeapLayout, WasmHeapProps: the heap that WebAssembly boxes bring along
    (examples/awsm-littlefs/lfsbox/bb.c), first as the code over words, then as a list of blocks;
    \<^verbatim>\<open>malloc\<close> is the first fit and \<^verbatim>\<open>free\<close> merges. The heap is an instance of the locale
    \<open>allocator\<close>, inside which a client that owns blocks is proved to be served.
  \<^item> ByteMem: byte-addressed memory with little-endian loads and stores. WasmNumeric and WasmMemory:
    the runtime of awsm (examples/awsm-hello/box1/runtime), division, rotation, truncation and
    rounding against WebAssembly's, and the linear memory with its function table, stack and
    imports; the six widths of access are instances of the locale \<open>linear_memory\<close>.
  \<^item> AwsmHost, WamrHost, Wasm3Host: the host's side of a box in examples/awsm-hello/bb.c,
    examples/wamr-hello/bb.c and examples/wasm3-hello/bb.c. The first is shown equal to the
    jumptable runtime, the others are instances of \<open>box_life\<close>. WamrNative, WamrArgs: the parts of
    extra/wamr-modified that the glue relies on, the table of imports (sorted in place and searched),
    exceptions, and the checks of the pointers that a box passes to the host. AotReloc, AotLoader: how
    that directory relocates code that was compiled ahead of time (aot_reloc_thumb.c, and the text and
    function sections of aot/aot_loader.c); that every relocated call reaches its symbol, as the
    processor decodes the patched instruction.
  \<^item> RamDisk, LfsBox: the block device and the littlefs box of examples/armv7m-mpu-littlefs. Maze: the
    maze that examples/armv7m-mpu-maze/main.c keeps for its boxes.
  \<^item> TlsBox, RsaHost, RsaPeers: examples/armv7m-mpu-rsa, a box that keeps RSA keys, the system that
    translates the numbers of Alice and Bob to these keys, and their two boxes. RsaKeys and
    RsaIsolation have what each call changes and the invariant that no two numbers stand for one key;
    RsaSharing has the two ways in which it is lost, and the text of a key as a round trip; RsaPeers
    ends with the message that arrives.

  \<^bold>\<open>Loops and bounds.\<close> A loop without a bound of its own is a \<open>partial_function\<close> in the option
  type, and that it ends is proved where it does (the reset handler; the decoder on blobs with
  a meaning) and refuted where it does not (the decoder on a corrupt blob). Where a measure
  exists the loop is a total function. No fuel is used. \<open>None\<close> as the result of a loader or of
  the formatter also stands for an access outside of an array.

  \<^bold>\<open>Parameters.\<close> Linker symbols, the nrfx driver, the block device and file system calls (the
  examples leave them unimplemented), libc's init, littlefs, wasm3 and mbedtls (submodules), the parts of
  wamr that are not modelled and the code inside of boxes are arguments. What is assumed of them
  is a named predicate (\<open>uart_sends\<close>, \<open>bd_serves\<close>, \<open>fs_serves\<close>, \<open>brings_none_up\<close>, \<open>jt_box\<close>,
  \<open>lfs_tracks\<close>, \<open>good_partition\<close>, \<open>keeps_dead\<close>,
  \<open>mbed_ok\<close>, \<open>mpi_text_ok\<close>, \<open>opens\<close>) with a concrete instance in the witnesses.

  \<^bold>\<open>Not modelled.\<close> Vendored code (extra/nrfx, extra/cmsis) and tables; the interpreter loop of
  extra/wamr-modified and its loaders, but for the sections named above; the Python generator and the Rust parts, which are
  other languages; exception entry and exit by the hardware; the stack depth of recursive
  functions; floats other than as NaN, infinities and rationals. The solver and builder of mazes (Rust), the mandlebrot
  application, the programs that only call boxes and print, and the command line mains of the
  decoders are left out. The copies of the generated text in the other examples differ from the
  modelled ones in numbers and in the names of the exports.
\<close>

end
